(* ===== verification/Prelude.thy ===== *)
theory Prelude
  imports Main "HOL-Library.Word"
begin

text \<open>
  Shared vocabulary of the development: the byte type, the way an R level error leaves a C
  function, operations on a state with the rules to reason about them, the generic list and word
  lemmas the component theories share, and the interfaces (locales) that several components implement.
\<close>

unbundle bit_operations_syntax

type_synonym byte = "8 word"

section \<open>Errors\<close>

text \<open>
  \<open>R_THROW_ERROR\<close> and \<open>R_THROW_SYSTEM_ERROR\<close> (src/src/errors.c) end a C function by a jump to
  the R top level, so every fallible operation returns a value of \<open>r_error + 'a\<close>.
  \<^item> \<open>R_error msg\<close> and \<open>R_system_error msg errno\<close> are the two throwing macros;
  \<^item> \<open>R_interrupt\<close> is the jump of \<open>R_CheckUserInterrupt\<close>;
  \<^item> \<open>Process_killed\<close> and \<open>Process_replaced\<close> end a process, with \<open>raise(SIGKILL)\<close> or \<open>exit\<close>, and with a
    successful \<open>execvp\<close>;
  \<^item> \<open>No_return\<close> is a call of the system that blocks for ever, as one with an infinite timeout may;
  \<^item> \<open>Undefined_behaviour what\<close> marks an execution that C gives no meaning to, an access out of
    the bounds of an array for instance;
  \<^item> \<open>Out_of_fuel\<close> marks a loop that was given too few iterations; it is not a value of the
    program, and the theorems about a loop say how much fuel is enough.
\<close>

text \<open>
  The values of \<open>errno\<close> the code tests, and all others. The C library gives \<open>EAGAIN\<close> and
  \<open>EWOULDBLOCK\<close> the same value on Linux; the code tests them by name, and so does the model.
\<close>

datatype errno =
    EPERM | ESRCH | EINTR | EIO | EBADF | ECHILD | EAGAIN | EWOULDBLOCK | EINVAL | EPIPE
  | ERANGE | E2BIG | EILSEQ | EOVERFLOW | EOTHER int

datatype r_error =
    R_error string
  | R_system_error string errno
  | R_interrupt
  | Process_killed
  | Process_replaced
  | No_return
  | Undefined_behaviour string
  | Out_of_fuel

section \<open>Operations on a state\<close>

text \<open>
  An operation reads and changes a state (a connection and the operating system, say) and ends
  with a value or with an error. An error is a long jump in the code: it keeps every change made
  so far, so the state is returned in both cases.
\<close>

type_synonym ('s, 'a) operation = "'s \<Rightarrow> (r_error + 'a) \<times> 's"

definition ret :: "'a \<Rightarrow> ('s, 'a) operation" where
  "ret x = (\<lambda>s. (Inr x, s))"

definition throw :: "r_error \<Rightarrow> ('s, 'a) operation" where
  "throw e = (\<lambda>s. (Inl e, s))"

definition andthen :: "('s, 'a) operation \<Rightarrow> ('a \<Rightarrow> ('s, 'b) operation) \<Rightarrow> ('s, 'b) operation" where
  "andthen f g = (\<lambda>s. case f s of (Inl e, s') \<Rightarrow> (Inl e, s') | (Inr x, s') \<Rightarrow> g x s')"

definition gets :: "('s \<Rightarrow> 'a) \<Rightarrow> ('s, 'a) operation" where
  "gets f = (\<lambda>s. (Inr (f s), s))"

definition modify :: "('s \<Rightarrow> 's) \<Rightarrow> ('s, unit) operation" where
  "modify f = (\<lambda>s. (Inr (), f s))"

lemma ret_apply [simp]: "ret x s = (Inr x, s)"
  by (simp add: ret_def)

lemma throw_apply [simp]: "throw e s = (Inl e, s)"
  by (simp add: throw_def)

lemma andthen_Inl [simp]: "f s = (Inl e, s') \<Longrightarrow> andthen f g s = (Inl e, s')"
  by (simp add: andthen_def)

lemma andthen_Inr [simp]: "f s = (Inr x, s') \<Longrightarrow> andthen f g s = g x s'"
  by (simp add: andthen_def)

lemma andthen_InrE:
  assumes "andthen f g s = (Inr y, t)"
  obtains x s' where "f s = (Inr x, s')" and "g x s' = (Inr y, t)"
  using assms by (auto simp: andthen_def split: prod.splits sum.splits)

lemma andthen_assoc: "andthen (andthen f g) h = andthen f (\<lambda>x. andthen (g x) h)"
  by (auto simp: andthen_def fun_eq_iff split: prod.splits sum.splits)

text \<open>
  A system call is a function of the operating system's state. A call that may fail returns
  \<open>Inl errno\<close>; \<open>retry\<close> is the loop \<open>do ... while (r == -1 && errno == EINTR)\<close> around one.
\<close>

type_synonym ('w, 'a) syscall = "'w \<Rightarrow> (errno + 'a) \<times> 'w"

fun retry :: "nat \<Rightarrow> ('w, 'a) syscall \<Rightarrow> 'w \<Rightarrow> (r_error + (errno + 'a)) \<times> 'w" where
  "retry 0 call w = (Inl Out_of_fuel, w)"
| "retry (Suc fuel) call w =
     (case call w of (r, w') \<Rightarrow> if r = Inl EINTR then retry fuel call w' else (Inr r, w'))"

lemma retry_not_EINTR: "retry fuel call w = (Inr r, w') \<Longrightarrow> r \<noteq> Inl EINTR"
  by (induction fuel arbitrary: w) (auto split: prod.splits if_splits)

text \<open>What every call of the system call keeps, the loop keeps.\<close>

lemma retry_invariant:
  assumes "\<And>w r w'. P w \<Longrightarrow> call w = (r, w') \<Longrightarrow> P w'" and "P w" and "retry fuel call w = (r, w')"
  shows "P w'"
  using assms(2,3)
  by (induction fuel arbitrary: w) (auto split: prod.splits if_splits dest: assms(1))

lemma retry_last_call:
  "retry fuel call w = (Inr r, w') \<Longrightarrow> \<exists>v. call v = (r, w')"
  by (induction fuel arbitrary: w) (auto split: prod.splits if_splits)

section \<open>Pairs and lists\<close>

lemma fst_eqD: "fst x = a \<Longrightarrow> \<exists>s. x = (a, s)"
  by (cases x) simp

lemma take_Suc_conv_snoc: "i < length xs \<Longrightarrow> take (Suc i) xs = take i xs @ [xs ! i]"
  by (simp add: take_Suc_conv_app_nth)

section \<open>Bytes\<close>

lemma byte_eqI:
  assumes "\<And>n. n \<in> {0, 1, 2, 3, 4, 5, 6, 7} \<Longrightarrow> bit a n = bit b n"
  shows "a = (b :: byte)"
proof (rule bit_word_eqI)
  fix n assume "n < LENGTH(8)"
  then have "n \<in> {0, 1, 2, 3, 4, 5, 6, 7}" by auto
  then show "bit a n = bit b n" by (rule assms)
qed

section \<open>Interfaces\<close>

subsection \<open>Codecs\<close>

text \<open>
  An encoder, a decoder that may fail, and the image of an input under the round trip. The law
  is the round trip; what follows once is that two inputs with the same encoding have the same
  image.
\<close>

locale codec =
  fixes enc :: "'a \<Rightarrow> 'b" and dec :: "'b \<Rightarrow> r_error + 'c" and img :: "'a \<Rightarrow> 'c"
  assumes dec_enc: "dec (enc x) = Inr (img x)"
begin

lemma enc_determines_img: "enc x = enc y \<Longrightarrow> img x = img y"
  by (metis dec_enc sum.inject(2))

lemma enc_inj: "inj img \<Longrightarrow> inj enc"
  by (meson enc_determines_img inj_def)

end

subsection \<open>Relations that operations respect\<close>

text \<open>
  A relation between states, reflexive and transitive. An operation obeys it when it relates the
  states before and after, whether the operation ends with a value or an error; so does every
  operation composed of such ones.
\<close>

definition obeys :: "('s \<Rightarrow> 's \<Rightarrow> bool) \<Rightarrow> ('s, 'a) operation \<Rightarrow> bool" where
  "obeys R f \<longleftrightarrow> (\<forall>s. R s (snd (f s)))"

lemma obeysD: "obeys R f \<Longrightarrow> R s (snd (f s))"
  by (simp add: obeys_def)

lemma obeys_modify: "(\<And>s. R s (f s)) \<Longrightarrow> obeys R (modify f)"
  by (simp add: obeys_def modify_def)

lemma obeys_gets: "(\<And>s. R s s) \<Longrightarrow> obeys R (gets f)"
  by (simp add: obeys_def gets_def)

locale state_relation =
  fixes R :: "'s \<Rightarrow> 's \<Rightarrow> bool"
  assumes R_refl: "R s s" and R_trans: "R s t \<Longrightarrow> R t u \<Longrightarrow> R s u"
begin

lemma obeys_ret: "obeys R (ret x)"
  by (simp add: obeys_def R_refl)

lemma obeys_throw: "obeys R (throw e)"
  by (simp add: obeys_def R_refl)

lemma obeys_andthen: "obeys R f \<Longrightarrow> (\<And>x. obeys R (g x)) \<Longrightarrow> obeys R (andthen f g)"
  unfolding obeys_def andthen_def
  by (auto split: prod.split sum.split) (metis snd_conv, metis R_trans snd_conv)

lemma obeys_if: "(b \<Longrightarrow> obeys R f) \<Longrightarrow> (\<not> b \<Longrightarrow> obeys R g) \<Longrightarrow> obeys R (if b then f else g)"
  by simp

lemma obeys_option: "obeys R f \<Longrightarrow> (\<And>x. obeys R (g x)) \<Longrightarrow> obeys R (case v of None \<Rightarrow> f | Some x \<Rightarrow> g x)"
  by (cases v) auto

lemma obeys_sum: "(\<And>x. obeys R (f x)) \<Longrightarrow> (\<And>y. obeys R (g y)) \<Longrightarrow>
    obeys R (case v of Inl x \<Rightarrow> f x | Inr y \<Rightarrow> g y)"
  by (cases v) auto

lemma obeys_prod: "(\<And>x y. obeys R (f x y)) \<Longrightarrow> obeys R (case v of (x, y) \<Rightarrow> f x y)"
  by (cases v) auto

lemma obeys_Let: "(\<And>x. obeys R (f x)) \<Longrightarrow> obeys R (let x = v in f x)"
  by (simp add: Let_def)

lemmas obeys_intros = obeys_ret obeys_throw obeys_andthen obeys_if obeys_option obeys_sum obeys_prod obeys_Let

end

text \<open>A predicate that is not lost is such a relation.\<close>

definition preserves :: "('s \<Rightarrow> bool) \<Rightarrow> 's \<Rightarrow> 's \<Rightarrow> bool" where
  "preserves P s s' \<longleftrightarrow> (P s \<longrightarrow> P s')"

interpretation preserved: state_relation "preserves P" for P
  by unfold_locales (auto simp: preserves_def)

text \<open>Operations that always return a value.\<close>

definition returns :: "('s, 'a) operation \<Rightarrow> bool" where
  "returns f \<longleftrightarrow> (\<forall>s. \<exists>x s'. f s = (Inr x, s'))"

lemma returns_ret: "returns (ret x)"
  by (simp add: returns_def)

lemma returns_andthen: "returns f \<Longrightarrow> (\<And>x. returns (g x)) \<Longrightarrow> returns (andthen f g)"
  unfolding returns_def by (metis andthen_Inr)

lemma returns_if: "(b \<Longrightarrow> returns f) \<Longrightarrow> (\<not> b \<Longrightarrow> returns g) \<Longrightarrow> returns (if b then f else g)"
  by simp

lemma returnsE:
  assumes "returns f"
  obtains x s' where "f s = (Inr x, s')"
  using assms unfolding returns_def by blast

text \<open>
  What holds of the state when an operation ends with an error. The rules without side conditions
  are collected in \<open>throws\<close>, those of the basic operations of a component too.
\<close>

named_theorems throws \<open>introduction rules for what holds when an operation throws\<close>

definition throwing :: "(r_error \<Rightarrow> 's \<Rightarrow> bool) \<Rightarrow> ('s, 'a) operation \<Rightarrow> bool" where
  "throwing Q f \<longleftrightarrow> (\<forall>s e s'. f s = (Inl e, s') \<longrightarrow> Q e s')"

lemma throwing_ret [throws]: "throwing Q (ret x)"
  by (simp add: throwing_def)

lemma throwing_andthen [throws]: "throwing Q f \<Longrightarrow> (\<And>x. throwing Q (g x)) \<Longrightarrow> throwing Q (andthen f g)"
  unfolding throwing_def andthen_def by (auto split: prod.splits sum.splits)

lemma throwing_if [throws]: "(b \<Longrightarrow> throwing Q f) \<Longrightarrow> (\<not> b \<Longrightarrow> throwing Q g) \<Longrightarrow> throwing Q (if b then f else g)"
  by simp

lemma throwing_option [throws]: "throwing Q f \<Longrightarrow> (\<And>x. throwing Q (g x)) \<Longrightarrow>
    throwing Q (case v of None \<Rightarrow> f | Some x \<Rightarrow> g x)"
  by (cases v) auto

lemma throwing_sum [throws]: "(\<And>x. throwing Q (f x)) \<Longrightarrow> (\<And>y. throwing Q (g y)) \<Longrightarrow>
    throwing Q (case v of Inl x \<Rightarrow> f x | Inr y \<Rightarrow> g y)"
  by (cases v) auto

lemma throwing_prod [throws]: "(\<And>x y. throwing Q (f x y)) \<Longrightarrow> throwing Q (case v of (x, y) \<Rightarrow> f x y)"
  by (cases v) auto

lemma throwing_Let [throws]: "(\<And>x. throwing Q (f x)) \<Longrightarrow> throwing Q (let x = v in f x)"
  by (simp add: Let_def)

lemma throwing_gets [throws]: "throwing Q (gets f)"
  by (simp add: throwing_def gets_def)

lemma throwing_modify [throws]: "throwing Q (modify f)"
  by (simp add: throwing_def modify_def)

text \<open>What holds of the state when an operation ends with a value.\<close>

definition returning :: "('a \<Rightarrow> 's \<Rightarrow> bool) \<Rightarrow> ('s, 'a) operation \<Rightarrow> bool" where
  "returning Q f \<longleftrightarrow> (\<forall>s x s'. f s = (Inr x, s') \<longrightarrow> Q x s')"

lemma returning_throw: "returning Q (throw e)"
  by (simp add: returning_def)

lemma returning_andthen: "(\<And>x. returning Q (g x)) \<Longrightarrow> returning Q (andthen f g)"
  unfolding returning_def by (auto elim!: andthen_InrE)

lemma returning_if: "(b \<Longrightarrow> returning Q f) \<Longrightarrow> (\<not> b \<Longrightarrow> returning Q g) \<Longrightarrow> returning Q (if b then f else g)"
  by simp

lemma returning_option: "returning Q f \<Longrightarrow> (\<And>x. returning Q (g x)) \<Longrightarrow>
    returning Q (case v of None \<Rightarrow> f | Some x \<Rightarrow> g x)"
  by (cases v) auto

lemma returning_sum: "(\<And>x. returning Q (f x)) \<Longrightarrow> (\<And>y. returning Q (g y)) \<Longrightarrow>
    returning Q (case v of Inl x \<Rightarrow> f x | Inr y \<Rightarrow> g y)"
  by (cases v) auto

lemma returning_prod: "(\<And>x y. returning Q (f x y)) \<Longrightarrow> returning Q (case v of (x, y) \<Rightarrow> f x y)"
  by (cases v) auto

lemma returning_Let: "(\<And>x. returning Q (f x)) \<Longrightarrow> returning Q (let x = v in f x)"
  by (simp add: Let_def)

lemmas returning_intros = returning_throw returning_andthen returning_if returning_option returning_sum
  returning_prod returning_Let

text \<open>
  What a returning operation establishes, from what held before it: a Hoare triple that says
  nothing of errors.
\<close>

definition yields :: "('s \<Rightarrow> bool) \<Rightarrow> ('s, 'a) operation \<Rightarrow> ('a \<Rightarrow> 's \<Rightarrow> bool) \<Rightarrow> bool" where
  "yields P f Q \<longleftrightarrow> (\<forall>s x s'. P s \<longrightarrow> f s = (Inr x, s') \<longrightarrow> Q x s')"

lemma yieldsD: "yields P f Q \<Longrightarrow> P s \<Longrightarrow> f s = (Inr x, s') \<Longrightarrow> Q x s'"
  by (auto simp: yields_def)

lemma yields_weaken: "(\<And>s. P s \<Longrightarrow> P' s) \<Longrightarrow> yields P' f Q \<Longrightarrow> yields P f Q"
  unfolding yields_def by blast

lemma yields_post: "yields P f Q \<Longrightarrow> (\<And>x s. Q x s \<Longrightarrow> Q' x s) \<Longrightarrow> yields P f Q'"
  unfolding yields_def by blast

lemma yields_trivial: "yields P f (\<lambda>_ _. True)"
  by (simp add: yields_def)

lemma yields_andthen: "yields P f Q \<Longrightarrow> (\<And>x. yields (Q x) (g x) R) \<Longrightarrow> yields P (andthen f g) R"
  by (auto simp: yields_def elim!: andthen_InrE)

lemma yields_obeys: "obeys R f \<Longrightarrow> (\<And>s s'. R s s' \<Longrightarrow> P s \<Longrightarrow> P s') \<Longrightarrow> yields P f (\<lambda>_. P)"
  unfolding yields_def obeys_def by (metis snd_conv)

lemma yields_throw: "yields P (throw e) Q"
  by (simp add: yields_def)

lemma yields_ret: "(\<And>s. P s \<Longrightarrow> Q x s) \<Longrightarrow> yields P (ret x) Q"
  by (simp add: yields_def)

lemma yields_if: "(b \<Longrightarrow> yields P f Q) \<Longrightarrow> (\<not> b \<Longrightarrow> yields P g Q) \<Longrightarrow> yields P (if b then f else g) Q"
  by simp

lemma yields_sum: "(\<And>x. yields P (f x) Q) \<Longrightarrow> (\<And>y. yields P (g y) Q) \<Longrightarrow>
    yields P (case v of Inl x \<Rightarrow> f x | Inr y \<Rightarrow> g y) Q"
  by (cases v) auto

lemma yields_prod: "(\<And>x y. yields P (f x y) Q) \<Longrightarrow> yields P (case v of (x, y) \<Rightarrow> f x y) Q"
  by (cases v) auto

subsection \<open>Machines with an invariant\<close>

text \<open>
  A deterministic machine, a predicate on its states and the promise that every step keeps the
  predicate. Clients get the predicate for whole runs.
\<close>

locale invariant_machine =
  fixes step :: "'s \<Rightarrow> 'e \<Rightarrow> 's" and inv :: "'s \<Rightarrow> bool"
  assumes step_inv: "inv s \<Longrightarrow> inv (step s e)"
begin

lemma run_inv: "inv s \<Longrightarrow> inv (fold (\<lambda>e s. step s e) es s)"
  by (induction es arbitrary: s) (auto intro: step_inv)

end

end
