(* ===== verification/Base64.thy ===== *)
theory Base64
  imports Prelude
begin

text \<open>
  The base64 codec of src/src/base64.c: the two tables, the encoder with its three-state
  machine, and the decoder that writes into a preallocated buffer. The lemmas give the exact
  length of the encoder's output, the memory safety of the decoder's writes, and the round trip.
\<close>

section \<open>Tables\<close>

definition BASE64_PAD :: byte where
  "BASE64_PAD = 61"

definition base64en :: "byte list" where
  "base64en =
     [65, 66, 67, 68, 69, 70, 71, 72,
      73, 74, 75, 76, 77, 78, 79, 80,
      81, 82, 83, 84, 85, 86, 87, 88,
      89, 90, 97, 98, 99, 100, 101, 102,
      103, 104, 105, 106, 107, 108, 109, 110,
      111, 112, 113, 114, 115, 116, 117, 118,
      119, 120, 121, 122, 48, 49, 50, 51,
      52, 53, 54, 55, 56, 57, 43, 47]"

text \<open>The decoding table has 128 entries; 255 marks the characters outside the alphabet.\<close>

definition base64de :: "byte list" where
  "base64de =
     [255, 255, 255, 255, 255, 255, 255, 255,
      255, 255, 255, 255, 255, 255, 255, 255,
      255, 255, 255, 255, 255, 255, 255, 255,
      255, 255, 255, 255, 255, 255, 255, 255,
      255, 255, 255, 255, 255, 255, 255, 255,
      255, 255, 255,  62, 255, 255, 255,  63,
       52,  53,  54,  55,  56,  57,  58,  59,
       60,  61, 255, 255, 255, 255, 255, 255,
      255,   0,   1,   2,   3,   4,   5,   6,
        7,   8,   9,  10,  11,  12,  13,  14,
       15,  16,  17,  18,  19,  20,  21,  22,
       23,  24,  25, 255, 255, 255, 255, 255,
      255,  26,  27,  28,  29,  30,  31,  32,
       33,  34,  35,  36,  37,  38,  39,  40,
       41,  42,  43,  44,  45,  46,  47,  48,
       49,  50,  51, 255, 255, 255, 255, 255]"

definition BASE64_ENCODE_OUT_SIZE :: "nat \<Rightarrow> nat" where
  "BASE64_ENCODE_OUT_SIZE s = ((s + 2) div 3) * 4"

definition BASE64_DECODE_OUT_SIZE :: "nat \<Rightarrow> nat" where
  "BASE64_DECODE_OUT_SIZE s = (s div 4) * 3"

section \<open>The encoder\<close>

definition en :: "byte \<Rightarrow> byte" where
  "en v = base64en ! unat v"

text \<open>One turn of the \<open>switch (s)\<close>: the characters written and the next state.\<close>

definition encode_switch :: "nat \<Rightarrow> byte \<Rightarrow> byte \<Rightarrow> byte list \<times> nat" where
  "encode_switch s c l =
     (if s = 0 then ([en (drop_bit 2 c AND 0x3F)], 1)
      else if s = 1 then ([en (push_bit 4 (l AND 0x3) OR (drop_bit 4 c AND 0xF))], 2)
      else if s = 2 then
        ([en (push_bit 2 (l AND 0xF) OR (drop_bit 6 c AND 0x3)), en (c AND 0x3F)], 0)
      else ([], s))"

fun encode_loop :: "byte list \<Rightarrow> nat \<Rightarrow> byte \<Rightarrow> byte list \<times> nat \<times> byte" where
  "encode_loop [] s l = ([], s, l)"
| "encode_loop (c # cs) s l =
     (case encode_switch s c l of
        (emitted, s') \<Rightarrow>
          (case encode_loop cs s' c of (out, s'', l'') \<Rightarrow> (emitted @ out, s'', l'')))"

definition encode_tail :: "nat \<Rightarrow> byte \<Rightarrow> byte list" where
  "encode_tail s l =
     (if s = 1 then [en (push_bit 4 (l AND 0x3)), BASE64_PAD, BASE64_PAD]
      else if s = 2 then [en (push_bit 2 (l AND 0xF)), BASE64_PAD]
      else [])"

definition base64_encode :: "byte list \<Rightarrow> byte list" where
  "base64_encode xs = (case encode_loop xs 0 0 of (out, s, l) \<Rightarrow> out @ encode_tail s l)"

section \<open>The decoder\<close>

text \<open>A store to \<open>out[j]\<close>: outside the allocated vector C gives it no meaning.\<close>

definition put :: "byte list \<Rightarrow> nat \<Rightarrow> byte \<Rightarrow> r_error + byte list" where
  "put out j v =
     (if j < length out then Inr (out[j := v])
      else Inl (Undefined_behaviour ''base64 decode: write past the output''))"

definition decode_switch :: "nat \<Rightarrow> byte \<Rightarrow> nat \<Rightarrow> byte list \<Rightarrow> r_error + nat \<times> byte list" where
  "decode_switch m c j out =
     (if m = 0 then
        (case put out j (push_bit 2 c AND 0xFF) of
           Inl e \<Rightarrow> Inl e | Inr out \<Rightarrow> Inr (j, out))
      else if m = 1 then
        (case put out j (out ! j OR (drop_bit 4 c AND 0x3)) of
           Inl e \<Rightarrow> Inl e
         | Inr out \<Rightarrow>
             (case put out (j + 1) (push_bit 4 (c AND 0xF)) of
                Inl e \<Rightarrow> Inl e | Inr out \<Rightarrow> Inr (j + 1, out)))
      else if m = 2 then
        (case put out j (out ! j OR (drop_bit 2 c AND 0xF)) of
           Inl e \<Rightarrow> Inl e
         | Inr out \<Rightarrow>
             (case put out (j + 1) (push_bit 6 (c AND 0x3)) of
                Inl e \<Rightarrow> Inl e | Inr out \<Rightarrow> Inr (j + 1, out)))
      else
        (case put out j (out ! j OR c) of
           Inl e \<Rightarrow> Inl e | Inr out \<Rightarrow> Inr (j + 1, out)))"

text \<open>
  The loop over the input, with \<open>i\<close> the index of the head of the list. The flag of the result
  tells the two ways out apart: \<open>True\<close> after the loop, \<open>False\<close> for the early
  \<open>return rout\<close> on a character outside the alphabet. The test \<open>in[i] < 0\<close> of the source is
  on an unsigned char and never succeeds, so an input byte of 128 or more indexes the table of
  128 entries past its end.
\<close>

fun decode_loop :: "byte list \<Rightarrow> nat \<Rightarrow> nat \<Rightarrow> byte list \<Rightarrow> r_error + bool \<times> nat \<times> byte list" where
  "decode_loop [] i j out = Inr (True, j, out)"
| "decode_loop (x # xs) i j out =
     (if x = BASE64_PAD then Inr (True, j, out)
      else if length base64de \<le> unat x
        then Inl (Undefined_behaviour ''base64 decode: read past base64de'')
      else if base64de ! unat x = 255 then Inr (False, j, out)
      else
        (case decode_switch (i mod 4) (base64de ! unat x) j out of
           Inl e \<Rightarrow> Inl e
         | Inr (j', out') \<Rightarrow> decode_loop xs (i + 1) j' out'))"

text \<open>
  \<open>junk\<close> is the content of the freshly allocated (not cleared) result vector.
\<close>

definition base64_decode :: "(nat \<Rightarrow> byte) \<Rightarrow> byte list \<Rightarrow> r_error + byte list" where
  "base64_decode junk inp =
     (let outlen = BASE64_DECODE_OUT_SIZE (length inp);
          rout = map junk [0..<outlen]
      in if length inp mod 4 \<noteq> 0 then Inr rout
         else
           (case decode_loop inp 0 0 rout of
              Inl e \<Rightarrow> Inl e
            | Inr (finished, j, out) \<Rightarrow>
                if \<not> finished then Inr out
                else if j + 1 < outlen then Inr (take j out)
                else Inr out))"

section \<open>Characters and sextets\<close>

lemma en_de_all:
  "list_all (\<lambda>v. base64de ! unat (en v) = v \<and> en v \<noteq> BASE64_PAD \<and> unat (en v) < 128 \<and> v \<noteq> 255)
     (map of_nat [0..<64])"
  by code_simp

lemma sextet_less: "v AND 0x3F = v \<Longrightarrow> unat (v :: byte) < 64"
  using word_and_le1 [of v 63] by (auto simp: word_le_nat_alt)

lemma en_de:
  assumes "v AND 0x3F = v"
  shows "base64de ! unat (en v) = v" and "en v \<noteq> BASE64_PAD" and "unat (en v) < 128" and "v \<noteq> 255"
proof -
  have "v \<in> set (map of_nat [0..<64])"
    using sextet_less [OF assms] by (auto intro!: image_eqI [of _ _ "unat v"])
  with en_de_all show "base64de ! unat (en v) = v" "en v \<noteq> BASE64_PAD" "unat (en v) < 128" "v \<noteq> 255"
    by (auto simp: list_all_iff)
qed

lemma length_base64de: "length base64de = 128"
  by (simp add: base64de_def)

lemma decode_loop_en:
  assumes "v AND 0x3F = v"
  shows "decode_loop (en v # xs) i j out =
    (case decode_switch (i mod 4) v j out of
       Inl e \<Rightarrow> Inl e | Inr (j', out') \<Rightarrow> decode_loop xs (i + 1) j' out')"
  using en_de [OF assms] by (simp add: length_base64de not_le)

text \<open>The four sextets of a group of three bytes.\<close>

definition sextet0 :: "byte \<Rightarrow> byte" where
  "sextet0 a = drop_bit 2 a AND 0x3F"
definition sextet1 :: "byte \<Rightarrow> byte \<Rightarrow> byte" where
  "sextet1 a b = push_bit 4 (a AND 0x3) OR (drop_bit 4 b AND 0xF)"
definition sextet2 :: "byte \<Rightarrow> byte \<Rightarrow> byte" where
  "sextet2 b c = push_bit 2 (b AND 0xF) OR (drop_bit 6 c AND 0x3)"
definition sextet3 :: "byte \<Rightarrow> byte" where
  "sextet3 c = c AND 0x3F"

lemma sextets:
  "sextet0 a AND 0x3F = sextet0 a" "sextet1 a b AND 0x3F = sextet1 a b"
  "sextet2 b c AND 0x3F = sextet2 b c" "sextet3 c AND 0x3F = sextet3 c"
  unfolding sextet0_def sextet1_def sextet2_def sextet3_def
  by (rule byte_eqI; auto simp: bit_simps simp flip: numeral_2_eq_2)+

text \<open>The part of a sextet that starts a byte, and the part that completes one.\<close>

definition hi6 :: "byte \<Rightarrow> byte" where "hi6 c = push_bit 2 c AND 0xFF"
definition hi4 :: "byte \<Rightarrow> byte" where "hi4 c = push_bit 4 (c AND 0xF)"
definition hi2 :: "byte \<Rightarrow> byte" where "hi2 c = push_bit 6 (c AND 0x3)"
definition lo2 :: "byte \<Rightarrow> byte" where "lo2 c = drop_bit 4 c AND 0x3"
definition lo4 :: "byte \<Rightarrow> byte" where "lo4 c = drop_bit 2 c AND 0xF"

lemma join_bits:
  "hi6 (sextet0 a) OR lo2 (sextet1 a b) = a"
  "hi4 (sextet1 a b) OR lo4 (sextet2 b c) = b"
  "hi2 (sextet2 b c) OR sextet3 c = c"
  "hi2 (sextet2 b 0) = 0"
  unfolding sextet0_def sextet1_def sextet2_def sextet3_def hi6_def hi4_def hi2_def lo2_def lo4_def
  by (rule byte_eqI; auto simp: bit_simps simp flip: numeral_2_eq_2)+

lemma encode_switch_sextets:
  "encode_switch 0 c l = ([en (sextet0 c)], 1)"
  "encode_switch (Suc 0) c l = ([en (sextet1 l c)], 2)"
  "encode_switch 2 c l = ([en (sextet2 l c), en (sextet3 c)], 0)"
  by (simp_all add: encode_switch_def sextet0_def sextet1_def sextet2_def sextet3_def)

lemma encode_tail_sextets:
  "encode_tail (Suc 0) l = [en (sextet1 l 0), BASE64_PAD, BASE64_PAD]"
  "encode_tail 2 l = [en (sextet2 l 0), BASE64_PAD]"
  "encode_tail 0 l = []"
  by (simp_all add: encode_tail_def sextet1_def sextet2_def)

section \<open>The encoder by groups of three\<close>

fun enc_spec :: "byte list \<Rightarrow> byte list" where
  "enc_spec (a # b # c # xs) =
     en (sextet0 a) # en (sextet1 a b) # en (sextet2 b c) # en (sextet3 c) # enc_spec xs"
| "enc_spec [a, b] = [en (sextet0 a), en (sextet1 a b), en (sextet2 b 0), BASE64_PAD]"
| "enc_spec [a] = [en (sextet0 a), en (sextet1 a 0), BASE64_PAD, BASE64_PAD]"
| "enc_spec [] = []"

lemma encode_loop_enc_spec:
  "(case encode_loop xs 0 l of (out, s, l) \<Rightarrow> out @ encode_tail s l) = enc_spec xs"
proof (induction xs arbitrary: l rule: enc_spec.induct)
  case (1 a b c xs)
  show ?case using "1" [of c] by (auto simp: encode_switch_sextets split: prod.splits)
qed (simp_all add: encode_switch_sextets encode_tail_sextets)

lemma base64_encode_eq: "base64_encode xs = enc_spec xs"
  by (simp add: base64_encode_def encode_loop_enc_spec)

lemma length_enc_spec: "length (enc_spec xs) = BASE64_ENCODE_OUT_SIZE (length xs)"
proof (induction xs rule: enc_spec.induct)
  case (1 a b c xs)
  have "(length xs + 3 + 2) div 3 = Suc ((length xs + 2) div 3)" by simp
  with "1" show ?case by (simp add: BASE64_ENCODE_OUT_SIZE_def)
qed (simp_all add: BASE64_ENCODE_OUT_SIZE_def)

section \<open>The decoder on an encoder's output\<close>

lemma enc_spec_ascii: "list_all (\<lambda>x. unat x < 128) (enc_spec xs)"
  by (induction xs rule: enc_spec.induct) (simp_all add: en_de(3) sextets BASE64_PAD_def)

lemma decode_switch_put:
  "j < length out \<Longrightarrow> decode_switch 0 c j out = Inr (j, out[j := hi6 c])"
  "j + 1 < length out \<Longrightarrow> decode_switch (Suc 0) c j out =
     Inr (j + 1, out[j := out ! j OR lo2 c, j + 1 := hi4 c])"
  "j + 1 < length out \<Longrightarrow> decode_switch 2 c j out =
     Inr (j + 1, out[j := out ! j OR lo4 c, j + 1 := hi2 c])"
  "j < length out \<Longrightarrow> decode_switch 3 c j out = Inr (j + 1, out[j := out ! j OR c])"
  by (simp_all add: decode_switch_def put_def hi6_def hi4_def hi2_def lo2_def lo4_def)

lemma mod4:
  "i mod 4 = 0 \<Longrightarrow> Suc i mod 4 = Suc 0" "i mod 4 = 0 \<Longrightarrow> Suc (Suc i) mod 4 = 2"
  "i mod 4 = 0 \<Longrightarrow> Suc (Suc (Suc i)) mod 4 = 3"
  by presburger+

lemma decode_first2:
  assumes "i mod 4 = 0" and "j + 1 < length out"
  shows "decode_loop (en (sextet0 a) # en (sextet1 a b) # xs) i j out =
    decode_loop xs (i + 2) (j + 1) (out[j := a, j + 1 := hi4 (sextet1 a b)])"
  using assms by (simp add: decode_loop_en sextets decode_switch_put mod4 join_bits del: decode_loop.simps(2))

lemma decode_third:
  assumes "i mod 4 = 2" and "j + 1 < length out" and "out ! j = hi4 (sextet1 a b)"
  shows "decode_loop (en (sextet2 b c) # xs) i j out =
    decode_loop xs (i + 1) (j + 1) (out[j := b, j + 1 := hi2 (sextet2 b c)])"
  using assms by (simp add: decode_loop_en sextets decode_switch_put join_bits del: decode_loop.simps(2))

lemma decode_fourth:
  assumes "i mod 4 = 3" and "j < length out" and "out ! j = hi2 (sextet2 b c)"
  shows "decode_loop (en (sextet3 c) # xs) i j out = decode_loop xs (i + 1) (j + 1) (out[j := c])"
  using assms by (simp add: decode_loop_en sextets decode_switch_put join_bits del: decode_loop.simps(2))

lemma list_update_Suc_swap: "out[j := x, Suc j := y, j := z] = out[j := z, Suc j := y]"
  by (simp add: list_update_swap)

lemma decode_out_size_group: "BASE64_DECODE_OUT_SIZE (Suc (Suc (Suc (Suc n)))) = BASE64_DECODE_OUT_SIZE n + 3"
proof -
  have "Suc (Suc (Suc (Suc n))) div 4 = Suc (n div 4)" by simp
  then show ?thesis by (simp add: BASE64_DECODE_OUT_SIZE_def)
qed

lemma decode_group:
  assumes i: "i mod 4 = 0" and j: "j + 2 < length out"
  shows "decode_loop (enc_spec (a # b # c # xs)) i j out =
    decode_loop (enc_spec xs) (i + 4) (j + 3) (out[j := a, j + 1 := b, j + 2 := c])"
proof -
  let ?o1 = "out[j := a, j + 1 := hi4 (sextet1 a b)]"
  let ?o2 = "?o1[j + 1 := b, j + 1 + 1 := hi2 (sextet2 b c)]"
  have m: "(i + 2) mod 4 = 2" "(i + 2 + 1) mod 4 = 3" using i by presburger+
  have "decode_loop (enc_spec (a # b # c # xs)) i j out =
      decode_loop (en (sextet2 b c) # en (sextet3 c) # enc_spec xs) (i + 2) (j + 1) ?o1"
    using i j unfolding enc_spec.simps by (intro decode_first2) simp_all
  also have "\<dots> = decode_loop (en (sextet3 c) # enc_spec xs) (i + 2 + 1) (j + 1 + 1) ?o2"
    using m j by (intro decode_third) simp_all
  also have "\<dots> = decode_loop (enc_spec xs) (i + 2 + 1 + 1) (j + 1 + 1 + 1) (?o2[j + 1 + 1 := c])"
    using m j by (intro decode_fourth) simp_all
  also have "?o2[j + 1 + 1 := c] = out[j := a, j + 1 := b, j + 2 := c]" by simp
  finally show ?thesis by (simp add: eval_nat_numeral)
qed

lemma take_drop_update3:
  "j + 2 < length out \<Longrightarrow> take 3 (drop j (out[j := a, j + 1 := b, j + 2 := c])) = [a, b, c]"
  by (rule nth_equalityI) (auto simp: nth_list_update less_Suc_eq numeral_3_eq_3 nth_Cons')

text \<open>
  The decoder on an encoder's output, from any group boundary: it stops at the end or at the
  padding, having written the input from position \<open>j\<close> on, and a zero byte behind it when the
  last group held two bytes.
\<close>

lemma decode_enc_spec:
  assumes "i mod 4 = 0" and "length out = j + BASE64_DECODE_OUT_SIZE (length (enc_spec xs))"
  shows "\<exists>out'. decode_loop (enc_spec xs) i j out = Inr (True, j + length xs, out') \<and>
      length out' = length out \<and> take j out' = take j out \<and>
      take (length xs) (drop j out') = xs \<and>
      (length xs mod 3 = 2 \<longrightarrow> out' ! (j + length xs) = 0)"
  using assms
proof (induction xs arbitrary: i j out rule: enc_spec.induct)
  case (1 a b c xs)
  let ?o = "out[j := a, j + 1 := b, j + 2 := c]"
  have len: "length out = (j + 3) + BASE64_DECODE_OUT_SIZE (length (enc_spec xs))"
    using "1.prems"(2) by (simp add: decode_out_size_group)
  obtain out' where o: "decode_loop (enc_spec xs) (i + 4) (j + 3) ?o = Inr (True, j + 3 + length xs, out')"
    "length out' = length out" "take (j + 3) out' = take (j + 3) ?o"
    "take (length xs) (drop (j + 3) out') = xs" "length xs mod 3 = 2 \<longrightarrow> out' ! (j + 3 + length xs) = 0"
    using "1.IH" [of "i + 4" ?o "j + 3"] "1.prems"(1) len by auto
  have step: "decode_loop (enc_spec (a # b # c # xs)) i j out = Inr (True, j + length (a # b # c # xs), out')"
    using "1.prems"(1) len o(1) by (simp only: decode_group) simp
  have pre: "take j out' = take j out"
    using arg_cong [OF o(3), of "take j"] by (simp add: min_def)
  have "take 3 (drop j out') = take 3 (drop j ?o)"
    using arg_cong [OF o(3), of "drop j"] by (simp add: drop_take)
  also have "\<dots> = [a, b, c]"
    using len by (intro take_drop_update3) simp
  finally have "take (3 + length xs) (drop j out') = [a, b, c] @ xs"
    using o(4) by (simp only: take_add drop_drop add.commute [of 3 j])
  moreover have l3: "length (a # b # c # xs) = 3 + length xs" by simp
  ultimately have tk: "take (length (a # b # c # xs)) (drop j out') = a # b # c # xs" by (simp only: append.simps)
  have z: "length (a # b # c # xs) mod 3 = 2 \<longrightarrow> out' ! (j + length (a # b # c # xs)) = 0"
    using o(5) unfolding l3 by (simp add: ac_simps)
  have "length out' = length out" using o(2) by simp
  with pre step tk z show ?case by (intro exI [of _ out'] conjI)
next
  case (2 a b)
  then have j: "j + 2 < length out" by (simp add: BASE64_DECODE_OUT_SIZE_def)
  let ?o1 = "out[j := a, j + 1 := hi4 (sextet1 a b)]"
  have "decode_loop (enc_spec [a, b]) i j out =
      decode_loop [en (sextet2 b 0), BASE64_PAD] (i + 2) (j + 1) ?o1"
    using "2.prems"(1) j unfolding enc_spec.simps by (intro decode_first2) simp_all
  also have "\<dots> = decode_loop [BASE64_PAD] (i + 2 + 1) (j + 1 + 1)
      (?o1[j + 1 := b, j + 1 + 1 := hi2 (sextet2 b 0)])"
    using "2.prems"(1) j by (intro decode_third) (simp_all add: mod4)
  finally show ?case
    using j by (auto simp: join_bits take_Suc_conv_snoc intro!: nth_equalityI)
next
  case (3 a)
  then have j: "j + 2 < length out" by (simp add: BASE64_DECODE_OUT_SIZE_def)
  have "decode_loop (enc_spec [a]) i j out =
      decode_loop [BASE64_PAD, BASE64_PAD] (i + 2) (j + 1) (out[j := a, j + 1 := hi4 (sextet1 a 0)])"
    using "3.prems"(1) j unfolding enc_spec.simps by (intro decode_first2) simp_all
  then show ?case
    using j by (auto simp: take_Suc_conv_snoc intro!: nth_equalityI)
qed (simp add: BASE64_DECODE_OUT_SIZE_def)

section \<open>Round trip\<close>

text \<open>
  What decoding gives back: the final length test \<open>j + 1 < outlen\<close> keeps one byte of the padding
  when there is exactly one padding character.
\<close>

definition decoded_image :: "byte list \<Rightarrow> byte list" where
  "decoded_image xs = xs @ (if length xs mod 3 = 2 then [0] else [])"

lemma base64_decode_encode:
  "base64_decode junk (base64_encode xs) = Inr (decoded_image xs)"
proof -
  let ?n = "BASE64_DECODE_OUT_SIZE (length (enc_spec xs))"
  let ?o = "map junk [0..<?n]"
  obtain out' where o: "decode_loop (enc_spec xs) 0 0 ?o = Inr (True, length xs, out')"
    "length out' = ?n" "take (length xs) out' = xs" "length xs mod 3 = 2 \<longrightarrow> out' ! length xs = 0"
    using decode_enc_spec [of 0 ?o 0 xs] by auto
  have n: "?n = (length xs + 2) div 3 * 3" and d: "length (enc_spec xs) mod 4 = 0"
    by (simp_all add: length_enc_spec BASE64_ENCODE_OUT_SIZE_def BASE64_DECODE_OUT_SIZE_def)
  consider (0) "length xs mod 3 = 0" | (1) "length xs mod 3 = 1" | (2) "length xs mod 3 = 2" by linarith
  then show ?thesis
  proof cases
    case 0
    then have "?n = length xs" unfolding n by presburger
    with 0 o d show ?thesis by (simp add: base64_decode_def base64_encode_eq Let_def decoded_image_def)
  next
    case 1
    then have "?n = length xs + 2" unfolding n by presburger
    with 1 o d show ?thesis by (simp add: base64_decode_def base64_encode_eq Let_def decoded_image_def)
  next
    case 2
    then have "?n = length xs + 1" unfolding n by presburger
    moreover from this have "out' = xs @ [0]"
      using 2 o take_Suc_conv_snoc [of "length xs" out'] by simp
    ultimately show ?thesis using 2 o d by (simp add: base64_decode_def base64_encode_eq Let_def decoded_image_def)
  qed
qed

interpretation b64: codec base64_encode "base64_decode junk" decoded_image for junk
  by unfold_locales (rule base64_decode_encode)

text \<open>C36: encoding then decoding any byte string gives the string back when its length is 0 or 1
  modulo 3, whatever the uninitialised result vector held; when the length is 2 modulo 3, exactly
  one zero byte is appended.\<close>

theorem base64_roundtrip:
  "base64_decode junk (base64_encode xs) = Inr (xs @ (if length xs mod 3 = 2 then [0] else []))"
  using b64.dec_enc [of junk xs] by (simp only: decoded_image_def)

text \<open>The encoder writes exactly the number of characters its output vector was allocated
  for, and every one of them is below 128.\<close>

theorem base64_encode_fills:
  "length (base64_encode xs) = BASE64_ENCODE_OUT_SIZE (length xs) \<and>
   list_all (\<lambda>x. unat x < 128) (base64_encode xs)"
  by (simp add: base64_encode_eq length_enc_spec enc_spec_ascii)

section \<open>Memory safety of the decoder\<close>

lemma decode_switch_safe:
  "j + (if m = 1 \<or> m = 2 then 1 else 0) < length out \<Longrightarrow> 
   \<exists>j' out'. decode_switch m c j out = Inr (j', out') \<and> length out' = length out \<and> j' = j + (if m = 0 then 0 else 1)"
  by (auto simp: decode_switch_def put_def)

definition jpos :: "nat \<Rightarrow> nat" where
  "jpos i = 3 * (i div 4) + (i mod 4 - 1)"

lemma jpos_eq: "k < 4 \<Longrightarrow> jpos (4 * g + k) = 3 * g + (k - 1)"
  by (simp add: jpos_def)

lemma jpos_Suc: "jpos (Suc i) = jpos i + (if i mod 4 = 0 then 0 else 1)"
proof -
  define g k where "g = i div 4" and "k = i mod 4"
  have i: "i = 4 * g + k" and k: "k < 4" by (simp_all add: g_def k_def)
  have *: "jpos i = 3 * g + (k - 1)" using jpos_eq [OF k, of g] by (simp only: i)
  show ?thesis
  proof (cases "k = 3")
    case True
    then have "Suc i = 4 * (g + 1) + 0" using i by simp
    then have "jpos (Suc i) = 3 * (g + 1) + (0 - 1)" using jpos_eq [of 0 "g + 1"] by (simp only: zero_less_numeral)
    with * True show ?thesis by (simp add: k_def)
  next
    case False
    then have "Suc k < 4" using k by simp
    from jpos_eq [OF this, of g] have "jpos (Suc i) = 3 * g + k" by (simp add: i)
    with * show ?thesis by (auto simp: k_def)
  qed
qed

lemma jpos_room:
  assumes "i < 4 * h"
  shows "jpos i + (if i mod 4 = 1 \<or> i mod 4 = 2 then 1 else 0) < 3 * h"
proof -
  have "i div 4 < h" "i mod 4 < 4" using assms by (simp_all add: less_mult_imp_div_less mult.commute)
  then show ?thesis by (auto simp: jpos_def)
qed

lemma jpos_le: "i \<le> 4 * h \<Longrightarrow> jpos i \<le> 3 * h"
  using jpos_room [of i h] by (cases "i = 4 * h") (auto simp: jpos_def split: if_splits)

lemma decode_loop_safe:
  assumes "\<forall>x \<in> set xs. unat x < 128" and "i + length xs = 4 * h" and "length out = 3 * h"
  shows "\<exists>fin j' out'. decode_loop xs i (jpos i) out = Inr (fin, j', out') \<and> length out' = 3 * h \<and> j' \<le> 3 * h"
  using assms
proof (induction xs arbitrary: i out)
  case Nil
  then show ?case by (auto intro: jpos_le)
next
  case (Cons x xs)
  have "jpos i + (if i mod 4 = 1 \<or> i mod 4 = 2 then 1 else 0) < length out"
    using jpos_room [of i h] Cons.prems(2,3) by simp
  from decode_switch_safe [OF this, of "base64de ! unat x"]
  obtain out' where d: "decode_switch (i mod 4) (base64de ! unat x) (jpos i) out = Inr (jpos (Suc i), out')"
    and l: "length out' = 3 * h"
    using Cons.prems(3) by (auto simp: jpos_Suc)
  have "\<exists>fin j' out''. decode_loop xs (Suc i) (jpos (Suc i)) out' = Inr (fin, j', out'') \<and> length out'' = 3 * h \<and> j' \<le> 3 * h"
    using Cons.IH [of "Suc i" out'] Cons.prems l by simp
  with d Cons.prems jpos_le [of i h] show ?case by (auto simp: length_base64de)
qed

text \<open>C38: on any input of bytes below 128, well formed or not, the decoder never writes outside
  its result vector and never reads outside its table, and its result is no longer than the
  vector.\<close>

theorem base64_decode_safe:
  assumes "\<forall>x \<in> set inp. unat x < 128"
  shows "\<exists>out. base64_decode junk inp = Inr out \<and> length out \<le> BASE64_DECODE_OUT_SIZE (length inp)"
proof (cases "length inp mod 4 = 0")
  case True
  then obtain h where h: "length inp = 4 * h" by (metis mult.commute mod_0_imp_dvd dvdE)
  from decode_loop_safe [OF assms, of 0 h "map junk [0..<3 * h]"] h show ?thesis
    by (auto simp: base64_decode_def BASE64_DECODE_OUT_SIZE_def Let_def jpos_def mult.commute)
qed (simp add: base64_decode_def)

theorem base64_decode_safe_witness:
  "\<exists>out. base64_decode (\<lambda>_. 0) [81, 81, 61, 61] = Inr out \<and> length out \<le> 3"
  using base64_decode_safe [of "[81, 81, 61, 61]" "\<lambda>_. 0"] by (simp add: BASE64_DECODE_OUT_SIZE_def)

lemma decode_loop_high:
  assumes "\<forall>y \<in> set pre. unat y < 128 \<and> y \<noteq> BASE64_PAD \<and> base64de ! unat y \<noteq> 255"
    and "128 \<le> unat x" and "i + length (pre @ x # post) = 4 * h" and "length out = 3 * h"
  shows "decode_loop (pre @ x # post) i (jpos i) out =
    Inl (Undefined_behaviour ''base64 decode: read past base64de'')"
  using assms
proof (induction pre arbitrary: i out)
  case Nil
  then show ?case by (auto simp: length_base64de BASE64_PAD_def)
next
  case (Cons y pre)
  have "jpos i + (if i mod 4 = 1 \<or> i mod 4 = 2 then 1 else 0) < length out"
    using jpos_room [of i h] Cons.prems(3,4) by simp
  from decode_switch_safe [OF this, of "base64de ! unat y"]
  obtain out' where d: "decode_switch (i mod 4) (base64de ! unat y) (jpos i) out = Inr (jpos (Suc i), out')"
    and l: "length out' = 3 * h"
    using Cons.prems(4) by (auto simp: jpos_Suc)
  from d l Cons.IH [of "Suc i" out'] Cons.prems show ?case by (simp add: length_base64de)
qed

text \<open>A byte of 128 or more that is reached in an input of a length divisible by 4 makes the
  decoder read its 128 entry table out of bounds: the guard \<open>in[i] < 0\<close> is on an unsigned
  value.\<close>

theorem base64_decode_high_byte:
  assumes "length (pre @ x # post) mod 4 = 0" and "128 \<le> unat x"
    and "\<forall>y \<in> set pre. unat y < 128 \<and> y \<noteq> BASE64_PAD \<and> base64de ! unat y \<noteq> 255"
  shows "base64_decode junk (pre @ x # post) = Inl (Undefined_behaviour ''base64 decode: read past base64de'')"
proof -
  obtain h where h: "length (pre @ x # post) = 4 * h"
    using assms(1) by (metis mult.commute mod_0_imp_dvd dvdE)
  have "decode_loop (pre @ x # post) 0 (jpos 0) (map junk [0..<3 * h]) =
    Inl (Undefined_behaviour ''base64 decode: read past base64de'')"
    using assms(2,3) h by (intro decode_loop_high [where h = h]) simp_all
  then show ?thesis using h by (simp add: base64_decode_def BASE64_DECODE_OUT_SIZE_def Let_def jpos_def mult.commute)
qed

theorem base64_decode_high_byte_witness:
  "base64_decode (\<lambda>_. 0) [81, 200, 61, 61] =
     Inl (Undefined_behaviour ''base64 decode: read past base64de'')"
proof -
  have "\<forall>y \<in> set [81 :: byte]. unat y < 128 \<and> y \<noteq> BASE64_PAD \<and> base64de ! unat y \<noteq> 255"
    by (simp add: BASE64_PAD_def base64de_def)
  with base64_decode_high_byte [of "[81]" 200 "[61, 61]" "\<lambda>_. 0"] show ?thesis by simp
qed

end
