(* ===== verification/Pid_Vector.thy ===== *)
theory Pid_Vector
  imports Prelude
begin

text \<open>
  The growable vector of process ids of src/src/processx-vector.c, and the search for the
  process tree below a root. A vector is its storage (the cells from \<open>stor_begin\<close> to
  \<open>stor_end\<close>) and the position of \<open>end\<close>. The tree search is stated and proved against the
  list interface the vector implements.
\<close>

section \<open>The vector\<close>

record pvec =
  cells :: "int list"
  vend :: nat

text \<open>\<open>junk\<close> is the content of the memory \<open>R_alloc\<close> returns.\<close>

definition processx_vector_init :: "(nat \<Rightarrow> int) \<Rightarrow> nat \<Rightarrow> nat \<Rightarrow> pvec" where
  "processx_vector_init junk sz alloc_size =
     (let alloc_size = (if alloc_size < sz then sz else alloc_size);
          alloc_size = (if alloc_size = 0 then 1 else alloc_size)
      in \<lparr>cells = map junk [0..<alloc_size], vend = sz\<rparr>)"

definition processx_vector_size :: "pvec \<Rightarrow> nat" where
  "processx_vector_size v = vend v"

text \<open>R's \<open>S_realloc\<close>: nothing to do unless the new size is larger, and then the rest is zero.\<close>

definition S_realloc :: "int list \<Rightarrow> nat \<Rightarrow> nat \<Rightarrow> int list" where
  "S_realloc p new old = (if new \<le> old then p else take old p @ replicate (new - old) 0)"

definition processx_vector_reserve :: "pvec \<Rightarrow> nat \<Rightarrow> pvec" where
  "processx_vector_reserve v sz =
     (let actual_size = processx_vector_size v;
          alloc_size = length (cells v)
      in if sz \<le> actual_size then v
         else \<lparr>cells = take sz (S_realloc (cells v) sz alloc_size), vend = actual_size\<rparr>)"

definition processx_vector_clear :: "pvec \<Rightarrow> pvec" where
  "processx_vector_clear v = v\<lparr>vend := 0\<rparr>"

definition processx_vector_push_back :: "pvec \<Rightarrow> int \<Rightarrow> pvec" where
  "processx_vector_push_back v e =
     (let v = (if length (cells v) = vend v
               then (let new_size = processx_vector_size v * 2;
                         new_size = (if new_size = 0 then 1 else new_size)
                     in processx_vector_reserve v new_size)
               else v)
      in v\<lparr>cells := (cells v)[vend v := e], vend := vend v + 1\<rparr>)"

text \<open>\<open>Some idx\<close> is the return value 1 with the index stored, \<open>None\<close> the return value 0.\<close>

function processx_vector_find :: "pvec \<Rightarrow> int \<Rightarrow> nat \<Rightarrow> nat option" where
  "processx_vector_find v e from =
     (if from < processx_vector_size v
      then (if cells v ! from = e then Some from else processx_vector_find v e (from + 1))
      else None)"
  by pat_completeness auto
termination
  by (relation "measure (\<lambda>(v, e, from). processx_vector_size v - from)") auto

declare processx_vector_find.simps [simp del]

section \<open>The list a vector holds\<close>

definition contents :: "pvec \<Rightarrow> int list" where
  "contents v = take (vend v) (cells v)"

definition pvec_wf :: "pvec \<Rightarrow> bool" where
  "pvec_wf v \<longleftrightarrow> vend v \<le> length (cells v)"

lemma length_contents: "pvec_wf v \<Longrightarrow> length (contents v) = processx_vector_size v"
  by (simp add: contents_def pvec_wf_def processx_vector_size_def)

lemma vector_init_wf: "pvec_wf (processx_vector_init junk sz alloc_size)"
  by (simp add: processx_vector_init_def pvec_wf_def Let_def)

lemma vector_clear: "pvec_wf (processx_vector_clear v)" "contents (processx_vector_clear v) = []"
  by (simp_all add: processx_vector_clear_def pvec_wf_def contents_def)

lemma vector_reserve:
  assumes "pvec_wf v"
  shows "pvec_wf (processx_vector_reserve v n)"
    and "contents (processx_vector_reserve v n) = contents v"
    and "vend (processx_vector_reserve v n) = vend v"
    and "vend v < n \<Longrightarrow> length (cells (processx_vector_reserve v n)) = n"
  using assms
  by (auto simp: processx_vector_reserve_def pvec_wf_def contents_def S_realloc_def
      processx_vector_size_def Let_def min_def)

text \<open>The store of \<open>push_back\<close> is in the storage: the vector was grown when it was full.\<close>

lemma vector_push_back_room:
  "pvec_wf v \<Longrightarrow>
   vend v < length (cells (if length (cells v) = vend v
      then processx_vector_reserve v (if vend v * 2 = 0 then 1 else vend v * 2) else v))"
  using vector_reserve(4) [of v] by (auto simp: pvec_wf_def)

lemma vector_push_back:
  assumes "pvec_wf v"
  shows "pvec_wf (processx_vector_push_back v e)"
    and "contents (processx_vector_push_back v e) = contents v @ [e]"
proof -
  define u where "u = (if length (cells v) = vend v
      then processx_vector_reserve v (if vend v * 2 = 0 then 1 else vend v * 2) else v)"
  have u: "pvec_wf u" "contents u = contents v" "vend u = vend v"
    using vector_reserve [OF assms] assms by (simp_all add: u_def)
  have room: "vend u < length (cells u)"
    using vector_push_back_room [OF assms] u(3) by (simp add: u_def)
  have p: "processx_vector_push_back v e = u\<lparr>cells := (cells u)[vend u := e], vend := vend u + 1\<rparr>"
    by (simp add: processx_vector_push_back_def processx_vector_size_def u_def Let_def)
  show "pvec_wf (processx_vector_push_back v e)"
    using room by (simp add: p pvec_wf_def)
  show "contents (processx_vector_push_back v e) = contents v @ [e]"
    using room u(2) by (simp add: p contents_def take_Suc_conv_snoc)
qed

lemma vector_find:
  "pvec_wf v \<Longrightarrow> (processx_vector_find v e from = None) = (e \<notin> set (drop from (contents v)))"
proof (induction v e "from" rule: processx_vector_find.induct)
  case (1 v e "from")
  have len: "length (contents v) = vend v" using "1.prems" by (simp add: contents_def pvec_wf_def)
  show ?case
  proof (cases "from < vend v")
    case True
    then have "drop from (contents v) = cells v ! from # drop (from + 1) (contents v)"
      using len by (simp add: Cons_nth_drop_Suc [symmetric] contents_def)
    with True "1" show ?thesis
      by (subst processx_vector_find.simps) (auto simp: processx_vector_size_def)
  next
    case False
    with len show ?thesis
      by (subst processx_vector_find.simps) (simp add: processx_vector_size_def)
  qed
qed

text \<open>The index found is the first one.\<close>

lemma vector_find_first:
  "processx_vector_find v e from = Some k \<Longrightarrow>
   from \<le> k \<and> k < vend v \<and> cells v ! k = e \<and> (\<forall>m. from \<le> m \<and> m < k \<longrightarrow> cells v ! m \<noteq> e)"
proof (induction v e "from" rule: processx_vector_find.induct)
  case (1 v e "from")
  show ?case
  proof (cases "from < vend v \<and> cells v ! from \<noteq> e")
    case True
    with "1.prems" have "processx_vector_find v e (from + 1) = Some k"
      by (subst (asm) processx_vector_find.simps) (simp add: processx_vector_size_def)
    with "1.IH" True have "from + 1 \<le> k \<and> k < vend v \<and> cells v ! k = e \<and>
        (\<forall>m. from + 1 \<le> m \<and> m < k \<longrightarrow> cells v ! m \<noteq> e)"
      by (simp add: processx_vector_size_def)
    moreover have "from + 1 \<le> m" if "from \<le> m" "cells v ! m = e" for m
      using that True by (cases "m = from") auto
    ultimately have "\<forall>m. from \<le> m \<and> m < k \<longrightarrow> cells v ! m \<noteq> e" by blast
    with \<open>from + 1 \<le> k \<and> _\<close> show ?thesis by simp
  next
    case False
    with "1.prems" show ?thesis
      by (subst (asm) processx_vector_find.simps) (auto simp: processx_vector_size_def split: if_splits)
  qed
qed

section \<open>The interface the tree search relies on\<close>

locale pid_sequence =
  fixes clear :: "'v \<Rightarrow> 'v" and push :: "'v \<Rightarrow> int \<Rightarrow> 'v" and find :: "'v \<Rightarrow> int \<Rightarrow> nat \<Rightarrow> nat option"
    and items :: "'v \<Rightarrow> int list" and wf :: "'v \<Rightarrow> bool"
  assumes clear_wf: "wf v \<Longrightarrow> wf (clear v)"
    and items_clear: "wf v \<Longrightarrow> items (clear v) = []"
    and push_wf: "wf v \<Longrightarrow> wf (push v e)"
    and items_push: "wf v \<Longrightarrow> items (push v e) = items v @ [e]"
    and find_iff: "wf v \<Longrightarrow> (find v e k = None) = (e \<notin> set (drop k (items v)))"
begin

text \<open>
  A conditional append over a list of edges: what the inner loop of the tree search does, on the
  list level.
\<close>

lemma fold_push:
  "wf v \<Longrightarrow>
   wf (fold (\<lambda>(n, p) r. if find r p k = None then r else push r n) es v) \<and>
   items (fold (\<lambda>(n, p) r. if find r p k = None then r else push r n) es v) =
   fold (\<lambda>(n, p) xs. if p \<in> set (drop k xs) then xs @ [n] else xs) es (items v)"
  by (induction es arbitrary: v) (auto simp: find_iff push_wf items_push)

end

interpretation pv: pid_sequence processx_vector_clear processx_vector_push_back
    processx_vector_find contents pvec_wf
  by unfold_locales (auto simp: vector_clear vector_push_back vector_find)

section \<open>The tree below a root\<close>

text \<open>One pass over all nodes, from index \<open>i\<close> on.\<close>

function tree_pass :: "pvec \<Rightarrow> pvec \<Rightarrow> nat \<Rightarrow> nat \<Rightarrow> pvec \<Rightarrow> pvec" where
  "tree_pass nodes parents done i result =
     (if i < processx_vector_size nodes
      then (let parent = cells parents ! i;
                result = (if processx_vector_find result parent done = None then result
                          else processx_vector_push_back result (cells nodes ! i))
            in tree_pass nodes parents done (i + 1) result)
      else result)"
  by pat_completeness auto
termination
  by (relation "measure (\<lambda>(nodes, parents, done, i, result). processx_vector_size nodes - i)") auto

declare tree_pass.simps [simp del]

text \<open>The loop \<open>while (done < next_done)\<close>, with fuel: it need not end.\<close>

fun tree_loop :: "nat \<Rightarrow> pvec \<Rightarrow> pvec \<Rightarrow> nat \<Rightarrow> nat \<Rightarrow> pvec \<Rightarrow> r_error + pvec" where
  "tree_loop 0 nodes parents done next_done result = Inl Out_of_fuel"
| "tree_loop (Suc fuel) nodes parents done next_done result =
     (if done < next_done
      then (let result = tree_pass nodes parents done 0 result
            in tree_loop fuel nodes parents next_done (processx_vector_size result) result)
      else Inr result)"

definition processx_vector_rooted_tree ::
    "nat \<Rightarrow> int \<Rightarrow> pvec \<Rightarrow> pvec \<Rightarrow> pvec \<Rightarrow> r_error + pvec" where
  "processx_vector_rooted_tree fuel root nodes parents result =
     tree_loop fuel nodes parents 0 1
       (processx_vector_push_back (processx_vector_clear result) root)"

subsection \<open>The pass on the list level\<close>

abbreviation add_child :: "nat \<Rightarrow> int \<times> int \<Rightarrow> int list \<Rightarrow> int list" where
  "add_child k \<equiv> \<lambda>(n, p) xs. if p \<in> set (drop k xs) then xs @ [n] else xs"

lemma fold_add_child_prefix: "\<exists>ys. fold (add_child k) es xs = xs @ ys"
proof (induction es arbitrary: xs)
  case (Cons e es)
  obtain n p where e: "e = (n, p)" by force
  show ?case
    using Cons [of xs] Cons [of "xs @ [n]"] by (auto simp: e)
qed simp

text \<open>Everything a pass appends is a child of something at or after position \<open>k\<close>.\<close>

lemma fold_add_child_sound:
  assumes "k \<le> length xs" and "\<And>n p. (n, p) \<in> set es \<Longrightarrow> P p \<Longrightarrow> Q n \<and> P n"
    and "\<forall>x \<in> set (drop k xs). P x" and "fold (add_child k) es xs = xs @ ys"
  shows "\<forall>y \<in> set ys. Q y \<and> P y"
  using assms
proof (induction es arbitrary: xs ys)
  case (Cons e es)
  obtain n p where e: "e = (n, p)" by force
  show ?case
  proof (cases "p \<in> set (drop k xs)")
    case True
    then have n: "Q n \<and> P n" using Cons.prems(2,3) by (auto simp: e)
    obtain zs where zs: "fold (add_child k) es (xs @ [n]) = (xs @ [n]) @ zs"
      using fold_add_child_prefix by blast
    have "\<forall>y \<in> set zs. Q y \<and> P y"
    proof (rule Cons.IH [OF _ _ _ zs])
      show "k \<le> length (xs @ [n])" using Cons.prems(1) by simp
      show "\<forall>x \<in> set (drop k (xs @ [n])). P x" using Cons.prems(1,3) n by simp
      show "Q n' \<and> P n'" if "(n', p') \<in> set es" "P p'" for n' p'
        using that Cons.prems(2) [of n' p'] by simp
    qed
    moreover have "ys = n # zs" using Cons.prems(4) zs True by (simp add: e)
    ultimately show ?thesis using n by simp
  next
    case False
    with Cons.prems(4) have "fold (add_child k) es xs = xs @ ys" by (simp add: e)
    moreover have "Q n' \<and> P n'" if "(n', p') \<in> set es" "P p'" for n' p'
      using that Cons.prems(2) [of n' p'] by simp
    ultimately show ?thesis using Cons.IH Cons.prems(1,3) by blast
  qed
qed simp

text \<open>Every child of something that was at or after position \<open>k\<close> is appended.\<close>

lemma fold_add_child_complete:
  assumes "k \<le> length xs" and "(n, p) \<in> set es" and "p \<in> set (drop k xs)"
    and "fold (add_child k) es xs = xs @ ys"
  shows "n \<in> set ys"
  using assms
proof (induction es arbitrary: xs ys)
  case (Cons e es)
  obtain m q where e: "e = (m, q)" by force
  show ?case
  proof (cases "q \<in> set (drop k xs)")
    case True
    obtain zs where zs: "fold (add_child k) es (xs @ [m]) = (xs @ [m]) @ zs"
      using fold_add_child_prefix by blast
    then have ys: "ys = m # zs" using Cons.prems(4) True by (simp add: e)
    show ?thesis
    proof (cases "(n, p) \<in> set es")
      case True
      have "n \<in> set zs"
        using Cons.prems(1,3) by (intro Cons.IH [OF _ True _ zs]) simp_all
      with ys show ?thesis by simp
    qed (use Cons.prems(2) ys e in auto)
  next
    case False
    with Cons.prems have "(n, p) \<in> set es" "fold (add_child k) es xs = xs @ ys"
      by (auto simp: e)
    with Cons show ?thesis by blast
  qed
qed simp

subsection \<open>The concrete pass\<close>

definition edges :: "pvec \<Rightarrow> pvec \<Rightarrow> (int \<times> int) list" where
  "edges nodes parents = zip (contents nodes) (contents parents)"

definition tree_input :: "pvec \<Rightarrow> pvec \<Rightarrow> bool" where
  "tree_input nodes parents \<longleftrightarrow>
     pvec_wf nodes \<and> pvec_wf parents \<and> processx_vector_size parents = processx_vector_size nodes"

lemma length_edges: "tree_input nodes parents \<Longrightarrow> length (edges nodes parents) = vend nodes"
  by (simp add: edges_def tree_input_def length_contents processx_vector_size_def)

lemma tree_pass_fold:
  assumes "tree_input nodes parents"
  shows "tree_pass nodes parents done i r =
    fold (\<lambda>(n, p) r. if processx_vector_find r p done = None then r else processx_vector_push_back r n)
      (drop i (edges nodes parents)) r"
  using assms
proof (induction nodes parents "done" i r rule: tree_pass.induct)
  case (1 nodes parents "done" i r)
  show ?case
  proof (cases "i < vend nodes")
    case True
    with "1.prems" have "drop i (edges nodes parents) = (cells nodes ! i, cells parents ! i) # drop (i + 1) (edges nodes parents)"
      by (simp add: Cons_nth_drop_Suc [symmetric] length_edges)
        (simp add: edges_def contents_def tree_input_def pvec_wf_def processx_vector_size_def)
    with True "1" show ?thesis
      by (subst tree_pass.simps) (simp add: processx_vector_size_def Let_def)
  next
    case False
    with length_edges [OF "1.prems"] show ?thesis
      by (subst tree_pass.simps) (simp add: processx_vector_size_def)
  qed
qed

lemma tree_pass_items:
  assumes "tree_input nodes parents" and "pvec_wf r"
  shows "pvec_wf (tree_pass nodes parents done 0 r)"
    and "contents (tree_pass nodes parents done 0 r) = fold (add_child done) (edges nodes parents) (contents r)"
  using pv.fold_push [OF assms(2), of "done" "edges nodes parents"] by (simp_all add: tree_pass_fold [OF assms(1)])

section \<open>What the search finds\<close>

text \<open>The specification: the processes below a root in a table of (process, parent) pairs.\<close>

inductive descendant :: "(int \<times> int) list \<Rightarrow> int \<Rightarrow> int \<Rightarrow> bool" for es root where
  root: "descendant es root root"
| child: "descendant es root p \<Longrightarrow> (n, p) \<in> set es \<Longrightarrow> descendant es root n"

inductive_cases descendant_cases: "descendant es root n"

text \<open>
  The invariant of the outer loop on a result \<open>xs\<close> with \<open>done\<close> processed entries: everything
  found is a descendant, and the children of the processed entries have been found.
\<close>

definition tree_inv :: "(int \<times> int) list \<Rightarrow> int \<Rightarrow> nat \<Rightarrow> int list \<Rightarrow> bool" where
  "tree_inv es root done xs \<longleftrightarrow>
     done \<le> length xs \<and> xs \<noteq> [] \<and> hd xs = root \<and> (\<forall>x \<in> set xs. descendant es root x) \<and>
     (\<forall>(n, p) \<in> set es. p \<in> set (take done xs) \<longrightarrow> n \<in> set xs)"

lemma tree_inv_pass:
  assumes "tree_inv es root done xs"
  shows "tree_inv es root (length xs) (fold (add_child done) es xs)"
proof -
  obtain ys where ys: "fold (add_child done) es xs = xs @ ys"
    using fold_add_child_prefix by blast
  have d: "done \<le> length xs" and s: "\<forall>x \<in> set xs. descendant es root x"
    using assms by (auto simp: tree_inv_def)
  have "\<forall>y \<in> set ys. descendant es root y \<and> descendant es root y"
    by (rule fold_add_child_sound [OF d _ _ ys]) (auto intro: descendant.child dest: in_set_dropD s [rule_format])
  moreover have "n \<in> set (xs @ ys)" if "(n, p) \<in> set es" "p \<in> set xs" for n p
  proof -
    have "p \<in> set (take done xs) \<or> p \<in> set (drop done xs)"
      using that(2) by (metis Un_iff append_take_drop_id set_append)
    then show ?thesis
      using assms that fold_add_child_complete [OF d that(1) _ ys] by (auto simp: tree_inv_def)
  qed
  ultimately show ?thesis using assms ys s by (auto simp: tree_inv_def)
qed

lemma tree_inv_complete:
  assumes "tree_inv es root (length xs) xs" and "descendant es root n"
  shows "n \<in> set xs"
  using assms(2,1) by (induction rule: descendant.induct) (auto simp: tree_inv_def intro: hd_in_set)

lemma tree_loop_result:
  assumes "tree_input nodes parents" and "pvec_wf r"
    and "tree_inv (edges nodes parents) root done (contents r)"
    and "tree_loop fuel nodes parents done (processx_vector_size r) r = Inr r'"
  shows "\<exists>rest. contents r' = root # rest \<and>
    set (contents r') = {n. descendant (edges nodes parents) root n}"
  using assms(2-)
proof (induction fuel arbitrary: r "done")
  case (Suc fuel)
  have len: "length (contents r) = processx_vector_size r" by (rule length_contents [OF Suc.prems(1)])
  show ?case
  proof (cases "done < processx_vector_size r")
    case True
    let ?r = "tree_pass nodes parents done 0 r"
    have "tree_inv (edges nodes parents) root (processx_vector_size r) (contents ?r)"
      using tree_inv_pass [OF Suc.prems(2)] tree_pass_items [OF assms(1) Suc.prems(1)] len by simp
    with Suc.IH [of ?r] Suc.prems(3) True tree_pass_items [OF assms(1) Suc.prems(1)]
    show ?thesis by (simp add: Let_def)
  next
    case False
    with Suc.prems(2) len have "done = length (contents r)" by (simp add: tree_inv_def)
    with Suc.prems(2) have inv: "tree_inv (edges nodes parents) root (length (contents r)) (contents r)"
      by simp
    have "set (contents r) = {n. descendant (edges nodes parents) root n}"
      using tree_inv_complete [OF inv] inv by (auto simp: tree_inv_def)
    moreover obtain rest where "contents r = root # rest"
      using inv by (cases "contents r") (auto simp: tree_inv_def)
    ultimately show ?thesis using Suc.prems(3) False by simp
  qed
qed simp

lemma tree_start:
  fixes root :: int
  assumes "pvec_wf r0"
  defines "r \<equiv> processx_vector_push_back (processx_vector_clear r0) root"
  shows "pvec_wf r" and "contents r = [root]" and "processx_vector_size r = 1"
proof -
  show "pvec_wf r" "contents r = [root]" using assms(1) by (simp_all add: r_def vector_push_back vector_clear)
  then show "processx_vector_size r = 1" using length_contents [of r] by simp
qed

subsection \<open>Termination\<close>

text \<open>
  When every process is deeper than its parent, all entries from \<open>done\<close> on have depth at least
  the number of passes made, so the window of new entries is empty once the depth of the table
  is passed.
\<close>

lemma tree_loop_terminates:
  assumes "tree_input nodes parents" and "pvec_wf r" and "done \<le> processx_vector_size r"
    and rank: "\<And>n p. (n, p) \<in> set (edges nodes parents) \<Longrightarrow> rank p < rank n \<and> rank n \<le> bound"
    and "\<forall>x \<in> set (drop done (contents r)). d \<le> rank x \<and> rank x \<le> bound" and "bound + 1 - d < fuel"
  shows "\<exists>r'. tree_loop fuel nodes parents done (processx_vector_size r) r = Inr r'"
  using assms(2,3,5,6)
proof (induction fuel arbitrary: r "done" d)
  case (Suc fuel)
  have len: "length (contents r) = processx_vector_size r" by (rule length_contents [OF Suc.prems(1)])
  show ?case
  proof (cases "done < processx_vector_size r")
    case True
    let ?r = "tree_pass nodes parents done 0 r"
    have r': "pvec_wf ?r" "contents ?r = fold (add_child done) (edges nodes parents) (contents r)"
      using tree_pass_items [OF assms(1) Suc.prems(1)] by simp_all
    obtain ys where ys: "fold (add_child done) (edges nodes parents) (contents r) = contents r @ ys"
      using fold_add_child_prefix by blast
    have "contents r ! done \<in> set (drop done (contents r))"
      using True len by (metis in_set_conv_nth length_drop nth_drop add_0_right less_imp_le zero_less_diff)
    then have d: "d \<le> bound" using Suc.prems(3) by (meson order_trans)
    have "\<forall>y \<in> set ys. (d + 1 \<le> rank y \<and> rank y \<le> bound) \<and> d \<le> rank y"
      by (rule fold_add_child_sound [OF _ _ _ ys]) (use Suc.prems(2,3) len in \<open>auto dest: rank\<close>)
    then have "\<forall>x \<in> set (drop (processx_vector_size r) (contents ?r)). d + 1 \<le> rank x \<and> rank x \<le> bound"
      using ys r'(2) len by simp
    moreover have "processx_vector_size r \<le> processx_vector_size ?r"
      using length_contents [OF r'(1)] r'(2) ys len by simp
    moreover have "bound + 1 - (d + 1) < fuel" using Suc.prems(4) d by simp
    ultimately have "\<exists>r'. tree_loop fuel nodes parents (processx_vector_size r) (processx_vector_size ?r) ?r = Inr r'"
      using Suc.IH [OF r'(1)] by blast
    with True show ?thesis by (simp add: Let_def)
  qed simp
qed simp

lemma tree_loop_diverges:
  assumes "tree_input nodes parents" and "pvec_wf r" and "done \<le> processx_vector_size r"
    and cycle: "\<And>p. p \<in> W \<Longrightarrow> \<exists>n \<in> W. (n, p) \<in> set (edges nodes parents)"
    and "\<exists>p \<in> W. p \<in> set (drop done (contents r))"
  shows "tree_loop fuel nodes parents done (processx_vector_size r) r = Inl Out_of_fuel"
  using assms(2,3,5)
proof (induction fuel arbitrary: r "done")
  case (Suc fuel)
  have len: "length (contents r) = processx_vector_size r" by (rule length_contents [OF Suc.prems(1)])
  let ?r = "tree_pass nodes parents done 0 r"
  have r': "pvec_wf ?r" "contents ?r = fold (add_child done) (edges nodes parents) (contents r)"
    using tree_pass_items [OF assms(1) Suc.prems(1)] by simp_all
  obtain ys where ys: "fold (add_child done) (edges nodes parents) (contents r) = contents r @ ys"
    using fold_add_child_prefix by blast
  obtain p n where p: "p \<in> set (drop done (contents r))" and n: "n \<in> W" "(n, p) \<in> set (edges nodes parents)"
    using Suc.prems(3) cycle by blast
  have "n \<in> set ys"
    using Suc.prems(2) len by (intro fold_add_child_complete [OF _ n(2) p ys]) simp
  then have "\<exists>p \<in> W. p \<in> set (drop (processx_vector_size r) (contents ?r))"
    using n(1) ys r'(2) len by auto
  moreover have "processx_vector_size r \<le> processx_vector_size ?r"
    using length_contents [OF r'(1)] r'(2) ys len by simp
  ultimately have "tree_loop fuel nodes parents (processx_vector_size r) (processx_vector_size ?r) ?r = Inl Out_of_fuel"
    using Suc.IH [OF r'(1)] by blast
  moreover have "done < processx_vector_size r"
    using p len by (metis drop_all empty_iff list.set(1) not_le)
  ultimately show ?case by (simp add: Let_def)
qed simp

section \<open>Properties\<close>

text \<open>C39: when the tree search returns, its result starts with the root and holds exactly the
  root and its descendants in the table of processes.\<close>

theorem rooted_tree_finds_descendants:
  assumes "tree_input nodes parents" and "pvec_wf result"
    and "processx_vector_rooted_tree fuel root nodes parents result = Inr r"
  shows "hd (contents r) = root \<and> set (contents r) = {n. descendant (edges nodes parents) root n}"
proof -
  note start = tree_start [OF assms(2), of root]
  have "tree_inv (edges nodes parents) root 0 [root]"
    by (simp add: tree_inv_def descendant.root)
  with tree_loop_result [OF assms(1) start(1)] start(2,3) assms(3) show ?thesis
    by (fastforce simp: processx_vector_rooted_tree_def)
qed

theorem rooted_tree_finds_descendants_witness:
  "\<exists>r. processx_vector_rooted_tree 5 1 \<lparr>cells = [2, 3], vend = 2\<rparr> \<lparr>cells = [1, 2], vend = 2\<rparr>
      \<lparr>cells = [0], vend = 0\<rparr> = Inr r \<and> hd (contents r) = 1 \<and>
    set (contents r) = {n. descendant [(2, 1), (3, 2)] 1 n}"
proof -
  let ?n = "\<lparr>cells = [2, 3], vend = 2\<rparr>" and ?p = "\<lparr>cells = [1, 2], vend = 2\<rparr>" and ?v = "\<lparr>cells = [0], vend = 0\<rparr>"
  have i: "tree_input ?n ?p" by (simp add: tree_input_def pvec_wf_def processx_vector_size_def)
  have w: "pvec_wf ?v" by (simp add: pvec_wf_def)
  have "processx_vector_rooted_tree 5 1 ?n ?p ?v = Inr \<lparr>cells = [1, 2, 3, 3], vend = 4\<rparr>"
    by code_simp
  then obtain r where r: "processx_vector_rooted_tree 5 1 ?n ?p ?v = Inr r" by blast
  have e: "edges ?n ?p = [(2, 1), (3, 2)]" by (simp add: edges_def contents_def)
  from rooted_tree_finds_descendants [OF i w r] r show ?thesis unfolding e by blast
qed

text \<open>C40: when every process of the table is deeper than its parent, the search returns after at
  most one pass per level: the depth of the table and three more iterations are enough.\<close>

theorem rooted_tree_terminates:
  assumes "tree_input nodes parents" and "pvec_wf result"
    and "\<forall>(n, p) \<in> set (edges nodes parents). rank p < rank n \<and> rank n \<le> bound"
    and "rank root \<le> bound" and "bound + 2 \<le> fuel"
  shows "\<exists>r. processx_vector_rooted_tree fuel root nodes parents result = Inr r"
proof -
  note start = tree_start [OF assms(2), of root]
  show ?thesis
    using tree_loop_terminates [OF assms(1) start(1), of 0 rank bound 0 fuel] start(2,3) assms(3-)
    by (auto simp: processx_vector_rooted_tree_def)
qed

theorem rooted_tree_terminates_witness:
  "\<exists>r. processx_vector_rooted_tree 5 1 \<lparr>cells = [2, 3], vend = 2\<rparr> \<lparr>cells = [1, 2], vend = 2\<rparr>
      \<lparr>cells = [0], vend = 0\<rparr> = Inr r"
proof -
  have "tree_input \<lparr>cells = [2, 3], vend = 2\<rparr> \<lparr>cells = [1, 2], vend = 2\<rparr>"
    by (simp add: tree_input_def pvec_wf_def processx_vector_size_def)
  then show ?thesis
    by (rule rooted_tree_terminates [where rank = nat and bound = 3])
      (simp_all add: pvec_wf_def edges_def contents_def)
qed

text \<open>When the root is its own ancestor, as a process recorded as its own parent is, the search
  never returns, whatever the fuel.\<close>

theorem rooted_tree_diverges_on_cycle:
  assumes "tree_input nodes parents" and "pvec_wf result" and "root \<in> W"
    and "\<forall>p \<in> W. \<exists>n \<in> W. (n, p) \<in> set (edges nodes parents)"
  shows "processx_vector_rooted_tree fuel root nodes parents result = Inl Out_of_fuel"
proof -
  note start = tree_start [OF assms(2), of root]
  show ?thesis
    using tree_loop_diverges [OF assms(1) start(1), of 0 W fuel] start(2,3) assms(3-)
    by (auto simp: processx_vector_rooted_tree_def)
qed

theorem rooted_tree_diverges_on_cycle_witness:
  "processx_vector_rooted_tree 100 0 \<lparr>cells = [0], vend = 1\<rparr> \<lparr>cells = [0], vend = 1\<rparr>
      \<lparr>cells = [0], vend = 0\<rparr> = Inl Out_of_fuel"
  by (rule rooted_tree_diverges_on_cycle [where W = "{0}"])
    (simp_all add: tree_input_def pvec_wf_def processx_vector_size_def edges_def contents_def)

text \<open>
  The result is not free of repetitions: a child found by its parent in the pass that appended
  the parent is found again in the next pass.
\<close>

lemma rooted_tree_repeats:
  "map_sum id contents (processx_vector_rooted_tree 5 1 \<lparr>cells = [2, 3], vend = 2\<rparr>
     \<lparr>cells = [1, 2], vend = 2\<rparr> \<lparr>cells = [0], vend = 0\<rparr>) = Inr [1, 2, 3, 3]"
  by code_simp

end
