(* ===== verification/Unix_Utils.thy ===== *)
theory Unix_Utils
  imports Prelude
begin

text \<open>
  The operating system as the Unix code sees it, a record of system calls over an abstract state
  \<open>'w\<close>, and the helpers of src/src/unix/utils.c: the descriptor flags, the interrupt-safe write
  to the standard output, the terminal and signal settings. The system calls are parameters of
  every definition that uses them; the hypotheses on them (\<open>descriptor_flags\<close>, \<open>appends\<close>) state
  what POSIX documents.
\<close>

unbundle bit_operations_syntax

section \<open>The operating system\<close>

datatype fcntl_flags = Status_flags | Descriptor_flags

text \<open>
  \<open>F_GETFL\<close>/\<open>F_SETFL\<close> read and write the status flags, \<open>F_GETFD\<close>/\<open>F_SETFD\<close> the descriptor
  flags. \<open>os_malloc n\<close> tells whether an allocation of \<open>n\<close> bytes succeeds; \<open>os_junk\<close> is the
  content of a word of memory \<open>malloc\<close> returned. \<open>os_getenv\<close> tells whether a variable is set.
\<close>

datatype disposition = SIG_DFL | SIG_IGN | Handler nat

record 'w os =
  os_malloc :: "nat \<Rightarrow> 'w \<Rightarrow> bool \<times> 'w"
  os_junk :: int
  os_getenv :: "string \<Rightarrow> 'w \<Rightarrow> bool"
  os_read :: "int \<Rightarrow> nat \<Rightarrow> ('w, byte list) syscall"
  os_write :: "int \<Rightarrow> byte list \<Rightarrow> ('w, nat) syscall"
  os_close :: "int \<Rightarrow> ('w, unit) syscall"
  os_open :: "string \<Rightarrow> 32 word \<Rightarrow> ('w, int) syscall"
  os_mkfifo :: "string \<Rightarrow> ('w, unit) syscall"
  os_socket :: "('w, int) syscall"
  os_bind :: "int \<Rightarrow> string \<Rightarrow> ('w, unit) syscall"
  os_listen :: "int \<Rightarrow> ('w, unit) syscall"
  os_connect :: "int \<Rightarrow> string \<Rightarrow> ('w, unit) syscall"
  os_accept :: "int \<Rightarrow> ('w, int) syscall"
  os_pipe :: "('w, int \<times> int) syscall"
  os_socketpair :: "bool \<Rightarrow> ('w, int \<times> int) syscall"
  os_dup :: "int \<Rightarrow> ('w, int) syscall"
  os_dup2 :: "int \<Rightarrow> int \<Rightarrow> ('w, int) syscall"
  os_fcntl_get :: "fcntl_flags \<Rightarrow> int \<Rightarrow> ('w, 32 word) syscall"
  os_fcntl_set :: "fcntl_flags \<Rightarrow> int \<Rightarrow> 32 word \<Rightarrow> ('w, unit) syscall"
  os_sigaction :: "string \<Rightarrow> disposition \<Rightarrow> 'w \<Rightarrow> disposition \<times> 'w"
  os_tcgetattr :: "int \<Rightarrow> ('w, 32 word) syscall"
  os_tcsetattr :: "int \<Rightarrow> 32 word \<Rightarrow> ('w, unit) syscall"

text \<open>The flag values of Linux.\<close>

definition O_RDONLY :: "32 word" where "O_RDONLY = 0"
definition O_WRONLY :: "32 word" where "O_WRONLY = 1"
definition O_RDWR :: "32 word" where "O_RDWR = 2"
definition O_CREAT :: "32 word" where "O_CREAT = 0x40"
definition O_TRUNC :: "32 word" where "O_TRUNC = 0x200"
definition O_APPEND :: "32 word" where "O_APPEND = 0x400"
definition O_NONBLOCK :: "32 word" where "O_NONBLOCK = 0x800"
definition FD_CLOEXEC :: "32 word" where "FD_CLOEXEC = 1"
definition ECHO :: "32 word" where "ECHO = 8"
definition STDOUT_FILENO :: int where "STDOUT_FILENO = 1"

section \<open>Descriptor flags\<close>

text \<open>
  The two functions return 0, here \<open>None\<close>, or minus an \<open>errno\<close>, here \<open>Some errno\<close>. The fuel
  bounds the calls of each interrupted \<open>fcntl\<close>.
\<close>

definition switch_flag ::
    "nat \<Rightarrow> 'w os \<Rightarrow> fcntl_flags \<Rightarrow> 32 word \<Rightarrow> int \<Rightarrow> bool \<Rightarrow> ('w, errno option) operation" where
  "switch_flag fuel os k b fd on w =
     (case retry fuel (os_fcntl_get os k fd) w of
        (Inl e, w) \<Rightarrow> (Inl e, w)
      | (Inr (Inl errno), w) \<Rightarrow> (Inr (Some errno), w)
      | (Inr (Inr r), w) \<Rightarrow>
          if (r AND b \<noteq> 0) = on then (Inr None, w)
          else (let flags = (if on then r OR b else r AND NOT b)
                in case retry fuel (os_fcntl_set os k fd flags) w of
                     (Inl e, w) \<Rightarrow> (Inl e, w)
                   | (Inr (Inl errno), w) \<Rightarrow> (Inr (Some errno), w)
                   | (Inr (Inr _), w) \<Rightarrow> (Inr None, w)))"

definition processx__nonblock_fcntl ::
    "nat \<Rightarrow> 'w os \<Rightarrow> int \<Rightarrow> bool \<Rightarrow> ('w, errno option) operation" where
  "processx__nonblock_fcntl fuel os = switch_flag fuel os Status_flags O_NONBLOCK"

definition processx__cloexec_fcntl ::
    "nat \<Rightarrow> 'w os \<Rightarrow> int \<Rightarrow> bool \<Rightarrow> ('w, errno option) operation" where
  "processx__cloexec_fcntl fuel os = switch_flag fuel os Descriptor_flags FD_CLOEXEC"

text \<open>
  POSIX: reading the flags of a descriptor changes nothing; a successful write replaces those of
  the descriptor and of no other; a failed write changes no flags. \<open>fl w (k, fd)\<close> is \<open>None\<close>
  when \<open>fd\<close> is not open, and then the calls fail.
\<close>

type_synonym flag_table = "fcntl_flags \<times> int \<rightharpoonup> 32 word"

definition descriptor_flags :: "'w os \<Rightarrow> ('w \<Rightarrow> flag_table) \<Rightarrow> bool" where
  "descriptor_flags os fl \<longleftrightarrow>
     (\<forall>k fd w r w'. os_fcntl_get os k fd w = (r, w') \<longrightarrow>
        fl w' = fl w \<and> (\<forall>x. r = Inr x \<longrightarrow> fl w (k, fd) = Some x)) \<and>
     (\<forall>k fd x w r w'. os_fcntl_set os k fd x w = (r, w') \<longrightarrow>
        (case r of Inl e \<Rightarrow> fl w' = fl w
         | Inr _ \<Rightarrow> fl w (k, fd) \<noteq> None \<and> fl w' = (fl w)((k, fd) \<mapsto> x)))"

lemma get_flags:
  assumes "descriptor_flags os fl" and "os_fcntl_get os k fd w = (r, w')"
  shows "fl w' = fl w" and "r = Inr x \<Longrightarrow> fl w (k, fd) = Some x"
  using assms(1) [unfolded descriptor_flags_def, THEN conjunct1, rule_format, OF assms(2)] by auto

lemma set_flags:
  assumes "descriptor_flags os fl" and "os_fcntl_set os k fd x w = (r, w')"
  shows "fl w' = (case r of Inl e \<Rightarrow> fl w | Inr _ \<Rightarrow> (fl w)((k, fd) \<mapsto> x))"
proof -
  have "case r of Inl e \<Rightarrow> fl w' = fl w
      | Inr _ \<Rightarrow> fl w (k, fd) \<noteq> None \<and> fl w' = (fl w)((k, fd) \<mapsto> x)"
    by (rule assms(1) [unfolded descriptor_flags_def, THEN conjunct2, rule_format, OF assms(2)])
  then show ?thesis by (cases r) auto
qed

lemma retry_get_flags:
  assumes "descriptor_flags os fl" and "retry fuel (os_fcntl_get os k fd) w = (r, w')"
  shows "fl w' = fl w \<and> (\<forall>x. r = Inr (Inr x) \<longrightarrow> fl w (k, fd) = Some x)"
  using assms(2)
proof (induction fuel arbitrary: w)
  case (Suc fuel)
  obtain q v where call: "os_fcntl_get os k fd w = (q, v)" by force
  show ?case
    using Suc.prems Suc.IH [of v] call get_flags(1) [OF assms(1) call] get_flags(2) [OF assms(1) call]
    by (cases "q = Inl EINTR") auto
qed auto

lemma retry_set_flags:
  assumes "descriptor_flags os fl" and "retry fuel (os_fcntl_set os k fd x) w = (r, w')"
  shows "fl w' = (case r of Inr (Inr _) \<Rightarrow> (fl w)((k, fd) \<mapsto> x) | _ \<Rightarrow> fl w)"
  using assms(2)
proof (induction fuel arbitrary: w)
  case (Suc fuel)
  obtain q v where call: "os_fcntl_set os k fd x w = (q, v)" by force
  show ?case
    using Suc.prems Suc.IH [of v] call set_flags [OF assms(1) call]
    by (cases "q = Inl EINTR") (auto split: sum.splits)
qed auto

text \<open>What the two functions do to the flags of all descriptors.\<close>

definition flag_updated :: "fcntl_flags \<Rightarrow> 32 word \<Rightarrow> int \<Rightarrow> bool \<Rightarrow> flag_table \<Rightarrow> flag_table \<Rightarrow> bool" where
  "flag_updated k b fd on t t' \<longleftrightarrow>
     (\<exists>x. t (k, fd) = Some x \<and> t' = t((k, fd) \<mapsto> (if on then x OR b else x AND NOT b)))"

lemma single_bit_set:
  fixes x b :: "32 word"
  assumes "b = push_bit n 1" and "n < 32"
  shows "(x AND b \<noteq> 0) = bit x n"
    and "bit x n \<Longrightarrow> x OR b = x" and "\<not> bit x n \<Longrightarrow> x AND NOT b = x"
proof -
  have b: "bit b m = (m = n)" if "m < 32" for m
    using assms that by (auto simp: bit_simps)
  show "(x AND b \<noteq> 0) = bit x n"
  proof
    show "bit x n" if "x AND b \<noteq> 0"
    proof (rule ccontr)
      assume "\<not> bit x n"
      then have "x AND b = 0"
        by (intro bit_word_eqI) (use b in \<open>auto simp: bit_and_iff\<close>)
      with that show False by simp
    qed
  next
    assume "bit x n"
    then have "bit (x AND b) n" using b assms(2) by (simp add: bit_and_iff)
    then show "x AND b \<noteq> 0" by auto
  qed
  show "x OR b = x" if "bit x n"
    by (rule bit_word_eqI) (use b that in \<open>auto simp: bit_or_iff\<close>)
  show "x AND NOT b = x" if "\<not> bit x n"
    by (rule bit_word_eqI) (use b that in \<open>auto simp: bit_and_iff bit_not_iff\<close>)
qed

lemma flag_values: "O_NONBLOCK = push_bit 11 1" "FD_CLOEXEC = push_bit 0 1"
  by (simp_all add: O_NONBLOCK_def FD_CLOEXEC_def push_bit_eq_mult)

lemma flag_updated_same:
  assumes "b = push_bit n 1" and "n < 32" and "t (k, fd) = Some x" and "(x AND b \<noteq> 0) = on"
  shows "flag_updated k b fd on t t"
proof -
  have "(if on then x OR b else x AND NOT b) = x"
    using single_bit_set [OF assms(1,2), of x] assms(4) by auto
  then show ?thesis using assms(3) by (auto simp: flag_updated_def fun_upd_idem)
qed

lemma switch_flag:
  assumes "descriptor_flags os fl" and "b = push_bit n 1" and "n < 32"
    and "switch_flag fuel os k b fd on w = (r, w')"
  shows "(r = Inr None \<longrightarrow> flag_updated k b fd on (fl w) (fl w')) \<and> (r \<noteq> Inr None \<longrightarrow> fl w' = fl w)"
proof -
  obtain q v where get: "retry fuel (os_fcntl_get os k fd) w = (q, v)" by force
  note g = retry_get_flags [OF assms(1) get]
  show ?thesis
  proof (cases "\<exists>x. q = Inr (Inr x)")
    case True
    then obtain x where x: "q = Inr (Inr x)" by blast
    show ?thesis
    proof (cases "(x AND b \<noteq> 0) = on")
      case True
      with assms(4) get x have "r = Inr None" "w' = v" by (auto simp: switch_flag_def)
      with g x flag_updated_same [OF assms(2,3) _ True] show ?thesis by simp
    next
      case False
      obtain u z where put: "retry fuel (os_fcntl_set os k fd (if on then x OR b else x AND NOT b)) v = (u, z)"
        by force
      from assms(4) get x put False
      have "w' = z" "r = (case u of Inl e \<Rightarrow> Inl e | Inr (Inl e) \<Rightarrow> Inr (Some e) | Inr (Inr _) \<Rightarrow> Inr None)"
        by (auto simp: switch_flag_def Let_def split: sum.splits)
      with retry_set_flags [OF assms(1) put] g x show ?thesis
        by (auto simp: flag_updated_def split: sum.splits)
    qed
  next
    case False
    with assms(4) get have "w' = v" "r \<noteq> Inr None"
      by (auto simp: switch_flag_def split: sum.splits)
    with g show ?thesis by simp
  qed
qed

lemma nonblock_fcntl:
  assumes "descriptor_flags os fl" and "processx__nonblock_fcntl fuel os fd on w = (r, w')"
  shows "(r = Inr None \<longrightarrow> flag_updated Status_flags O_NONBLOCK fd on (fl w) (fl w')) \<and>
    (r \<noteq> Inr None \<longrightarrow> fl w' = fl w)"
  using switch_flag [OF assms(1) flag_values(1)] assms(2) by (simp add: processx__nonblock_fcntl_def)

lemma cloexec_fcntl:
  assumes "descriptor_flags os fl" and "processx__cloexec_fcntl fuel os fd on w = (r, w')"
  shows "(r = Inr None \<longrightarrow> flag_updated Descriptor_flags FD_CLOEXEC fd on (fl w) (fl w')) \<and>
    (r \<noteq> Inr None \<longrightarrow> fl w' = fl w)"
  using switch_flag [OF assms(1) flag_values(2)] assms(2) by (simp add: processx__cloexec_fcntl_def)

section \<open>Writing raw bytes to the standard output\<close>

text \<open>
  Two nested loops: the inner one repeats an interrupted \<open>write\<close>, the outer one continues after
  the bytes written. \<open>write\<close> may accept fewer bytes than it was given.
\<close>

fun write_raw_loop :: "nat \<Rightarrow> nat \<Rightarrow> 'w os \<Rightarrow> byte list \<Rightarrow> ('w, unit) operation" where
  "write_raw_loop 0 fuel os data w = (Inl Out_of_fuel, w)"
| "write_raw_loop (Suc n) fuel os data w =
     (if length data = 0 then (Inr (), w)
      else (case retry fuel (os_write os STDOUT_FILENO data) w of
              (Inl e, w) \<Rightarrow> (Inl e, w)
            | (Inr (Inl errno), w) \<Rightarrow> (Inl (R_system_error ''Cannot write to stdout'' errno), w)
            | (Inr (Inr written), w) \<Rightarrow> write_raw_loop n fuel os (drop written data) w))"

definition processx_write_raw_stdout :: "nat \<Rightarrow> nat \<Rightarrow> 'w os \<Rightarrow> byte list \<Rightarrow> ('w, unit) operation" where
  "processx_write_raw_stdout n fuel os raw_data = write_raw_loop n fuel os raw_data"

text \<open>\<open>write\<close> appends a prefix of its argument to the file, or nothing when it fails.\<close>

definition appends :: "'w os \<Rightarrow> int \<Rightarrow> ('w \<Rightarrow> byte list) \<Rightarrow> bool" where
  "appends os fd out \<longleftrightarrow>
     (\<forall>bs w r w'. os_write os fd bs w = (r, w') \<longrightarrow>
        (case r of Inl _ \<Rightarrow> out w' = out w | Inr n \<Rightarrow> n \<le> length bs \<and> out w' = out w @ take n bs))"

lemma write_appends:
  assumes "appends os fd out" and "os_write os fd bs w = (r, w')"
  shows "case r of Inl _ \<Rightarrow> out w' = out w | Inr n \<Rightarrow> n \<le> length bs \<and> out w' = out w @ take n bs"
  by (rule assms(1) [unfolded appends_def, rule_format, OF assms(2)])

lemma retry_write_appends:
  assumes "appends os fd out" and "retry fuel (os_write os fd bs) w = (r, w')"
  shows "case r of Inr (Inr n) \<Rightarrow> n \<le> length bs \<and> out w' = out w @ take n bs | _ \<Rightarrow> out w' = out w"
  using assms(2)
proof (induction fuel arbitrary: w)
  case (Suc fuel)
  obtain q v where call: "os_write os fd bs w = (q, v)" by force
  show ?case
    using Suc.prems Suc.IH [of v] call write_appends [OF assms(1) call]
    by (cases "q = Inl EINTR") (auto split: sum.splits)
qed auto

lemma write_raw_loop_sound:
  assumes "appends os STDOUT_FILENO out" and "write_raw_loop n fuel os data w = (r, w')"
  shows "\<exists>k. out w' = out w @ take k data \<and> (r = Inr () \<longrightarrow> out w' = out w @ data)"
  using assms(2)
proof (induction n arbitrary: data w)
  case (Suc n)
  obtain q v where call: "retry fuel (os_write os STDOUT_FILENO data) w = (q, v)" by force
  note wr = retry_write_appends [OF assms(1) call]
  show ?case
  proof (cases "data = []")
    case False
    show ?thesis
    proof (cases "\<exists>m. q = Inr (Inr m)")
      case True
      then obtain m where m: "q = Inr (Inr m)" by blast
      with Suc.prems call False have "write_raw_loop n fuel os (drop m data) v = (r, w')" by simp
      from Suc.IH [OF this] obtain k where
        "out w' = out v @ take k (drop m data)" "r = Inr () \<longrightarrow> out w' = out v @ drop m data"
        by blast
      with wr m show ?thesis
        by (auto simp flip: take_add intro!: exI [where x = "m + k"])
    next
      case no: False
      with Suc.prems call False wr show ?thesis
        by (auto split: sum.splits intro!: exI [where x = 0])
    qed
  qed (use Suc.prems in auto)
qed (auto intro: exI [where x = 0])

lemma write_raw_loop_returns:
  assumes "\<And>bs w. bs \<noteq> [] \<Longrightarrow> \<exists>m v. retry fuel (os_write os STDOUT_FILENO bs) w = (Inr (Inr m), v) \<and> 0 < m"
    and "length data < n"
  shows "\<exists>w'. write_raw_loop n fuel os data w = (Inr (), w')"
  using assms(2)
proof (induction n arbitrary: data w)
  case (Suc n)
  show ?case
  proof (cases "data = []")
    case False
    then obtain m v where "retry fuel (os_write os STDOUT_FILENO data) w = (Inr (Inr m), v)" "0 < m"
      using assms(1) by blast
    moreover have "length (drop m data) < n" using Suc.prems \<open>0 < m\<close> False by (cases data) auto
    ultimately show ?thesis using Suc.IH False by simp
  qed simp
qed simp

section \<open>Terminal echo and crash signals\<close>

definition processx__echo_on :: "'w os \<Rightarrow> ('w, unit) operation" where
  "processx__echo_on os w =
     (case os_tcgetattr os STDOUT_FILENO w of
        (Inl _, w) \<Rightarrow> (Inl (R_error ''Cannot turn terminal echo on''), w)
      | (Inr c_lflag, w) \<Rightarrow>
          (case os_tcsetattr os STDOUT_FILENO (c_lflag OR ECHO) w of
             (Inl _, w) \<Rightarrow> (Inl (R_error ''Cannot turn terminal echo on''), w)
           | (Inr _, w) \<Rightarrow> (Inr (), w)))"

definition processx__echo_off :: "'w os \<Rightarrow> ('w, unit) operation" where
  "processx__echo_off os w =
     (case os_tcgetattr os STDOUT_FILENO w of
        (Inl _, w) \<Rightarrow> (Inl (R_error ''Cannot turn terminal echo off''), w)
      | (Inr c_lflag, w) \<Rightarrow>
          (case os_tcsetattr os STDOUT_FILENO (c_lflag AND NOT ECHO) w of
             (Inl _, w) \<Rightarrow> (Inl (R_error ''Cannot turn terminal echo off''), w)
           | (Inr _, w) \<Rightarrow> (Inr (), w)))"

definition processx_disable_crash_dialog :: "'w os \<Rightarrow> ('w, unit) operation" where
  "processx_disable_crash_dialog os w =
     (let w = snd (os_sigaction os ''SIGSEGV'' SIG_DFL w);
          w = snd (os_sigaction os ''SIGILL'' SIG_DFL w);
          w = snd (os_sigaction os ''SIGBUS'' SIG_DFL w)
      in (Inr (), w))"

section \<open>A system to instantiate the parameter with\<close>

text \<open>
  A system on which memory is always available and every other call fails: the witnesses of the
  development replace the calls they are about.
\<close>

definition refusing_os :: "'w os" where
  "refusing_os = \<lparr>
     os_malloc = \<lambda>n w. (True, w), os_junk = 0, os_getenv = \<lambda>v w. False,
     os_read = \<lambda>fd n w. (Inl EBADF, w), os_write = \<lambda>fd bs w. (Inl EBADF, w),
     os_close = \<lambda>fd w. (Inl EBADF, w), os_open = \<lambda>f fl w. (Inl EBADF, w),
     os_mkfifo = \<lambda>f w. (Inl EBADF, w), os_socket = \<lambda>w. (Inl EBADF, w),
     os_bind = \<lambda>fd f w. (Inl EBADF, w), os_listen = \<lambda>fd w. (Inl EBADF, w),
     os_connect = \<lambda>fd f w. (Inl EBADF, w), os_accept = \<lambda>fd w. (Inl EBADF, w),
     os_pipe = \<lambda>w. (Inl EBADF, w), os_socketpair = \<lambda>c w. (Inl EBADF, w),
     os_dup = \<lambda>fd w. (Inl EBADF, w), os_dup2 = \<lambda>fd1 fd2 w. (Inl EBADF, w),
     os_fcntl_get = \<lambda>k fd w. (Inl EBADF, w), os_fcntl_set = \<lambda>k fd x w. (Inl EBADF, w),
     os_sigaction = \<lambda>sig d w. (SIG_DFL, w),
     os_tcgetattr = \<lambda>fd w. (Inl EBADF, w), os_tcsetattr = \<lambda>fd x w. (Inl EBADF, w)\<rparr>"

section \<open>Properties\<close>

text \<open>A prefix of the bytes given to \<open>processx_write_raw_stdout\<close> is appended to the standard
  output, and all of them, in order, when it returns; it does return when every write accepts at
  least one byte, with one iteration per byte and one more.\<close>

theorem write_raw_stdout_all:
  assumes "appends os STDOUT_FILENO out" and "processx_write_raw_stdout n fuel os raw_data w = (r, w')"
  shows "(\<exists>k. out w' = out w @ take k raw_data \<and> (r = Inr () \<longrightarrow> out w' = out w @ raw_data)) \<and>
    ((\<forall>bs w. bs \<noteq> [] \<longrightarrow>
        (\<exists>m v. retry fuel (os_write os STDOUT_FILENO bs) w = (Inr (Inr m), v) \<and> 0 < m)) \<and>
      length raw_data < n \<longrightarrow> r = Inr ())"
  using write_raw_loop_sound [OF assms(1)] write_raw_loop_returns [of fuel os raw_data n w] assms(2)
  by (auto simp: processx_write_raw_stdout_def)

theorem write_raw_stdout_all_witness:
  "snd (processx_write_raw_stdout 4 1
     (refusing_os\<lparr>os_write := \<lambda>fd bs w. (Inr (min 2 (length bs)), w @ take 2 bs)\<rparr>) [1, 2, 3] [])
   = [1, 2, 3]"
proof -
  let ?os = "refusing_os\<lparr>os_write := \<lambda>fd bs w. (Inr (min 2 (length bs)), w @ take 2 bs)\<rparr> :: byte list os"
  have a: "appends ?os STDOUT_FILENO id" by (auto simp: appends_def min_def)
  obtain r w' where run: "processx_write_raw_stdout 4 1 ?os [1, 2, 3] [] = (r, w')" by force
  have "retry 1 (os_write ?os STDOUT_FILENO bs) w = (Inr (Inr (min 2 (length bs))), w @ take 2 bs)"
    for bs w by simp
  then have "r = Inr ()"
    using write_raw_stdout_all [OF a run] by auto
  with write_raw_stdout_all [OF a run] run show ?thesis by simp
qed

text \<open>\<open>processx__nonblock_fcntl\<close> and \<open>processx__cloexec_fcntl\<close> change one flag of one descriptor: when
  they return 0 the flag has the requested value and every other flag of every descriptor is as
  it was; when they return an error, or are still being interrupted, no flag was changed.\<close>

theorem fcntl_changes_one_flag:
  assumes "descriptor_flags os fl" and "processx__nonblock_fcntl fuel os fd on w = (r, w1)"
    and "processx__cloexec_fcntl fuel os fd' on' w = (r', w2)"
  shows "(if r = Inr None then flag_updated Status_flags O_NONBLOCK fd on (fl w) (fl w1) else fl w1 = fl w) \<and>
    (if r' = Inr None then flag_updated Descriptor_flags FD_CLOEXEC fd' on' (fl w) (fl w2) else fl w2 = fl w)"
  using nonblock_fcntl [OF assms(1,2)] cloexec_fcntl [OF assms(1,3)] by simp

definition flag_table_os :: "flag_table os" where
  "flag_table_os = refusing_os\<lparr>
     os_fcntl_get := \<lambda>k fd w. (case w (k, fd) of None \<Rightarrow> (Inl EBADF, w) | Some x \<Rightarrow> (Inr x, w)),
     os_fcntl_set := \<lambda>k fd x w. (case w (k, fd) of None \<Rightarrow> (Inl EBADF, w) | Some _ \<Rightarrow> (Inr (), w((k, fd) \<mapsto> x)))\<rparr>"

lemma flag_table_os: "descriptor_flags flag_table_os id"
  by (auto simp: descriptor_flags_def flag_table_os_def split: option.splits)

theorem fcntl_changes_one_flag_witness:
  "processx__nonblock_fcntl 1 flag_table_os 4 True [(Status_flags, 4) \<mapsto> 2] =
     (Inr None, [(Status_flags, 4) \<mapsto> 2 OR O_NONBLOCK])"
proof -
  let ?t = "[(Status_flags, 4) \<mapsto> 2 :: 32 word] :: flag_table"
  have o: "(2 :: 32 word) AND O_NONBLOCK = 0" by (simp add: O_NONBLOCK_def)
  obtain r w1 where 1: "processx__nonblock_fcntl 1 flag_table_os 4 True ?t = (r, w1)" by force
  obtain r' w2 where 2: "processx__cloexec_fcntl 1 flag_table_os 4 True ?t = (r', w2)" by force
  have "r = Inr None"
    using 1 o by (auto simp: processx__nonblock_fcntl_def switch_flag_def flag_table_os_def)
  with fcntl_changes_one_flag [OF flag_table_os 1 2] 1 show ?thesis
    by (auto simp: flag_updated_def)
qed

end
