(* ===== verification/Connection.thy ===== *)
theory Connection
  imports Unix_Utils
begin

text \<open>
  The connection object of src/src/processx-connection.c and .h on Unix: its fields, how it is
  created around a descriptor (pipes, files, fifos, sockets), closed and destroyed, and the
  operations that only look at it. Reading is in the theory \<open>Conn_Read\<close>, polling in
  \<open>Conn_Poll\<close>.
\<close>

section \<open>Data\<close>

datatype processx_file_type =
    PROCESSX_FILE_TYPE_FILE | PROCESSX_FILE_TYPE_ASYNCFILE | PROCESSX_FILE_TYPE_PIPE
  | PROCESSX_FILE_TYPE_ASYNCPIPE | PROCESSX_FILE_TYPE_SOCKET

definition PROCESSX_SOCKET_LISTEN :: int where "PROCESSX_SOCKET_LISTEN = 1"
definition PROCESSX_SOCKET_LISTEN_PIPE_READY :: int where "PROCESSX_SOCKET_LISTEN_PIPE_READY = 2"
definition PROCESSX_SOCKET_CONNECTED_SERVER :: int where "PROCESSX_SOCKET_CONNECTED_SERVER = 3"
definition PROCESSX_SOCKET_CONNECTED_CLIENT :: int where "PROCESSX_SOCKET_CONNECTED_CLIENT = 4"

lemmas socket_states = PROCESSX_SOCKET_LISTEN_def PROCESSX_SOCKET_LISTEN_PIPE_READY_def
  PROCESSX_SOCKET_CONNECTED_SERVER_def PROCESSX_SOCKET_CONNECTED_CLIENT_def

text \<open>What a pointer field points to: nothing, memory it owns, or memory that was freed.\<close>

datatype pointer = Null | Live | Dangling

text \<open>
  \<open>buffer\<close> and \<open>utf8\<close> hold the first \<open>buffer_data_size\<close> and \<open>utf8_data_size\<close> bytes of the two
  buffers, so the two sizes are the lengths of the lists. \<open>'cd\<close> is the type of conversion
  descriptors of \<open>Riconv\<close>.
\<close>

record 'cd conn =
  ctype :: processx_file_type
  is_closed' :: bool
  is_eof' :: bool
  is_eof_raw' :: bool
  close_on_destroy :: bool
  encoding :: "string option"
  iconv_ctx :: "'cd option"
  raw_mode :: bool
  handle :: int
  buffer_ptr :: pointer
  buffer_allocated_size :: nat
  buffer :: "byte list"
  utf8_ptr :: pointer
  utf8_allocated_size :: nat
  utf8 :: "byte list"
  poll_idx :: int
  filename :: "string option"
  sock_state :: int

text \<open>\<open>sizeof(processx_connection_t)\<close> on a 64 bit system.\<close>

definition sizeof_connection :: nat where "sizeof_connection = 120"

section \<open>Creating and destroying\<close>

text \<open>
  \<open>strdup\<close> allocates the string and its terminator. The fields \<open>poll_idx\<close> and \<open>sock_state\<close> are not
  initialised.
\<close>

definition strdup :: "'w os \<Rightarrow> string \<Rightarrow> 'w \<Rightarrow> string option \<times> 'w" where
  "strdup os str w =
     (case os_malloc os (length str + 1) w of (ok, w) \<Rightarrow> (if ok then Some str else None, w))"

definition processx_c_connection_create ::
    "'w os \<Rightarrow> int \<Rightarrow> processx_file_type \<Rightarrow> string option \<Rightarrow> string option \<Rightarrow> ('w, 'cd conn) operation" where
  "processx_c_connection_create os os_handle type enc fname w =
     (case os_malloc os sizeof_connection w of (ok, w) \<Rightarrow>
        if \<not> ok then (Inl (R_error ''cannot create connection, out of memory''), w)
        else
          (let con = \<lparr>ctype = type, is_closed' = False, is_eof' = False, is_eof_raw' = False,
                 close_on_destroy = True, encoding = None, iconv_ctx = None, raw_mode = False,
                 handle = os_handle, buffer_ptr = Null, buffer_allocated_size = 0, buffer = [],
                 utf8_ptr = Null, utf8_allocated_size = 0, utf8 = [], poll_idx = os_junk os,
                 filename = None, sock_state = os_junk os\<rparr>;
               named = (\<lambda>con w. case fname of
                   None \<Rightarrow> (Inr con, w)
                 | Some f \<Rightarrow> (case strdup os f w of
                       (None, w) \<Rightarrow> (Inl (R_error ''cannot create connection, out of memory''), w)
                     | (Some f, w) \<Rightarrow> (Inr (con\<lparr>filename := Some f\<rparr>), w)))
           in if enc = None \<or> enc = Some [] then named con w
              else if enc = Some ''binary'' then named (con\<lparr>raw_mode := True\<rparr>) w
              else (case strdup os (the enc) w of
                      (None, w) \<Rightarrow> (Inl (R_error ''cannot create connection, out of memory''), w)
                    | (Some e, w) \<Rightarrow> named (con\<lparr>encoding := Some e\<rparr>) w)))"

definition processx_c_connection_close :: "'w os \<Rightarrow> 'cd conn \<Rightarrow> 'w \<Rightarrow> 'cd conn \<times> 'w" where
  "processx_c_connection_close os ccon w =
     (let w = (if 0 \<le> handle ccon then snd (os_close os (handle ccon) w) else w)
      in (ccon\<lparr>handle := -1, is_closed' := True\<rparr>, w))"

text \<open>
  The connection returned is the content of the object right before it is freed;
  \<open>iconv_close\<close> is \<open>Riconv_close\<close>.
\<close>

definition processx_c_connection_destroy ::
    "'w os \<Rightarrow> ('cd \<Rightarrow> 'w \<Rightarrow> 'w) \<Rightarrow> 'cd conn \<Rightarrow> 'w \<Rightarrow> 'cd conn \<times> 'w" where
  "processx_c_connection_destroy os iconv_close ccon w =
     (let (ccon, w) = (if close_on_destroy ccon then processx_c_connection_close os ccon w else (ccon, w));
          ccon = ccon\<lparr>is_closed' := True\<rparr>;
          w = (case iconv_ctx ccon of None \<Rightarrow> w | Some cd \<Rightarrow> iconv_close cd w);
          ccon = ccon\<lparr>iconv_ctx := None\<rparr>;
          ccon = (if buffer_ptr ccon \<noteq> Null then ccon\<lparr>buffer_ptr := Null\<rparr> else ccon);
          ccon = (if utf8_ptr ccon \<noteq> Null then ccon\<lparr>utf8_ptr := Null\<rparr> else ccon)
      in (ccon\<lparr>encoding := None, filename := None\<rparr>, w))"

section \<open>Connections of the R interface\<close>

text \<open>
  An external pointer is \<open>None\<close> when it was cleared. \<open>PROCESSX_CHECK_VALID_CONN\<close> is the test
  every reading and writing operation starts with.
\<close>

definition check_valid_conn :: "'cd conn option \<Rightarrow> r_error option" where
  "check_valid_conn x =
     (case x of None \<Rightarrow> Some (R_error ''Invalid connection object'')
      | Some c \<Rightarrow> if handle c < 0
          then Some (R_error ''Invalid (uninitialized or closed?) connection object'') else None)"

definition processx_connection_create :: "'w os \<Rightarrow> int option \<Rightarrow> string \<Rightarrow> ('w, 'cd conn) operation" where
  "processx_connection_create os h enc w =
     (case h of None \<Rightarrow> (Inl (R_error ''Cannot create connection, invalid handle''), w)
      | Some h \<Rightarrow> processx_c_connection_create os h PROCESSX_FILE_TYPE_ASYNCPIPE (Some enc) None w)"

definition processx_connection_create_fd :: "'w os \<Rightarrow> int \<Rightarrow> string \<Rightarrow> bool \<Rightarrow> ('w, 'cd conn) operation" where
  "processx_connection_create_fd os fd enc close =
     andthen (processx_c_connection_create os fd PROCESSX_FILE_TYPE_ASYNCPIPE (Some enc) None)
       (\<lambda>con. ret (if close then con else con\<lparr>close_on_destroy := False\<rparr>))"

text \<open>A system call whose failure is an R error.\<close>

definition sys :: "string \<Rightarrow> ('w, 'a) syscall \<Rightarrow> ('w, 'a) operation" where
  "sys msg call w =
     (case call w of (Inl errno, w) \<Rightarrow> (Inl (R_system_error msg errno), w) | (Inr x, w) \<Rightarrow> (Inr x, w))"

definition processx_connection_create_file :: "'w os \<Rightarrow> string \<Rightarrow> bool \<Rightarrow> bool \<Rightarrow> ('w, 'cd conn) operation" where
  "processx_connection_create_file os fname rd wr =
     (let flags = 0;
          flags = (if rd \<and> \<not> wr then flags OR O_RDONLY else flags);
          flags = (if \<not> rd \<and> wr then flags OR (O_WRONLY OR O_CREAT OR O_TRUNC) else flags);
          flags = (if rd \<and> wr then flags OR O_RDWR else flags)
      in andthen (sys ''Cannot open file'' (os_open os fname flags))
           (\<lambda>fd. processx_c_connection_create os fd PROCESSX_FILE_TYPE_FILE (Some []) (Some fname)))"

definition fifo_flags :: "bool \<Rightarrow> bool \<Rightarrow> bool \<Rightarrow> 32 word" where
  "fifo_flags rd wr nonblocking =
     (let flags = 0;
          flags = (if rd \<and> \<not> wr then flags OR O_RDONLY else flags);
          flags = (if \<not> rd \<and> wr then flags OR (if nonblocking then O_RDWR else O_WRONLY) else flags)
      in if nonblocking then flags OR O_NONBLOCK else flags)"

definition pipe_type :: "bool \<Rightarrow> processx_file_type" where
  "pipe_type nonblocking = (if nonblocking then PROCESSX_FILE_TYPE_ASYNCPIPE else PROCESSX_FILE_TYPE_PIPE)"

definition processx_connection_connect_fifo ::
    "nat \<Rightarrow> 'w os \<Rightarrow> string \<Rightarrow> bool \<Rightarrow> bool \<Rightarrow> string \<Rightarrow> bool \<Rightarrow> ('w, 'cd conn) operation" where
  "processx_connection_connect_fifo fuel os fname rd wr enc nonblocking =
     andthen (sys ''Cannot open fifo'' (os_open os fname (fifo_flags rd wr nonblocking))) (\<lambda>fd.
     andthen (processx__nonblock_fcntl fuel os fd nonblocking) (\<lambda>_.
       processx_c_connection_create os fd (pipe_type nonblocking) (Some enc) (Some fname)))"

definition processx_connection_create_fifo ::
    "nat \<Rightarrow> 'w os \<Rightarrow> bool \<Rightarrow> bool \<Rightarrow> string \<Rightarrow> string \<Rightarrow> bool \<Rightarrow> ('w, 'cd conn) operation" where
  "processx_connection_create_fifo fuel os rd wr fname enc nonblocking =
     andthen (sys ''Cannot create fifo at'' (os_mkfifo os fname)) (\<lambda>_.
     andthen (sys ''Cannot open fifo'' (os_open os fname (fifo_flags rd wr nonblocking))) (\<lambda>fd.
     andthen (processx__nonblock_fcntl fuel os fd nonblocking) (\<lambda>_.
       processx_c_connection_create os fd (pipe_type nonblocking) (Some enc) (Some fname))))"

text \<open>
  Unix domain sockets. \<open>sun_path\<close> has 108 bytes; \<open>strncpy\<close> copies at most 107 of them, and the
  server refuses a longer path before that.
\<close>

definition sun_path_size :: nat where "sun_path_size = 108"

definition sun_path :: "string \<Rightarrow> string" where
  "sun_path fname = take (sun_path_size - 1) fname"

definition processx_connection_create_socket ::
    "nat \<Rightarrow> 'w os \<Rightarrow> string \<Rightarrow> string \<Rightarrow> ('w, 'cd conn) operation" where
  "processx_connection_create_socket fuel os fname enc =
     (if sun_path_size - 1 < length fname then throw (R_error ''Server socket path too long'')
      else
        andthen (sys ''Cannot create socket'' (os_socket os)) (\<lambda>fd.
        andthen (sys ''Cannot bind to socket'' (os_bind os fd (sun_path fname))) (\<lambda>_.
        andthen (sys ''Cannot listen on socket'' (os_listen os fd)) (\<lambda>_.
        andthen (processx__nonblock_fcntl fuel os fd True) (\<lambda>_.
        andthen (processx_c_connection_create os fd PROCESSX_FILE_TYPE_SOCKET (Some enc) (Some fname)) (\<lambda>con.
          ret (con\<lparr>sock_state := PROCESSX_SOCKET_LISTEN\<rparr>)))))))"

definition processx_connection_connect_socket ::
    "nat \<Rightarrow> 'w os \<Rightarrow> string \<Rightarrow> string \<Rightarrow> ('w, 'cd conn) operation" where
  "processx_connection_connect_socket fuel os fname enc =
     andthen (sys ''Cannot create socket'' (os_socket os)) (\<lambda>fd.
     andthen (processx__nonblock_fcntl fuel os fd True) (\<lambda>_.
     andthen (sys ''Cannot connect to socket'' (os_connect os fd (sun_path fname))) (\<lambda>_.
     andthen (processx_c_connection_create os fd PROCESSX_FILE_TYPE_SOCKET (Some enc) (Some fname)) (\<lambda>con.
       ret (con\<lparr>sock_state := PROCESSX_SOCKET_CONNECTED_CLIENT\<rparr>)))))"

text \<open>
  The operations on one connection change the connection and the system; the connection keeps
  what was changed before an error.
\<close>

definition processx_connection_accept_socket ::
    "nat \<Rightarrow> 'w os \<Rightarrow> ('cd conn \<times> 'w, unit) operation" where
  "processx_connection_accept_socket fuel os = (\<lambda>(ccon, w).
     if ctype ccon \<noteq> PROCESSX_FILE_TYPE_SOCKET then (Inl (R_error ''Not a socket connection''), ccon, w)
     else if sock_state ccon \<noteq> PROCESSX_SOCKET_LISTEN \<and> sock_state ccon \<noteq> PROCESSX_SOCKET_LISTEN_PIPE_READY
     then (Inl (R_error ''Socket is not listening''), ccon, w)
     else (case os_accept os (handle ccon) w of
         (Inl errno, w) \<Rightarrow> (Inl (R_system_error ''Could not accept socket connection'' errno), ccon, w)
       | (Inr newfd, w) \<Rightarrow>
           (case processx__nonblock_fcntl fuel os newfd True w of
              (Inl e, w) \<Rightarrow> (Inl e, ccon, w)
            | (Inr _, w) \<Rightarrow>
                (let w = snd (os_close os (handle ccon) w)
                 in (Inr (), ccon\<lparr>handle := newfd, sock_state := PROCESSX_SOCKET_CONNECTED_SERVER\<rparr>, w)))))"

definition processx_connection_socket_state :: "'cd conn \<Rightarrow> r_error + int" where
  "processx_connection_socket_state ccon =
     (if ctype ccon \<noteq> PROCESSX_FILE_TYPE_SOCKET then Inl (R_error ''Not a socket connection'')
      else Inr (sock_state ccon))"

text \<open>
  Socket pairs are created with \<open>SOCK_CLOEXEC\<close> in one call where the kernel has it; \<open>no_cloexec\<close>
  is the static variable that remembers a kernel that has not.
\<close>

definition socketpair_without_cloexec :: "nat \<Rightarrow> 'w os \<Rightarrow> string option \<Rightarrow> ('w, int \<times> int) operation" where
  "socketpair_without_cloexec fuel os exe =
     andthen (sys (case exe of
          Some _ \<Rightarrow> ''cannot make processx socketpair while running''
        | None \<Rightarrow> ''cannot make processx socketpair'') (os_socketpair os False)) (\<lambda>(p0, p1).
     andthen (processx__cloexec_fcntl fuel os p0 True) (\<lambda>_.
     andthen (processx__cloexec_fcntl fuel os p1 True) (\<lambda>_. ret (p0, p1))))"

definition processx__make_socketpair ::
    "nat \<Rightarrow> 'w os \<Rightarrow> string option \<Rightarrow> (bool \<times> 'w, int \<times> int) operation" where
  "processx__make_socketpair fuel os exe = (\<lambda>(no_cloexec, w).
     if no_cloexec
     then (case socketpair_without_cloexec fuel os exe w of (r, w) \<Rightarrow> (r, no_cloexec, w))
     else (case os_socketpair os True w of
         (Inr p, w) \<Rightarrow> (Inr p, no_cloexec, w)
       | (Inl errno, w) \<Rightarrow>
           if errno \<noteq> EINVAL then (Inl (R_system_error ''processx socketpair'' errno), no_cloexec, w)
           else (case socketpair_without_cloexec fuel os exe w of (r, w) \<Rightarrow> (r, True, w))))"

text \<open>Lifting an operation on the system past the static variable.\<close>

definition on_system :: "('w, 'a) operation \<Rightarrow> ('c \<times> 'w, 'a) operation" where
  "on_system f = (\<lambda>(c, w). case f w of (r, w) \<Rightarrow> (r, c, w))"

definition processx_connection_create_pipepair ::
    "nat \<Rightarrow> 'w os \<Rightarrow> string \<Rightarrow> bool \<Rightarrow> bool \<Rightarrow> (bool \<times> 'w, 'cd conn \<times> 'cd conn) operation" where
  "processx_connection_create_pipepair fuel os enc nb0 nb1 =
     andthen (processx__make_socketpair fuel os None) (\<lambda>(h1, h2).
     andthen (on_system (processx__nonblock_fcntl fuel os h1 nb0)) (\<lambda>_.
     andthen (on_system (processx__nonblock_fcntl fuel os h2 nb1)) (\<lambda>_.
     andthen (on_system (processx_c_connection_create os h1 (pipe_type nb0) (Some enc) None)) (\<lambda>con1.
     andthen (on_system (processx_c_connection_create os h2 (pipe_type nb1) (Some enc) None)) (\<lambda>con2.
       ret (con1, con2))))))"

definition processx_connection_create_proc_pipepair ::
    "nat \<Rightarrow> 'w os \<Rightarrow> string \<Rightarrow> ('w, 'cd conn \<times> 'cd conn) operation" where
  "processx_connection_create_proc_pipepair fuel os enc =
     andthen (sys ''Cannot create pipe'' (os_pipe os)) (\<lambda>(fd0, fd1).
     andthen (processx__cloexec_fcntl fuel os fd0 True) (\<lambda>_.
     andthen (processx__cloexec_fcntl fuel os fd1 True) (\<lambda>_.
     andthen (processx_c_connection_create os fd1 PROCESSX_FILE_TYPE_PIPE (Some enc) None) (\<lambda>con1.
     andthen (processx_c_connection_create os fd0 PROCESSX_FILE_TYPE_PIPE (Some enc) None) (\<lambda>con2.
       ret (con1, con2))))))"

text \<open>Rerouting a standard stream; unless \<open>discard\<close>, the old one is returned as a connection.\<close>

definition processx__connection_set_std ::
    "'w os \<Rightarrow> 'cd conn \<Rightarrow> int \<Rightarrow> bool \<Rightarrow> ('w, 'cd conn option) operation" where
  "processx__connection_set_std os ccon which discard =
     andthen
       (if discard then ret None
        else andthen (sys ''Cannot save for rerouting'' (os_dup os which)) (\<lambda>fd.
             andthen (processx_c_connection_create os fd PROCESSX_FILE_TYPE_PIPE (Some []) None) (\<lambda>con.
               ret (Some con))))
       (\<lambda>result. andthen (sys ''Cannot reroute'' (os_dup2 os (handle ccon) which)) (\<lambda>_. ret result))"

definition processx_connection_get_fileno :: "'cd conn \<Rightarrow> int" where
  "processx_connection_get_fileno ccon = handle ccon"

definition processx_c_connection_fileno :: "'cd conn \<Rightarrow> int" where
  "processx_c_connection_fileno con = handle con"

definition processx_c_connection_is_closed :: "'cd conn \<Rightarrow> bool" where
  "processx_c_connection_is_closed ccon = is_closed' ccon"

definition processx_c_connection_is_eof :: "'cd conn \<Rightarrow> bool" where
  "processx_c_connection_is_eof ccon = is_eof' ccon"

definition processx_connection_file_name :: "'cd conn option \<Rightarrow> r_error + string option" where
  "processx_connection_file_name ccon =
     (case ccon of None \<Rightarrow> Inl (R_error ''Invalid connection object'') | Some c \<Rightarrow> Inr (filename c))"

definition processx_connection_is_eof :: "'cd conn option \<Rightarrow> r_error + bool" where
  "processx_connection_is_eof ccon =
     (case ccon of None \<Rightarrow> Inl (R_error ''Invalid connection object'') | Some c \<Rightarrow> Inr (is_eof' c))"

text \<open>Descriptors from 3 on (from 0 when the environment says so) get the close-on-exec flag.\<close>

fun disable_inheritance_from :: "nat \<Rightarrow> nat \<Rightarrow> 'w os \<Rightarrow> int \<Rightarrow> ('w, unit) operation" where
  "disable_inheritance_from 0 fuel os fd w = (Inl Out_of_fuel, w)"
| "disable_inheritance_from (Suc n) fuel os fd w =
     (case processx__cloexec_fcntl fuel os fd True w of
        (Inl e, w) \<Rightarrow> (Inl e, w)
      | (Inr r, w) \<Rightarrow>
          if r \<noteq> None \<and> fd > 15 then (Inr (), w) else disable_inheritance_from n fuel os (fd + 1) w)"

definition processx_connection_disable_inheritance :: "nat \<Rightarrow> nat \<Rightarrow> 'w os \<Rightarrow> ('w, unit) operation" where
  "processx_connection_disable_inheritance n fuel os w =
     disable_inheritance_from n fuel os
       (if os_getenv os ''PROCESSX_CLOEXEC_STDIO'' w then 0 else 3) w"

definition processx_is_valid_fd :: "'w os \<Rightarrow> int \<Rightarrow> 'w \<Rightarrow> bool \<times> 'w" where
  "processx_is_valid_fd os fd w =
     (case os_fcntl_get os Descriptor_flags fd w of
        (Inr _, w) \<Rightarrow> (True, w) | (Inl errno, w) \<Rightarrow> (errno \<noteq> EBADF, w))"

section \<open>Writing\<close>

text \<open>
  \<open>SIGPIPE\<close> is ignored during the write. The value is the number of bytes accepted, 0 when the
  descriptor is full.
\<close>

definition processx_c_connection_write_bytes ::
    "'w os \<Rightarrow> 'cd conn option \<Rightarrow> byte list \<Rightarrow> ('w, nat) operation" where
  "processx_c_connection_write_bytes os ccon bytes w =
     (case check_valid_conn ccon of
        Some e \<Rightarrow> (Inl e, w)
      | None \<Rightarrow>
          (let c = the ccon
           in if ctype c = PROCESSX_FILE_TYPE_SOCKET \<and>
                 (sock_state c = PROCESSX_SOCKET_LISTEN \<or> sock_state c = PROCESSX_SOCKET_LISTEN_PIPE_READY)
              then (Inl (R_error ''Cannot write to an un-accepted socket connection''), w)
              else (case os_sigaction os ''SIGPIPE'' SIG_IGN w of (old_handler, w) \<Rightarrow>
                    case os_write os (handle c) bytes w of (r, w) \<Rightarrow>
                    case os_sigaction os ''SIGPIPE'' old_handler w of (_, w) \<Rightarrow>
                    case r of
                      Inl err \<Rightarrow> if err = EAGAIN \<or> err = EWOULDBLOCK then (Inr 0, w)
                        else (Inl (R_system_error ''Cannot write connection'' err), w)
                    | Inr n \<Rightarrow> (Inr n, w))))"

definition processx_connection_write_bytes ::
    "'w os \<Rightarrow> 'cd conn option \<Rightarrow> byte list \<Rightarrow> ('w, byte list) operation" where
  "processx_connection_write_bytes os ccon bytes =
     andthen (processx_c_connection_write_bytes os ccon bytes) (\<lambda>written. ret (drop written bytes))"

section \<open>Lemmas\<close>

lemma close_effect:
  "processx_c_connection_close os c w =
    (c\<lparr>handle := -1, is_closed' := True\<rparr>, if 0 \<le> handle c then snd (os_close os (handle c) w) else w)"
  by (simp add: processx_c_connection_close_def)

lemma close_twice: "handle c = -1 \<Longrightarrow> is_closed' c \<Longrightarrow> processx_c_connection_close os c w = (c, w)"
  by (simp add: close_effect)

lemma destroy_system:
  "snd (processx_c_connection_destroy os ic c w) =
    (let w = (if close_on_destroy c \<and> 0 \<le> handle c then snd (os_close os (handle c) w) else w)
     in case iconv_ctx c of None \<Rightarrow> w | Some cd \<Rightarrow> ic cd w)"
  by (simp add: processx_c_connection_destroy_def close_effect Let_def split: option.splits)

lemma destroy_releases:
  "fst (processx_c_connection_destroy os ic c w) =
    c\<lparr>handle := (if close_on_destroy c then -1 else handle c), is_closed' := True, iconv_ctx := None,
      buffer_ptr := Null, utf8_ptr := Null, encoding := None, filename := None\<rparr>"
  by (auto simp: processx_c_connection_destroy_def close_effect Let_def)

lemma disable_inheritance_loop:
  assumes fl: "descriptor_flags os fl"
    and total: "\<And>fd w r w'. processx__cloexec_fcntl fuel os fd True w = (r, w') \<Longrightarrow>
      fl w (Descriptor_flags, fd) \<noteq> None \<Longrightarrow> r = Inr None"
    and "disable_inheritance_from n fuel os fd w = (Inr (), w')"
  shows "\<exists>last. fd \<le> last \<and> 15 < last \<and> fl w (Descriptor_flags, last) = None \<and>
    (\<forall>k d. fl w' (k, d) = (if k = Descriptor_flags \<and> fd \<le> d \<and> d < last
       then map_option (\<lambda>x. x OR FD_CLOEXEC) (fl w (k, d)) else fl w (k, d)))"
  using assms(3)
proof (induction n arbitrary: fd w)
  case (Suc n)
  obtain q v where call: "processx__cloexec_fcntl fuel os fd True w = (q, v)" by force
  note eff = cloexec_fcntl [OF fl call] and tot = total [OF call]
  from Suc.prems call obtain r where q: "q = Inr r" by (cases q) auto
  show ?case
  proof (cases "r \<noteq> None \<and> fd > 15")
    case True
    with Suc.prems call q have "w' = v" by simp
    moreover have "fl w (Descriptor_flags, fd) = None"
      using tot q True by (cases "fl w (Descriptor_flags, fd)") auto
    ultimately show ?thesis using True eff q by (intro exI [where x = fd]) auto
  next
    case False
    with Suc.prems call q have "disable_inheritance_from n fuel os (fd + 1) v = (Inr (), w')"
      by (auto split: if_splits)
    from Suc.IH [OF this] obtain last where l: "fd + 1 \<le> last" "15 < last"
        "fl v (Descriptor_flags, last) = None"
        "\<forall>k d. fl w' (k, d) = (if k = Descriptor_flags \<and> fd + 1 \<le> d \<and> d < last
           then map_option (\<lambda>x. x OR FD_CLOEXEC) (fl v (k, d)) else fl v (k, d))"
      by blast
    have v: "fl v (k, d) = (if k = Descriptor_flags \<and> d = fd
        then map_option (\<lambda>x. x OR FD_CLOEXEC) (fl w (k, d)) else fl w (k, d))" for k d
    proof (cases "r = None")
      case True
      with eff q show ?thesis by (auto simp: flag_updated_def)
    next
      case False
      with tot q have "fl w (Descriptor_flags, fd) = None"
        by (cases "fl w (Descriptor_flags, fd)") auto
      with False eff q show ?thesis by auto
    qed
    show ?thesis
      by (intro exI [where x = last]) (use l v in auto)
  qed
qed simp

lemma write_restores:
  assumes "processx_c_connection_write_bytes os (Some c) bytes w = (r, w')"
    and "\<And>s d w r w'. os_sigaction os s d w = (r, w') \<Longrightarrow> out w' = out w"
    and "appends os (handle c) out"
  shows "case r of Inl _ \<Rightarrow> out w' = out w | Inr n \<Rightarrow> n \<le> length bytes \<and> out w' = out w @ take n bytes"
proof (cases "check_valid_conn (Some c)")
  case None
  show ?thesis
    using assms(1) None
    by (auto simp: processx_c_connection_write_bytes_def Let_def split: if_splits prod.splits sum.splits
        dest!: assms(2) write_appends [OF assms(3)])
next
  case (Some e)
  with assms(1) show ?thesis by (auto simp: processx_c_connection_write_bytes_def)
qed

section \<open>Properties\<close>



text \<open>Writing accounts for every byte: the raw vector \<open>processx_connection_write_bytes\<close> returns is
  the suffix of the input that was not written, the rest was appended to the descriptor, and on an
  error nothing was written.\<close>

theorem write_bytes_returns_rest:
  assumes "processx_connection_write_bytes os (Some c) bytes w = (r, w')"
    and "\<forall>s d w. out (snd (os_sigaction os s d w)) = out w" and "appends os (handle c) out"
  shows "case r of Inl _ \<Rightarrow> out w' = out w
    | Inr left \<Rightarrow> \<exists>written. bytes = written @ left \<and> out w' = out w @ written"
proof -
  have sig: "out v' = out v" if "os_sigaction os s d v = (q, v')" for s d v q v'
    using assms(2) [rule_format, of s d v] that by simp
  obtain q v where call: "processx_c_connection_write_bytes os (Some c) bytes w = (q, v)" by force
  note wr = write_restores [OF call sig assms(3)]
  have r: "(r, w') = (case q of Inl e \<Rightarrow> (Inl e, v) | Inr n \<Rightarrow> (Inr (drop n bytes), v))"
    using assms(1) call by (simp add: processx_connection_write_bytes_def andthen_def split: sum.splits)
  show ?thesis
  proof (cases q)
    case (Inl e)
    with r wr show ?thesis by simp
  next
    case (Inr n)
    with r wr have "bytes = take n bytes @ drop n bytes \<and> out w' = out w @ take n bytes" by simp
    with r Inr show ?thesis by auto
  qed
qed

definition pipe_conn :: "int \<Rightarrow> unit conn" where
  "pipe_conn fd = \<lparr>ctype = PROCESSX_FILE_TYPE_PIPE, is_closed' = False, is_eof' = False,
      is_eof_raw' = False, close_on_destroy = True, encoding = None, iconv_ctx = None,
      raw_mode = False, handle = fd, buffer_ptr = Null, buffer_allocated_size = 0, buffer = [],
      utf8_ptr = Null, utf8_allocated_size = 0, utf8 = [], poll_idx = 0, filename = None,
      sock_state = 0\<rparr>"

theorem write_bytes_returns_rest_witness:
  "\<exists>left w'. processx_connection_write_bytes
      (refusing_os\<lparr>os_write := \<lambda>fd bs w. (Inr (min 2 (length bs)), w @ take 2 bs)\<rparr>)
      (Some (pipe_conn 5)) [1, 2, 3] [] = (Inr left, w') \<and> w' @ left = [1, 2, 3]"
proof -
  let ?os = "refusing_os\<lparr>os_write := \<lambda>fd bs w. (Inr (min 2 (length bs)), w @ take 2 bs)\<rparr> :: byte list os"
  obtain r w' where run: "processx_connection_write_bytes ?os (Some (pipe_conn 5)) [1, 2, 3] [] = (r, w')"
    by force
  have s: "\<forall>s d w. id (snd (os_sigaction ?os s d w)) = id w" by (simp add: refusing_os_def)
  have a: "appends ?os (handle (pipe_conn 5)) id" by (auto simp: appends_def min_def)
  have "\<exists>left. r = Inr left"
    using run by (auto simp: processx_connection_write_bytes_def processx_c_connection_write_bytes_def
        check_valid_conn_def pipe_conn_def refusing_os_def Let_def andthen_def)
  with write_bytes_returns_rest [OF run s a] run show ?thesis by auto
qed

text \<open>\<open>processx_connection_disable_inheritance\<close> gives the close-on-exec flag to every open
  descriptor from the first one up to the first closed one after descriptor 15, and changes no
  other flag.\<close>

theorem disable_inheritance_sets_cloexec:
  assumes "descriptor_flags os fl"
    and "\<forall>fd w. fl w (Descriptor_flags, fd) \<noteq> None \<longrightarrow>
      fst (processx__cloexec_fcntl fuel os fd True w) = Inr None"
    and "processx_connection_disable_inheritance n fuel os w = (Inr (), w')"
  shows "\<exists>last > 15. fl w (Descriptor_flags, last) = None \<and>
    (\<forall>k d. fl w' (k, d) =
       (if k = Descriptor_flags \<and> (if os_getenv os ''PROCESSX_CLOEXEC_STDIO'' w then 0 else 3) \<le> d \<and> d < last
        then map_option (\<lambda>x. x OR FD_CLOEXEC) (fl w (k, d)) else fl w (k, d)))"
proof -
  have tot: "r = Inr None" if "processx__cloexec_fcntl fuel os fd True v = (r, v')"
      and "fl v (Descriptor_flags, fd) \<noteq> None" for fd v r v'
    using assms(2) [rule_format, of v fd] that by simp
  note run = assms(3) [unfolded processx_connection_disable_inheritance_def]
  from disable_inheritance_loop [OF assms(1) _ run] tot show ?thesis by blast
qed

theorem disable_inheritance_sets_cloexec_witness:
  "\<exists>w'. processx_connection_disable_inheritance 20 1 flag_table_os [(Descriptor_flags, 4) \<mapsto> 0] = (Inr (), w') \<and>
     w' (Descriptor_flags, 4) = Some FD_CLOEXEC"
proof -
  let ?w = "[(Descriptor_flags, 4) \<mapsto> 0 :: 32 word] :: flag_table"
  have t: "\<forall>fd w. id w (Descriptor_flags, fd) \<noteq> None \<longrightarrow>
      fst (processx__cloexec_fcntl 1 flag_table_os fd True w) = Inr None"
    by (auto simp: processx__cloexec_fcntl_def switch_flag_def flag_table_os_def Let_def)
  obtain r w' where run: "processx_connection_disable_inheritance 20 1 flag_table_os ?w = (r, w')" by force
  have "r = Inr ()"
    using run by (simp add: processx_connection_disable_inheritance_def processx__cloexec_fcntl_def
        switch_flag_def flag_table_os_def refusing_os_def Let_def eval_nat_numeral FD_CLOEXEC_def)
  with run have "processx_connection_disable_inheritance 20 1 flag_table_os ?w = (Inr (), w')" by simp
  from disable_inheritance_sets_cloexec [OF flag_table_os t this]
  obtain last where "15 < last" and l: "\<forall>k d. id w' (k, d) = (if k = Descriptor_flags \<and>
      (if os_getenv flag_table_os ''PROCESSX_CLOEXEC_STDIO'' ?w then 0 else 3) \<le> d \<and> d < last
      then map_option (\<lambda>x. x OR FD_CLOEXEC) (id ?w (k, d)) else id ?w (k, d))"
    by blast
  have "w' (Descriptor_flags, 4) = Some FD_CLOEXEC"
    using l [rule_format, of Descriptor_flags 4] \<open>15 < last\<close> by (simp add: flag_table_os_def refusing_os_def)
  with run \<open>r = Inr ()\<close> show ?thesis by simp
qed

text \<open>Accepting moves a socket connection from a listening state to \<open>CONNECTED_SERVER\<close> with the
  accepted descriptor, and closes the listening one; in any other state it is an error that
  changes nothing. A second accept on the same connection is such an error.\<close>

theorem accept_transitions:
  assumes "processx_connection_accept_socket fuel os (c, w) = (r, c', w')"
  shows "case r of
      Inr () \<Rightarrow> ctype c = PROCESSX_FILE_TYPE_SOCKET \<and>
        sock_state c \<in> {PROCESSX_SOCKET_LISTEN, PROCESSX_SOCKET_LISTEN_PIPE_READY} \<and>
        (\<exists>fd v u. os_accept os (handle c) w = (Inr fd, v) \<and>
           w' = snd (os_close os (handle c) u) \<and>
           c' = c\<lparr>handle := fd, sock_state := PROCESSX_SOCKET_CONNECTED_SERVER\<rparr>) \<and>
        processx_connection_accept_socket fuel os (c', w') =
          (Inl (R_error ''Socket is not listening''), c', w')
    | Inl _ \<Rightarrow> c' = c"
proof (cases "ctype c = PROCESSX_FILE_TYPE_SOCKET \<and>
    sock_state c \<in> {PROCESSX_SOCKET_LISTEN, PROCESSX_SOCKET_LISTEN_PIPE_READY}")
  case False
  with assms show ?thesis by (auto simp: processx_connection_accept_socket_def split: if_splits)
next
  case True
  obtain q v where acc: "os_accept os (handle c) w = (q, v)" by force
  show ?thesis
  proof (cases q)
    case (Inl e)
    with assms acc True show ?thesis by (auto simp: processx_connection_accept_socket_def)
  next
    case (Inr fd)
    obtain b u where nb: "processx__nonblock_fcntl fuel os fd True v = (b, u)" by force
    have res: "(r, c', w') = (case b of Inl e \<Rightarrow> (Inl e, c, u)
        | Inr _ \<Rightarrow> (Inr (), c\<lparr>handle := fd, sock_state := PROCESSX_SOCKET_CONNECTED_SERVER\<rparr>,
            snd (os_close os (handle c) u)))"
      using assms acc Inr nb True by (auto simp: processx_connection_accept_socket_def Let_def split: sum.splits)
    have again: "processx_connection_accept_socket fuel os (x, w') = (Inl (R_error ''Socket is not listening''), x, w')"
      if "x = c\<lparr>handle := fd, sock_state := PROCESSX_SOCKET_CONNECTED_SERVER\<rparr>" for x
      using that True by (simp add: processx_connection_accept_socket_def socket_states)
    show ?thesis
    proof (cases b)
      case Inl
      with res show ?thesis by simp
    next
      case (Inr _)
      let ?c = "c\<lparr>handle := fd, sock_state := PROCESSX_SOCKET_CONNECTED_SERVER\<rparr>"
      from res Inr have r: "r = Inr ()" and c': "c' = ?c" and w': "w' = snd (os_close os (handle c) u)"
        by simp_all
      show ?thesis
        unfolding r sum.case unit.case c'
        using again [OF refl] True acc [unfolded \<open>q = Inr fd\<close>] w' by blast
    qed
  qed
qed

theorem accept_transitions_witness:
  "\<exists>c' w'. processx_connection_accept_socket 1
      (refusing_os\<lparr>os_accept := \<lambda>fd w. (Inr 9, w), os_close := \<lambda>fd w. (Inr (), fd # w)\<rparr>)
      ((pipe_conn 5)\<lparr>ctype := PROCESSX_FILE_TYPE_SOCKET, sock_state := PROCESSX_SOCKET_LISTEN\<rparr>, []) =
      (Inr (), c', w') \<and> handle c' = 9 \<and> sock_state c' = PROCESSX_SOCKET_CONNECTED_SERVER"
proof -
  let ?os = "refusing_os\<lparr>os_accept := \<lambda>fd w. (Inr 9, w), os_close := \<lambda>fd w. (Inr (), fd # w)\<rparr> :: int list os"
  let ?c = "(pipe_conn 5)\<lparr>ctype := PROCESSX_FILE_TYPE_SOCKET, sock_state := PROCESSX_SOCKET_LISTEN\<rparr>"
  obtain r c' w' where run: "processx_connection_accept_socket 1 ?os (?c, []) = (r, c', w')"
    by (cases "processx_connection_accept_socket 1 ?os (?c, [])") auto
  have "r = Inr ()"
    using run by (simp add: processx_connection_accept_socket_def processx__nonblock_fcntl_def switch_flag_def
        refusing_os_def pipe_conn_def Let_def)
  from accept_transitions [OF run, unfolded this sum.case unit.case]
  obtain fd v u where "os_accept ?os (handle ?c) [] = (Inr fd, v)"
      "c' = ?c\<lparr>handle := fd, sock_state := PROCESSX_SOCKET_CONNECTED_SERVER\<rparr>"
    by blast
  then have "handle c' = 9 \<and> sock_state c' = PROCESSX_SOCKET_CONNECTED_SERVER" by simp
  with run \<open>r = Inr ()\<close> show ?thesis by blast
qed

end
