(* ===== verification/Conn_Read.thy ===== *)
theory Conn_Read
  imports Connection
begin

text \<open>
  Reading from a connection (src/src/processx-connection.c, the Unix branches): the raw buffer is
  filled from the descriptor, converted to UTF-8 by \<open>Riconv\<close> into the second buffer, and handed
  out as characters, lines or raw bytes. A reading operation changes the pair of the connection
  and the operating system.
\<close>

section \<open>The conversion to UTF-8\<close>

text \<open>
  \<open>Riconv\<close> is R's converter. A conversion gets the descriptor, the input and the room for output,
  and returns the \<open>errno\<close> (\<open>None\<close> when it converted everything), the number of input bytes it
  consumed, the output, and the descriptor with its shift state advanced.
\<close>

record 'cd iconv =
  iconv_open :: "string \<Rightarrow> 'cd"
  iconv_conv :: "'cd \<Rightarrow> byte list \<Rightarrow> nat \<Rightarrow> errno option \<times> nat \<times> byte list \<times> 'cd"

text \<open>
  The loop of \<open>processx__connection_to_utf8\<close>: an invalid byte is skipped and the conversion goes
  on after it; an incomplete character stays in the input, except at the end of the stream, where
  it is dropped (with a warning). The value is the input left, the output and the descriptor.
\<close>

function to_utf8_loop ::
    "'cd iconv \<Rightarrow> bool \<Rightarrow> 'cd \<Rightarrow> byte list \<Rightarrow> nat \<Rightarrow> r_error + byte list \<times> byte list \<times> 'cd" where
  "to_utf8_loop ic eof_raw cd inbuf outbytesleft =
     (case iconv_conv ic cd inbuf outbytesleft of (err, k, out, cd') \<Rightarrow>
        if err = Some EILSEQ
        then (if length inbuf \<le> k then Inl (Undefined_behaviour ''input pointer past the buffer'')
              else if drop (k + 1) inbuf = [] then Inr ([], out, cd')
              else (case to_utf8_loop ic eof_raw cd' (drop (k + 1) inbuf) (outbytesleft - length out) of
                      Inl e \<Rightarrow> Inl e
                    | Inr (left, out', cd'') \<Rightarrow> Inr (left, out @ out', cd'')))
        else if err = Some EINVAL \<and> eof_raw then Inr ([], out, cd')
        else Inr (drop k inbuf, out, cd'))"
  by pat_completeness auto
termination
  by (relation "measure (\<lambda>(ic, eof_raw, cd, inbuf, outbytesleft). length inbuf)") auto

declare to_utf8_loop.simps [simp del]

text \<open>The descriptor in use, opened at the first conversion for the connection's encoding.\<close>

definition current_cd :: "'cd iconv \<Rightarrow> 'cd conn \<Rightarrow> 'cd" where
  "current_cd ic ccon =
     (case iconv_ctx ccon of Some cd \<Rightarrow> cd
      | None \<Rightarrow> iconv_open ic (case encoding ccon of Some e \<Rightarrow> e | None \<Rightarrow> []))"

definition processx__connection_to_utf8 :: "'cd iconv \<Rightarrow> ('cd conn \<times> 'w, nat) operation" where
  "processx__connection_to_utf8 ic = (\<lambda>(ccon, w).
     let inbuf = buffer ccon;
         outbytesleft = utf8_allocated_size ccon - length (utf8 ccon);
         cd = current_cd ic ccon;
         ccon = ccon\<lparr>iconv_ctx := Some cd\<rparr>
     in if inbuf = [] \<or> outbytesleft = 0 then (Inr 0, ccon, w)
        else if buffer_ptr ccon \<noteq> Live \<or> utf8_ptr ccon \<noteq> Live
        then (Inl (Undefined_behaviour ''conversion between freed buffers''), ccon, w)
        else (case to_utf8_loop ic (is_eof_raw' ccon) cd inbuf outbytesleft of
                Inl e \<Rightarrow> (Inl e, ccon, w)
              | Inr (left, out, cd') \<Rightarrow>
                  (Inr (length out),
                   ccon\<lparr>iconv_ctx := Some cd', buffer := left, utf8 := utf8 ccon @ out\<rparr>, w)))"

section \<open>Filling the buffers\<close>

definition BUFFER_SIZE :: nat where "BUFFER_SIZE = 64 * 1024"

text \<open>When the second allocation fails the first buffer is freed, but its pointer stays in place.\<close>

definition processx__connection_alloc :: "'w os \<Rightarrow> ('cd conn \<times> 'w, unit) operation" where
  "processx__connection_alloc os = (\<lambda>(ccon, w).
     case os_malloc os BUFFER_SIZE w of (ok, w) \<Rightarrow>
     if \<not> ok then (Inl (R_error ''Cannot allocate memory for processx buffer''), ccon\<lparr>buffer_ptr := Null\<rparr>, w)
     else
       (let ccon = ccon\<lparr>buffer_ptr := Live, buffer_allocated_size := BUFFER_SIZE, buffer := []\<rparr>
        in case os_malloc os BUFFER_SIZE w of (ok, w) \<Rightarrow>
           if \<not> ok
           then (Inl (R_error ''Cannot allocate memory for processx buffer''),
                 ccon\<lparr>buffer_ptr := Dangling, utf8_ptr := Null\<rparr>, w)
           else (Inr (), ccon\<lparr>utf8_ptr := Live, utf8_allocated_size := BUFFER_SIZE, utf8 := []\<rparr>, w)))"

text \<open>The size times 1.2, rounded down.\<close>

definition processx__connection_realloc :: "'w os \<Rightarrow> ('cd conn \<times> 'w, unit) operation" where
  "processx__connection_realloc os = (\<lambda>(ccon, w).
     let new_size = utf8_allocated_size ccon * 6 div 5;
         new_size = (if new_size = utf8_allocated_size ccon then 2 * new_size else new_size)
     in case os_malloc os new_size w of (ok, w) \<Rightarrow>
        if \<not> ok then (Inl (R_error ''Cannot allocate memory for processx line''), ccon, w)
        else (Inr (), ccon\<lparr>utf8_allocated_size := new_size\<rparr>, w))"

text \<open>What the end of the input sets: the second flag only when both buffers are empty.\<close>

definition set_eof :: "'cd conn \<Rightarrow> 'cd conn" where
  "set_eof ccon =
     (let ccon = ccon\<lparr>is_eof_raw' := True\<rparr>
      in if utf8 ccon = [] \<and> buffer ccon = [] then ccon\<lparr>is_eof' := True\<rparr> else ccon)"

definition convert_or_count :: "'cd iconv \<Rightarrow> ('cd conn \<times> 'w, nat) operation" where
  "convert_or_count ic = (\<lambda>(ccon, w).
     if \<not> raw_mode ccon \<and> buffer ccon \<noteq> [] then processx__connection_to_utf8 ic (ccon, w)
     else (Inr (length (buffer ccon)), ccon, w))"

definition fill_and_convert :: "'w os \<Rightarrow> 'cd iconv \<Rightarrow> ('cd conn \<times> 'w, nat) operation" where
  "fill_and_convert os ic = (\<lambda>(ccon, w).
     let todo = buffer_allocated_size ccon - length (buffer ccon)
     in if todo = 0 then processx__connection_to_utf8 ic (ccon, w)
        else if buffer_ptr ccon \<noteq> Live
        then (Inl (Undefined_behaviour ''read into a freed buffer''), ccon, w)
        else (case os_read os (handle ccon) todo w of
                (Inr bs, w) \<Rightarrow>
                  (if bs = [] then convert_or_count ic (set_eof ccon, w)
                   else convert_or_count ic (ccon\<lparr>buffer := buffer ccon @ bs\<rparr>, w))
              | (Inl errno, w) \<Rightarrow>
                  (if errno = EAGAIN then convert_or_count ic (ccon, w)
                   else if errno = EIO then convert_or_count ic (set_eof ccon, w)
                   else (Inl (R_system_error ''Cannot read from processx connection'' errno), ccon, w))))"

definition processx__connection_read :: "'w os \<Rightarrow> 'cd iconv \<Rightarrow> ('cd conn \<times> 'w, nat) operation" where
  "processx__connection_read os ic = (\<lambda>(ccon, w).
     if is_eof_raw' ccon \<and> buffer ccon = []
     then (Inr 0, (if utf8 ccon = [] then ccon\<lparr>is_eof' := True\<rparr> else ccon), w)
     else andthen (if buffer_ptr ccon = Null then processx__connection_alloc os else ret ())
            (\<lambda>_. fill_and_convert os ic) (ccon, w))"

section \<open>Characters\<close>

text \<open>Total length of a character by the low six bits of its first byte.\<close>

definition processx__utf8_length :: "nat list" where
  "processx__utf8_length =
    [2,2,2,2,2,2,2,2,2,2,2,2,2,2,2,2,
     2,2,2,2,2,2,2,2,2,2,2,2,2,2,2,2,
     3,3,3,3,3,3,3,3,3,3,3,3,3,3,3,3,
     4,4,4,4,4,4,4,4,5,5,5,5,6,6,6,6]"

lemma utf8_length_table: "2 \<le> processx__utf8_length ! (k mod 64) \<and> processx__utf8_length ! (k mod 64) \<le> 6"
proof -
  have "\<forall>x \<in> set processx__utf8_length. 2 \<le> x \<and> x \<le> 6" by (simp add: processx__utf8_length_def)
  moreover have "k mod 64 < length processx__utf8_length" by (simp add: processx__utf8_length_def)
  ultimately show ?thesis using nth_mem by blast
qed

lemma utf8_length_positive [simp]: "0 < processx__utf8_length ! (k mod 64)"
  using utf8_length_table [of k] by linarith

text \<open>The bytes still to look at, the two limits (negative: none) and the two counters.\<close>

definition invalid_utf8 :: r_error where
  "invalid_utf8 = R_error ''Invalid UTF-8 string, internal error''"

function find_utf8_loop :: "byte list \<Rightarrow> int \<Rightarrow> int \<Rightarrow> nat \<Rightarrow> nat \<Rightarrow> r_error + nat \<times> nat" where
  "find_utf8_loop s maxchars maxbytes chars bytes =
     (if maxchars \<noteq> 0 \<and> maxbytes \<noteq> 0 \<and> 0 < length s
      then (let c = unat (hd s); clen = processx__utf8_length ! (c mod 64)
            in if c < 128
               then find_utf8_loop (tl s) (if maxchars > 0 then maxchars - 1 else maxchars)
                      (if maxbytes > 0 then maxbytes - 1 else maxbytes) (chars + 1) (bytes + 1)
               else if c < 0xc0 then Inl invalid_utf8
               else if c \<ge> 0xfe then Inl invalid_utf8
               else if length s < clen then Inl invalid_utf8
               else if maxbytes > 0 \<and> int clen > maxbytes then Inr (chars, bytes)
               else find_utf8_loop (drop clen s) (if maxchars > 0 then maxchars - 1 else maxchars)
                      (if maxbytes > 0 then maxbytes - int clen else maxbytes) (chars + 1) (bytes + clen))
      else Inr (chars, bytes))"
  by pat_completeness auto
termination
  by (relation "measure (\<lambda>(s, maxchars, maxbytes, chars, bytes). length s)")
    (auto simp: Let_def)

declare find_utf8_loop.simps [simp del]

definition processx__connection_find_utf8_chars :: "'cd conn \<Rightarrow> int \<Rightarrow> int \<Rightarrow> r_error + nat \<times> nat" where
  "processx__connection_find_utf8_chars ccon maxchars maxbytes =
     find_utf8_loop (utf8 ccon) maxchars maxbytes 0 0"

text \<open>The value is the number of bytes of the characters to hand out.\<close>

definition processx__connection_find_chars ::
    "'w os \<Rightarrow> 'cd iconv \<Rightarrow> int \<Rightarrow> int \<Rightarrow> ('cd conn \<times> 'w, nat) operation" where
  "processx__connection_find_chars os ic maxchars maxbytes = (\<lambda>(ccon, w).
     case check_valid_conn (Some ccon) of Some e \<Rightarrow> (Inl e, ccon, w)
     | None \<Rightarrow>
         andthen
           (if \<not> is_eof' ccon \<and> utf8 ccon = [] then processx__connection_read os ic else ret 0)
           (\<lambda>_ (ccon, w).
              if utf8 ccon = [] \<or> maxchars = 0 then (Inr 0, ccon, w)
              else (case processx__connection_find_utf8_chars ccon maxchars maxbytes of
                      Inl e \<Rightarrow> (Inl e, ccon, w)
                    | Inr (chars, bytes) \<Rightarrow> (Inr bytes, ccon, w)))
           (ccon, w))"

text \<open>Taking bytes out of the front of the buffer.\<close>

definition consume :: "nat \<Rightarrow> 'cd conn \<Rightarrow> 'cd conn" where
  "consume n ccon = ccon\<lparr>utf8 := drop n (utf8 ccon)\<rparr>"

text \<open>\<open>mkCharLenCE\<close> of R makes a string of bytes, and refuses a null byte.\<close>

definition mkCharLenCE :: "byte list \<Rightarrow> r_error + byte list" where
  "mkCharLenCE bs = (if 0 \<in> set bs then Inl (R_error ''embedded nul in string'') else Inr bs)"

definition processx_connection_read_chars ::
    "'w os \<Rightarrow> 'cd iconv \<Rightarrow> int \<Rightarrow> ('cd conn \<times> 'w, byte list) operation" where
  "processx_connection_read_chars os ic nchars =
     andthen (processx__connection_find_chars os ic nchars (-1)) (\<lambda>utf8_bytes (ccon, w).
       case mkCharLenCE (take utf8_bytes (utf8 ccon)) of
         Inl e \<Rightarrow> (Inl e, ccon, w)
       | Inr str \<Rightarrow> (Inr str, consume utf8_bytes ccon, w))"

text \<open>The C interface; the value is what is copied into the caller's buffer of \<open>nbyte\<close> bytes.\<close>

definition processx_c_connection_read_chars ::
    "'w os \<Rightarrow> 'cd iconv \<Rightarrow> nat \<Rightarrow> ('cd conn \<times> 'w, byte list) operation" where
  "processx_c_connection_read_chars os ic nbyte =
     (if nbyte < 4
      then throw (R_error ''Buffer size must be at least 4 bytes, to allow multibyte characters'')
      else andthen (processx__connection_find_chars os ic (-1) (int nbyte)) (\<lambda>utf8_bytes (ccon, w).
             (Inr (take utf8_bytes (utf8 ccon)), consume utf8_bytes ccon, w)))"

section \<open>Lines\<close>

abbreviation newline_byte :: byte where "newline_byte \<equiv> 10"
abbreviation return_byte :: byte where "return_byte \<equiv> 13"

text \<open>The loop \<open>while (ptr < end && *ptr != '\n') ptr++\<close>, on offsets into the buffer.\<close>

function scan :: "byte list \<Rightarrow> nat \<Rightarrow> nat \<Rightarrow> nat" where
  "scan xs ptr fin = (if ptr < fin \<and> xs ! ptr \<noteq> newline_byte then scan xs (ptr + 1) fin else ptr)"
  by pat_completeness auto
termination
  by (relation "measure (\<lambda>(xs, ptr, fin). fin - ptr)") auto

declare scan.simps [simp del]

definition processx__find_newline :: "'cd conn \<Rightarrow> nat \<Rightarrow> int" where
  "processx__find_newline ccon start =
     (if utf8 ccon = [] then -1
      else (let r = scan (utf8 ccon) start (length (utf8 ccon))
            in if r < length (utf8 ccon) then int r else -1))"

text \<open>
  The loop of \<open>processx__connection_read_until_newline\<close> with its two pointers \<open>ptr\<close> and \<open>end\<close> as
  offsets. Both are kept when the buffer moves, and \<open>end\<close> is never advanced over the bytes a
  read appends.
\<close>

fun until_newline_loop ::
    "nat \<Rightarrow> 'w os \<Rightarrow> 'cd iconv \<Rightarrow> nat \<Rightarrow> nat \<Rightarrow> ('cd conn \<times> 'w, int) operation" where
  "until_newline_loop 0 os ic ptr fin s = (Inl Out_of_fuel, s)"
| "until_newline_loop (Suc fuel) os ic ptr fin (ccon, w) =
     (let ptr = scan (utf8 ccon) ptr fin
      in if ptr < fin then (Inr (int ptr), ccon, w)
         else if is_eof' ccon then (Inr (-1), ccon, w)
         else
           andthen
             (if 8 \<le> utf8_allocated_size ccon \<and> utf8_allocated_size ccon - 8 \<le> length (utf8 ccon)
              then processx__connection_realloc os else ret ())
             (\<lambda>_. andthen (processx__connection_read os ic) (\<lambda>new_bytes s.
                if new_bytes = 0 then (Inr (-1), s) else until_newline_loop fuel os ic ptr fin s))
             (ccon, w))"

definition processx__connection_read_until_newline ::
    "nat \<Rightarrow> 'w os \<Rightarrow> 'cd iconv \<Rightarrow> ('cd conn \<times> 'w, int) operation" where
  "processx__connection_read_until_newline fuel os ic = (\<lambda>(ccon, w).
     andthen (if utf8 ccon = [] then processx__connection_read os ic else ret 0)
       (\<lambda>_ (ccon, w).
          if utf8 ccon = [] then (Inr (-1), ccon, w)
          else until_newline_loop fuel os ic 0 (length (utf8 ccon)) (ccon, w))
       (ccon, w))"

text \<open>Counting the lines up to \<open>maxlines\<close>, from the newline at \<open>newline\<close> on.\<close>

function count_lines :: "'cd conn \<Rightarrow> int \<Rightarrow> int \<Rightarrow> nat \<Rightarrow> nat" where
  "count_lines ccon maxlines newline lines =
     (if newline \<noteq> -1 \<and> int lines < maxlines
      then count_lines ccon maxlines (processx__find_newline ccon (nat (newline + 1))) (lines + 1)
      else lines)"
  by pat_completeness auto
termination
  by (relation "measure (\<lambda>(ccon, maxlines, newline, lines). nat maxlines - lines)") auto

declare count_lines.simps [simp del]

definition unterminated_end :: "'cd conn \<Rightarrow> bool" where
  "unterminated_end ccon \<longleftrightarrow>
     is_eof_raw' ccon \<and> utf8 ccon \<noteq> [] \<and> buffer ccon = [] \<and> last (utf8 ccon) \<noteq> newline_byte"

definition processx__connection_find_lines ::
    "nat \<Rightarrow> 'w os \<Rightarrow> 'cd iconv \<Rightarrow> int \<Rightarrow> ('cd conn \<times> 'w, nat \<times> bool) operation" where
  "processx__connection_find_lines fuel os ic maxlines = (\<lambda>(ccon, w).
     let maxlines = (if maxlines < 0 then 1000 else maxlines)
     in case check_valid_conn (Some ccon) of Some e \<Rightarrow> (Inl e, ccon, w)
        | None \<Rightarrow>
            andthen (processx__connection_read_until_newline fuel os ic) (\<lambda>newline (ccon, w).
              (Inr (count_lines ccon maxlines newline 0, unterminated_end ccon), ccon, w))
            (ccon, w))"

text \<open>\<open>mkCharLenCE (utf8 + from, n)\<close>.\<close>

definition substring :: "byte list \<Rightarrow> int \<Rightarrow> int \<Rightarrow> byte list" where
  "substring xs from n = take (nat n) (drop (nat from) xs)"

text \<open>The loop that makes \<open>k\<close> lines; the last \<open>newline\<close> (and \<open>eol\<close>) position is returned with them.\<close>

fun make_lines :: "'cd conn \<Rightarrow> nat \<Rightarrow> int \<Rightarrow> r_error + byte list list \<times> int" where
  "make_lines ccon 0 newline = Inr ([], newline)"
| "make_lines ccon (Suc k) newline =
     (let eol = processx__find_newline ccon (nat (newline + 1));
          slashr = (if eol > 0 \<and> utf8 ccon ! nat (eol - 1) = return_byte then 1 else 0)
      in case mkCharLenCE (substring (utf8 ccon) (newline + 1) (eol - newline - 1 - slashr)) of
           Inl e \<Rightarrow> Inl e
         | Inr line \<Rightarrow>
             (case make_lines ccon k eol of
                Inl e \<Rightarrow> Inl e | Inr (rest, newline) \<Rightarrow> Inr (line # rest, newline)))"

definition processx_connection_read_lines ::
    "nat \<Rightarrow> 'w os \<Rightarrow> 'cd iconv \<Rightarrow> int \<Rightarrow> ('cd conn \<times> 'w, byte list list) operation" where
  "processx_connection_read_lines fuel os ic nlines =
     andthen (processx__connection_find_lines fuel os ic nlines) (\<lambda>(lines_read, eof) (ccon, w).
       case make_lines ccon lines_read (-1) of
         Inl e \<Rightarrow> (Inl e, ccon, w)
       | Inr (lines, newline) \<Rightarrow>
           if eof
           then (let eol = int (length (utf8 ccon)) - 1
                 in case mkCharLenCE (substring (utf8 ccon) (newline + 1) (eol - newline)) of
                      Inl e \<Rightarrow> (Inl e, ccon, w)
                    | Inr line \<Rightarrow> (Inr (lines @ [line]), consume (nat (eol + 1)) ccon, w))
           else (Inr lines, (if newline \<ge> 0 then consume (nat (newline + 1)) ccon else ccon), w))"

text \<open>
  The C interface for one line: \<open>Inr (Some line)\<close> is a line (the return value is its length),
  \<open>Inr None\<close> stands for the two answers without a line, -1 at the end of the stream and 0 when
  there is no line yet. The buffer management of the caller (\<open>linep\<close>, \<open>linecapp\<close>) always makes
  room for the line.
\<close>

datatype line_result = End_of_stream | No_line_yet | Line "byte list"

definition processx_c_connection_read_line ::
    "nat \<Rightarrow> 'w os \<Rightarrow> 'cd iconv \<Rightarrow> ('cd conn \<times> 'w, line_result) operation" where
  "processx_c_connection_read_line fuel os ic = (\<lambda>(ccon, w).
     if is_eof' ccon then (Inr End_of_stream, ccon, w)
     else andthen (processx__connection_read_until_newline fuel os ic) (\<lambda>newline (ccon, w).
       let eof = unterminated_end ccon
       in if newline = -1 \<and> \<not> eof then (Inr No_line_yet, ccon, w)
          else
            (let newline = (if newline = -1 then int (length (utf8 ccon)) else newline)
             in if newline = 0
                then (Inl (Undefined_behaviour ''read before the start of the UTF-8 buffer''), ccon, w)
                else
                  (let newline = (if utf8 ccon ! nat (newline - 1) = return_byte then newline - 1 else newline);
                       line = take (nat newline) (utf8 ccon)
                   in if \<not> eof then (Inr (Line line), consume (nat newline + 1) ccon, w)
                      else (Inr (Line line), ccon\<lparr>utf8 := []\<rparr>, w))))
     (ccon, w))"

section \<open>Raw bytes\<close>

definition processx_connection_read_bytes ::
    "'w os \<Rightarrow> 'cd iconv \<Rightarrow> int \<Rightarrow> ('cd conn \<times> 'w, byte list) operation" where
  "processx_connection_read_bytes os ic nbytes = (\<lambda>(ccon, w).
     case check_valid_conn (Some ccon) of Some e \<Rightarrow> (Inl e, ccon, w)
     | None \<Rightarrow>
         (let ccon = ccon\<lparr>raw_mode := True\<rparr>
          in andthen
               (if buffer ccon = [] \<and> \<not> is_eof_raw' ccon then processx__connection_read os ic else ret 0)
               (\<lambda>_ (ccon, w).
                  let ccon = (if is_eof_raw' ccon \<and> buffer ccon = [] then ccon\<lparr>is_eof' := True\<rparr> else ccon);
                      to_read = length (buffer ccon);
                      to_read = (if nbytes \<ge> 0 \<and> nat nbytes < to_read then nat nbytes else to_read)
                  in (Inr (take to_read (buffer ccon)),
                      ccon\<lparr>buffer := drop to_read (buffer ccon)\<rparr>, w))
               (ccon, w)))"

end
