(* ===== verification/Conn_Text.thy ===== *)
theory Conn_Text
  imports Conn_Read
begin

text \<open>
  What the reading operations of \<open>Conn_Read\<close> hand out. The text of a connection is everything its
  readers will ever see: the UTF-8 buffer, followed by the decoding of the raw buffer and of the
  bytes still to come from the descriptor. Every operation keeps the text, or splits its result
  off the front.
\<close>

section \<open>What the code relies on\<close>

text \<open>
  \<open>src w\<close> are the bytes the descriptor will deliver. \<open>read\<close> delivers a front part of them that fits,
  nothing only at the end; \<open>EIO\<close> is the end of a terminal; any other error delivers nothing.
  Allocating memory reads nothing.
\<close>

definition source_ok :: "'w os \<Rightarrow> int \<Rightarrow> ('w \<Rightarrow> byte list) \<Rightarrow> bool" where
  "source_ok os fd src \<longleftrightarrow>
     (\<forall>n w r w'. os_read os fd n w = (r, w') \<longrightarrow>
        (case r of
           Inr bs \<Rightarrow> length bs \<le> n \<and> src w = bs @ src w' \<and> (bs = [] \<and> 0 < n \<longrightarrow> src w = [])
         | Inl e \<Rightarrow> src w' = src w \<and> (e = EIO \<longrightarrow> src w = []))) \<and>
     (\<forall>n w. src (snd (os_malloc os n w)) = src w)"

text \<open>
  \<open>dec cd bs\<close> is the UTF-8 text the converter makes of the whole input \<open>bs\<close>. A conversion returns a
  front part of it; \<open>EILSEQ\<close> stops before an invalid byte, which has no text; \<open>EINVAL\<close> stops before
  an incomplete character, which has no text when nothing follows it.
\<close>

definition converter_ok :: "'cd iconv \<Rightarrow> ('cd \<Rightarrow> byte list \<Rightarrow> byte list) \<Rightarrow> bool" where
  "converter_ok ic dec \<longleftrightarrow>
     (\<forall>cd. dec cd [] = []) \<and>
     (\<forall>cd xs n err k out cd'. iconv_conv ic cd xs n = (err, k, out, cd') \<longrightarrow>
        k \<le> length xs \<and> length out \<le> n \<and>
        (if err = Some EILSEQ
         then k < length xs \<and> (\<forall>ys. dec cd (xs @ ys) = out @ dec cd' (drop (k + 1) xs @ ys))
         else (\<forall>ys. dec cd (xs @ ys) = out @ dec cd' (drop k xs @ ys)) \<and>
              (err = Some EINVAL \<longrightarrow> dec cd' (drop k xs) = [])))"

definition text_of :: "'cd iconv \<Rightarrow> ('cd \<Rightarrow> byte list \<Rightarrow> byte list) \<Rightarrow> ('w \<Rightarrow> byte list) \<Rightarrow>
    'cd conn \<times> 'w \<Rightarrow> byte list" where
  "text_of ic dec src = (\<lambda>(c, w). utf8 c @ dec (current_cd ic c) (buffer c @ src w))"

text \<open>The raw bytes, for the raw mode.\<close>

definition raw_of :: "('w \<Rightarrow> byte list) \<Rightarrow> 'cd conn \<times> 'w \<Rightarrow> byte list" where
  "raw_of src = (\<lambda>(c, w). buffer c @ src w)"

text \<open>
  The invariant of a connection: the flags for the end of the input, and the memory of the two
  buffers with their sizes.
\<close>

definition eof_inv :: "('w \<Rightarrow> byte list) \<Rightarrow> 'cd conn \<times> 'w \<Rightarrow> bool" where
  "eof_inv src = (\<lambda>(c, w).
     (is_eof_raw' c \<longrightarrow> src w = []) \<and>
     (is_eof' c \<longrightarrow> is_eof_raw' c \<and> buffer c = [] \<and> (raw_mode c \<or> utf8 c = [])))"

definition memory_inv :: "'cd conn \<Rightarrow> bool" where
  "memory_inv c \<longleftrightarrow>
     (if buffer_ptr c = Live
      then utf8_ptr c = Live \<and> buffer_allocated_size c = BUFFER_SIZE \<and>
        BUFFER_SIZE \<le> utf8_allocated_size c \<and> length (buffer c) \<le> buffer_allocated_size c \<and>
        length (utf8 c) \<le> utf8_allocated_size c
      else buffer c = [] \<and> utf8 c = [] \<and> utf8_ptr c = Null \<and> utf8_allocated_size c = 0 \<and>
        (buffer_ptr c = Dangling \<longrightarrow> buffer_allocated_size c = BUFFER_SIZE))"

definition memory_available :: "'w os \<Rightarrow> bool" where
  "memory_available os \<longleftrightarrow> (\<forall>n w. fst (os_malloc os n w))"

section \<open>One conversion\<close>

lemma converterD:
  assumes "converter_ok ic dec" and "iconv_conv ic cd xs n = (err, k, out, cd')"
  shows "k \<le> length xs" and "length out \<le> n"
    and "err = Some EILSEQ \<Longrightarrow> k < length xs"
    and "err = Some EILSEQ \<Longrightarrow> dec cd (xs @ ys) = out @ dec cd' (drop (k + 1) xs @ ys)"
    and "err \<noteq> Some EILSEQ \<Longrightarrow> dec cd (xs @ ys) = out @ dec cd' (drop k xs @ ys)"
    and "err = Some EINVAL \<Longrightarrow> dec cd' (drop k xs) = []"
  using assms(1) [unfolded converter_ok_def, THEN conjunct2, rule_format, OF assms(2)]
  by (auto split: if_splits)

lemma converter_empty: "converter_ok ic dec \<Longrightarrow> dec cd [] = []"
  by (simp add: converter_ok_def)

lemma to_utf8_loop_text:
  assumes "converter_ok ic dec" and "eof \<longrightarrow> ys = []"
  shows "case to_utf8_loop ic eof cd xs n of
      Inl _ \<Rightarrow> False
    | Inr (left, out, cd') \<Rightarrow>
        dec cd (xs @ ys) = out @ dec cd' (left @ ys) \<and> length out \<le> n \<and> length left \<le> length xs"
  using assms
proof (induction ic eof cd xs n rule: to_utf8_loop.induct)
  case (1 ic eof cd xs n)
  note ok = "1.prems"(1) and eof = "1.prems"(2)
  show ?case
  proof -
    obtain err k out cd' where conv: "iconv_conv ic cd xs n = (err, k, out, cd')"
      by (cases "iconv_conv ic cd xs n") auto
    note D = converterD [OF ok conv]
    note unf = to_utf8_loop.simps [of ic eof cd xs n]
    show "case to_utf8_loop ic eof cd xs n of Inl _ \<Rightarrow> False
      | Inr (left, out, cd') \<Rightarrow>
        dec cd (xs @ ys) = out @ dec cd' (left @ ys) \<and> length out \<le> n \<and> length left \<le> length xs"
    proof (cases "err = Some EILSEQ")
      case True
      show ?thesis
      proof (cases "drop (k + 1) xs = []")
        case nil: True
        have "to_utf8_loop ic eof cd xs n = Inr ([], out, cd')"
          unfolding unf using conv True D(3) nil by simp
        with D(2) D(4) [OF True, of ys] nil show ?thesis by simp
      next
        case False
        have "\<not> length xs \<le> k" using D(3) True by simp
        note IH = "1.IH" [OF conv [symmetric] refl refl True this False ok eof]
        obtain left out' cd'' where
          rec: "to_utf8_loop ic eof cd' (drop (k + 1) xs) (n - length out) = Inr (left, out', cd'')"
          and rest: "dec cd' (drop (k + 1) xs @ ys) = out' @ dec cd'' (left @ ys)"
            "length out' \<le> n - length out" "length left \<le> length (drop (k + 1) xs)"
          using IH by (auto split: sum.splits)
        have "to_utf8_loop ic eof cd xs n = Inr (left, out @ out', cd'')"
          unfolding unf using conv True D(3) False rec by simp
        moreover have "length out + length out' \<le> n" "length left \<le> length xs" using D(2) rest(2,3) by simp_all
        ultimately show ?thesis using D(4) [OF True, of ys] rest(1) by simp
      qed
    next
      case False
      show ?thesis
      proof (cases "err = Some EINVAL \<and> eof")
        case True
        then have "to_utf8_loop ic eof cd xs n = Inr ([], out, cd')"
          unfolding unf using conv by simp
        with D(2) D(5) [OF False, of ys] D(6) True eof show ?thesis
          by (simp add: converter_empty [OF ok])
      next
        case ninv: False
        then have "to_utf8_loop ic eof cd xs n = Inr (drop k xs, out, cd')"
          unfolding unf using conv False by auto
        with D(2) D(5) [OF False, of ys] show ?thesis by simp
      qed
    qed
  qed
qed

section \<open>What every step keeps\<close>

text \<open>
  The relation between the states before and after an operation that hands nothing out: the text
  is the same, the invariants hold, and the fields reading does not touch are as before.
\<close>

definition conn_inv :: "('w \<Rightarrow> byte list) \<Rightarrow> 'cd conn \<times> 'w \<Rightarrow> bool" where
  "conn_inv src s \<longleftrightarrow> eof_inv src s \<and> memory_inv (fst s)"

definition same_fields :: "'cd conn \<Rightarrow> 'cd conn \<Rightarrow> bool" where
  "same_fields c c' \<longleftrightarrow> handle c' = handle c \<and> raw_mode c' = raw_mode c \<and> is_closed' c' = is_closed' c \<and>
     ctype c' = ctype c \<and> encoding c' = encoding c \<and> filename c' = filename c \<and>
     close_on_destroy c' = close_on_destroy c \<and> sock_state c' = sock_state c"

definition keeps :: "'cd iconv \<Rightarrow> ('cd \<Rightarrow> byte list \<Rightarrow> byte list) \<Rightarrow> ('w \<Rightarrow> byte list) \<Rightarrow>
    'cd conn \<times> 'w \<Rightarrow> 'cd conn \<times> 'w \<Rightarrow> bool" where
  "keeps ic dec src s s' \<longleftrightarrow>
     text_of ic dec src s' = text_of ic dec src s \<and> conn_inv src s' \<and> same_fields (fst s) (fst s') \<and>
     length (utf8 (fst s)) \<le> length (utf8 (fst s'))"

lemma keeps_refl: "conn_inv src s \<Longrightarrow> keeps ic dec src s s"
  by (simp add: keeps_def same_fields_def)

lemma keeps_trans: "keeps ic dec src s t \<Longrightarrow> keeps ic dec src t u \<Longrightarrow> keeps ic dec src s u"
  by (simp add: keeps_def same_fields_def)

lemma keepsD:
  assumes "keeps ic dec src s s'"
  shows "text_of ic dec src s' = text_of ic dec src s" and "conn_inv src s'"
    and "handle (fst s') = handle (fst s)" and "raw_mode (fst s') = raw_mode (fst s)"
    and "length (utf8 (fst s)) \<le> length (utf8 (fst s'))"
  using assms by (simp_all add: keeps_def same_fields_def)

lemma current_cd_Some [simp]: "current_cd ic (c\<lparr>iconv_ctx := Some cd\<rparr>) = cd"
  by (simp add: current_cd_def)

lemma current_cd_frame [simp]:
  "current_cd ic (c\<lparr>buffer := b\<rparr>) = current_cd ic c"
  "current_cd ic (c\<lparr>utf8 := u\<rparr>) = current_cd ic c"
  "current_cd ic (c\<lparr>is_eof' := e\<rparr>) = current_cd ic c"
  "current_cd ic (c\<lparr>is_eof_raw' := e\<rparr>) = current_cd ic c"
  "current_cd ic (c\<lparr>buffer_ptr := p\<rparr>) = current_cd ic c"
  "current_cd ic (c\<lparr>utf8_ptr := p\<rparr>) = current_cd ic c"
  "current_cd ic (c\<lparr>buffer_allocated_size := n\<rparr>) = current_cd ic c"
  "current_cd ic (c\<lparr>utf8_allocated_size := n\<rparr>) = current_cd ic c"
  "current_cd ic (c\<lparr>raw_mode := r\<rparr>) = current_cd ic c"
  by (simp_all add: current_cd_def split: option.split)

lemma to_utf8_step:
  assumes ok: "converter_ok ic dec" and inv: "conn_inv src (c, w)"
    and run: "processx__connection_to_utf8 ic (c, w) = (r, s')"
  shows "\<exists>n. r = Inr n \<and> keeps ic dec src (c, w) s' \<and> snd s' = w \<and>
    length (utf8 (fst s')) = length (utf8 c) + n"
proof -
  let ?cd = "current_cd ic c" and ?room = "utf8_allocated_size c - length (utf8 c)"
  let ?c = "c\<lparr>iconv_ctx := Some ?cd\<rparr>"
  show ?thesis
  proof (cases "buffer c = [] \<or> ?room = 0")
    case True
    with run have "r = Inr 0" "s' = (?c, w)"
      by (auto simp: processx__connection_to_utf8_def Let_def)
    with inv show ?thesis
      by (auto simp: keeps_def conn_inv_def eof_inv_def memory_inv_def same_fields_def text_of_def)
  next
    case False
    with inv have live: "buffer_ptr c = Live" "utf8_ptr c = Live"
      by (auto simp: conn_inv_def memory_inv_def split: if_splits)
    have eof: "is_eof_raw' c \<longrightarrow> src w = []" and neof: "\<not> is_eof' c"
      using inv False by (auto simp: conn_inv_def eof_inv_def)
    note T = to_utf8_loop_text [OF ok eof, where cd = ?cd and xs = "buffer c" and n = ?room]
    from T obtain left out cd' where
      l: "to_utf8_loop ic (is_eof_raw' c) ?cd (buffer c) ?room = Inr (left, out, cd')"
      and t: "dec ?cd (buffer c @ src w) = out @ dec cd' (left @ src w)"
      and len: "length out \<le> ?room" "length left \<le> length (buffer c)"
      by (auto split: sum.splits)
    from run l False live have "r = Inr (length out)"
        "s' = (?c\<lparr>iconv_ctx := Some cd', buffer := left, utf8 := utf8 c @ out\<rparr>, w)"
      by (auto simp: processx__connection_to_utf8_def Let_def)
    with inv t len live neof show ?thesis
      by (auto simp: keeps_def conn_inv_def eof_inv_def memory_inv_def same_fields_def text_of_def)
  qed
qed

lemma set_eof_keeps:
  assumes "conn_inv src (c, w)" and "src w = []"
  shows "keeps ic dec src (c, w) (set_eof c, w)"
  using assms
  by (auto simp: set_eof_def Let_def keeps_def conn_inv_def eof_inv_def memory_inv_def same_fields_def text_of_def)

lemma convert_or_count_step:
  assumes ok: "converter_ok ic dec" and inv: "conn_inv src (c, w)"
    and run: "convert_or_count ic (c, w) = (r, s')"
  shows "\<exists>n. r = Inr n \<and> keeps ic dec src (c, w) s' \<and> snd s' = w \<and>
    (\<not> raw_mode c \<longrightarrow> length (utf8 (fst s')) = length (utf8 c) + n)"
proof (cases "\<not> raw_mode c \<and> buffer c \<noteq> []")
  case True
  with run have "processx__connection_to_utf8 ic (c, w) = (r, s')" by (simp add: convert_or_count_def)
  from to_utf8_step [OF ok inv this] show ?thesis by blast
next
  case False
  with run have "r = Inr (length (buffer c))" "s' = (c, w)" by (auto simp: convert_or_count_def)
  with False show ?thesis using keeps_refl [OF inv] by auto
qed

lemma malloc_neutral:
  "source_ok os fd src \<Longrightarrow> os_malloc os n w = (ok, w') \<Longrightarrow> src w' = src w"
  unfolding source_ok_def by (metis snd_conv)

lemma alloc_step:
  assumes src: "source_ok os (handle c) src" and inv: "conn_inv src (c, w)" and null: "buffer_ptr c = Null"
    and run: "processx__connection_alloc os (c, w) = (r, s')"
  shows "keeps ic dec src (c, w) s' \<and> (case r of Inl e \<Rightarrow> \<exists>m. e = R_error m | Inr _ \<Rightarrow> buffer_ptr (fst s') = Live) \<and>
    utf8 (fst s') = utf8 c \<and> (memory_available os \<longrightarrow> r = Inr ())"
proof -
  obtain ok v where m1: "os_malloc os BUFFER_SIZE w = (ok, v)" by force
  obtain ok' u where m2: "os_malloc os BUFFER_SIZE v = (ok', u)" by force
  have sv: "src v = src w" "src u = src w"
    using malloc_neutral [OF src m1] malloc_neutral [OF src m2] by simp_all
  have mem: "memory_available os \<Longrightarrow> ok \<and> ok'"
    using m1 m2 unfolding memory_available_def by (metis fst_conv)
  show ?thesis
    using run m1 m2 null inv sv mem
    by (auto simp: processx__connection_alloc_def Let_def keeps_def conn_inv_def eof_inv_def memory_inv_def
        same_fields_def text_of_def split: if_splits)
qed

lemma realloc_step:
  assumes src: "source_ok os (handle c) src" and inv: "conn_inv src (c, w)"
    and run: "processx__connection_realloc os (c, w) = (r, s')"
  shows "keeps ic dec src (c, w) s' \<and> (\<forall>e. r = Inl e \<longrightarrow> (\<exists>m. e = R_error m)) \<and> utf8 (fst s') = utf8 c \<and>
    (memory_available os \<longrightarrow> r = Inr ()) \<and> buffer_ptr (fst s') = buffer_ptr c \<and> buffer (fst s') = buffer c"
proof -
  define n where "n = (if utf8_allocated_size c * 6 div 5 = utf8_allocated_size c
      then 2 * (utf8_allocated_size c * 6 div 5) else utf8_allocated_size c * 6 div 5)"
  obtain ok v where m: "os_malloc os n w = (ok, v)" by force
  have sv: "src v = src w" by (rule malloc_neutral [OF src m])
  have mem: "memory_available os \<Longrightarrow> ok"
    using m unfolding memory_available_def by (metis fst_conv)
  have n: "utf8_allocated_size c \<le> n" "utf8_allocated_size c = 0 \<Longrightarrow> n = 0" by (auto simp: n_def)
  have s': "r = (if ok then Inr () else Inl (R_error ''Cannot allocate memory for processx line''))"
      "s' = (if ok then c\<lparr>utf8_allocated_size := n\<rparr> else c, v)"
    using run m by (auto simp: processx__connection_realloc_def Let_def n_def split: if_splits)
  show ?thesis
    using inv sv mem n
    by (auto simp: s' keeps_def conn_inv_def eof_inv_def memory_inv_def same_fields_def text_of_def
        split: if_splits)
qed

lemma source_read:
  assumes "source_ok os fd src" and "os_read os fd n w = (r, w')"
  shows "case r of
      Inr bs \<Rightarrow> length bs \<le> n \<and> src w = bs @ src w' \<and> (bs = [] \<and> 0 < n \<longrightarrow> src w = [])
    | Inl e \<Rightarrow> src w' = src w \<and> (e = EIO \<longrightarrow> src w = [])"
  by (rule assms(1) [unfolded source_ok_def, THEN conjunct1, rule_format, OF assms(2)])

lemma fill_step:
  assumes ok: "converter_ok ic dec" and src: "source_ok os (handle c) src" and inv: "conn_inv src (c, w)"
    and nn: "buffer_ptr c \<noteq> Null" and run: "fill_and_convert os ic (c, w) = (r, s')"
  shows "keeps ic dec src (c, w) s' \<and>
    (\<forall>n. r = Inr n \<longrightarrow> \<not> raw_mode c \<longrightarrow> length (utf8 (fst s')) = length (utf8 c) + n) \<and>
    (\<forall>e. r = Inl e \<longrightarrow> (\<exists>m err. e = R_system_error m err) \<or>
       (buffer_ptr c \<noteq> Live \<and> (\<exists>m. e = Undefined_behaviour m)))"
proof -
  let ?todo = "buffer_allocated_size c - length (buffer c)"
  show ?thesis
  proof (cases "?todo = 0")
    case True
    with run have "processx__connection_to_utf8 ic (c, w) = (r, s')" by (simp add: fill_and_convert_def Let_def)
    from to_utf8_step [OF ok inv this] show ?thesis by auto
  next
    case todo: False
    show ?thesis
    proof (cases "buffer_ptr c = Live")
      case False
      with run todo have "s' = (c, w)" "\<exists>m. r = Inl (Undefined_behaviour m)" by (auto simp: fill_and_convert_def Let_def)
      with False keeps_refl [OF inv] show ?thesis by auto
    next
      case live: True
      obtain q v where rd: "os_read os (handle c) ?todo w = (q, v)" by force
      note S = source_read [OF src rd]
      define c' where "c' = (case q of
          Inr bs \<Rightarrow> if bs = [] then set_eof c else c\<lparr>buffer := buffer c @ bs\<rparr>
        | Inl e \<Rightarrow> if e = EIO then set_eof c else c)"
      have sv: "conn_inv src (c, v) \<and> keeps ic dec src (c, w) (c, v)" if "src v = src w"
        using inv that by (auto simp: keeps_def conn_inv_def eof_inv_def text_of_def same_fields_def)
      have k: "keeps ic dec src (c, w) (c', v)"
      proof (cases q)
        case (Inl e)
        with S have "keeps ic dec src (c, v) (c', v)" "src v = src w"
          using sv set_eof_keeps [of src c v ic dec] keeps_refl [of src "(c, v)" ic dec]
          by (auto simp: c'_def)
        with sv keeps_trans show ?thesis by blast
      next
        case (Inr bs)
        show ?thesis
        proof (cases "bs = []")
          case True
          with S Inr todo have "src v = []" "src v = src w" by auto
          with sv set_eof_keeps [of src c v ic dec] Inr True keeps_trans [of ic dec src "(c, w)" "(c, v)"]
          show ?thesis by (simp add: c'_def)
        next
          case False
          with S Inr inv todo live show ?thesis
            by (auto simp: c'_def keeps_def conn_inv_def eof_inv_def memory_inv_def text_of_def same_fields_def)
        qed
      qed
      have u: "utf8 c' = utf8 c" by (auto simp: c'_def set_eof_def Let_def split: sum.splits)
      have rm: "raw_mode c' = raw_mode c" using keepsD(4) [OF k] by simp
      show ?thesis
      proof (cases "\<exists>e. q = Inl e \<and> e \<noteq> EAGAIN \<and> e \<noteq> EIO")
        case True
        with run todo live rd have "s' = (c', v)" "\<exists>m e. r = Inl (R_system_error m e)"
          by (auto simp: fill_and_convert_def Let_def c'_def)
        with k show ?thesis by auto
      next
        case False
        with run todo live rd have "convert_or_count ic (c', v) = (r, s')"
          by (auto simp: fill_and_convert_def Let_def c'_def split: sum.splits if_splits)
        from convert_or_count_step [OF ok keepsD(2) [OF k] this]
        obtain n where "r = Inr n" "keeps ic dec src (c', v) s'"
            "\<not> raw_mode c' \<longrightarrow> length (utf8 (fst s')) = length (utf8 c') + n" by blast
        with keeps_trans [OF k] u rm show ?thesis by auto
      qed
    qed
  qed
qed

section \<open>One read\<close>

lemma read_step:
  assumes ok: "converter_ok ic dec" and src: "source_ok os (handle c) src" and inv: "conn_inv src (c, w)"
    and run: "processx__connection_read os ic (c, w) = (r, s')"
  shows "keeps ic dec src (c, w) s' \<and>
    (\<forall>n. r = Inr n \<longrightarrow> \<not> raw_mode c \<longrightarrow> length (utf8 (fst s')) = length (utf8 c) + n) \<and>
    (\<forall>e. r = Inl e \<longrightarrow> (\<exists>m err. e = R_error m \<or> e = R_system_error m err) \<or>
       (buffer_ptr c = Dangling \<and> (\<exists>m. e = Undefined_behaviour m)))"
proof (cases "is_eof_raw' c \<and> buffer c = []")
  case True
  with run have s': "r = Inr 0" "s' = (if utf8 c = [] then c\<lparr>is_eof' := True\<rparr> else c, w)"
    by (auto simp: processx__connection_read_def)
  have "keeps ic dec src (c, w) s'"
    using inv True
    by (auto simp: s' keeps_def conn_inv_def eof_inv_def memory_inv_def text_of_def same_fields_def)
  then show ?thesis by (auto simp: s')
next
  case False
  show ?thesis
  proof (cases "buffer_ptr c = Null")
    case null: True
    obtain q t where al: "processx__connection_alloc os (c, w) = (q, t)"
      by (cases "processx__connection_alloc os (c, w)") auto
    note A = alloc_step [OF src inv null al, of ic dec]
    show ?thesis
    proof (cases q)
      case (Inl e)
      with run False null al have "r = Inl e" "s' = t" by (auto simp: processx__connection_read_def)
      with A Inl show ?thesis by auto
    next
      case (Inr u)
      obtain c1 w1 where t: "t = (c1, w1)" by force
      from run False null al Inr have "fill_and_convert os ic (c1, w1) = (r, s')"
        by (simp add: processx__connection_read_def t)
      moreover have "source_ok os (handle c1) src" "conn_inv src (c1, w1)" "buffer_ptr c1 = Live"
          "raw_mode c1 = raw_mode c" "utf8 c1 = utf8 c"
        using A src keepsD [of ic dec src "(c, w)" t] Inr by (auto simp: t)
      ultimately have F: "keeps ic dec src (c1, w1) s' \<and>
          (\<forall>n. r = Inr n \<longrightarrow> \<not> raw_mode c \<longrightarrow> length (utf8 (fst s')) = length (utf8 c) + n) \<and>
          (\<forall>e. r = Inl e \<longrightarrow> (\<exists>m err. e = R_system_error m err))"
        using fill_step [OF ok, of os c1 src w1 r s'] by simp
      moreover have "keeps ic dec src (c, w) (c1, w1)" using A t by simp
      ultimately show ?thesis using keeps_trans by blast
    qed
  next
    case nn: False
    with run False have "fill_and_convert os ic (c, w) = (r, s')"
      by (simp add: processx__connection_read_def andthen_def)
    from fill_step [OF ok src inv nn this] nn show ?thesis
      by (cases "buffer_ptr c") auto
  qed
qed

lemma read_keeps:
  assumes "converter_ok ic dec" and "source_ok os (handle (fst s)) src" and "conn_inv src s"
    and "processx__connection_read os ic s = (r, s')"
  shows "keeps ic dec src s s'"
  using read_step [of ic dec os "fst s" src "snd s" r s'] assms by simp

lemma read_progress:
  assumes "converter_ok ic dec" and "source_ok os (handle (fst s)) src" and "conn_inv src s"
    and "processx__connection_read os ic s = (Inr n, s')" and "\<not> raw_mode (fst s)"
  shows "length (utf8 (fst s')) = length (utf8 (fst s)) + n"
  using read_step [of ic dec os "fst s" src "snd s" "Inr n" s'] assms by simp

lemma utf8_le_text: "length (utf8 (fst s)) \<le> length (text_of ic dec src s)"
  by (cases s) (simp add: text_of_def)

section \<open>Looking for a newline\<close>

lemma scan_bounds: "ptr \<le> scan xs ptr fin \<and> (ptr \<le> fin \<longrightarrow> scan xs ptr fin \<le> fin)"
proof (induction xs ptr fin rule: scan.induct)
  case (1 xs ptr fin)
  show ?case
  proof (cases "ptr < fin \<and> xs ! ptr \<noteq> newline_byte")
    case True
    then have "scan xs ptr fin = scan xs (ptr + 1) fin" by (subst scan.simps) simp
    with 1 True show ?thesis by simp
  next
    case False
    then have "scan xs ptr fin = ptr" by (subst scan.simps) auto
    then show ?thesis by simp
  qed
qed

lemma scan_stop: "scan xs ptr fin < fin \<Longrightarrow> xs ! scan xs ptr fin = newline_byte"
proof (induction xs ptr fin rule: scan.induct)
  case (1 xs ptr fin)
  show ?case
  proof (cases "ptr < fin \<and> xs ! ptr \<noteq> newline_byte")
    case True
    then have "scan xs ptr fin = scan xs (ptr + 1) fin" by (subst scan.simps) simp
    with 1 True show ?thesis by simp
  next
    case False
    then have "scan xs ptr fin = ptr" by (subst scan.simps) auto
    with 1 False show ?thesis by auto
  qed
qed

lemma scan_first: "ptr \<le> m \<Longrightarrow> m < scan xs ptr fin \<Longrightarrow> xs ! m \<noteq> newline_byte"
proof (induction xs ptr fin rule: scan.induct)
  case (1 xs ptr fin)
  show ?case
  proof (cases "ptr < fin \<and> xs ! ptr \<noteq> newline_byte")
    case True
    then have "scan xs ptr fin = scan xs (ptr + 1) fin" by (subst scan.simps) simp
    with 1 True show ?thesis by (cases "m = ptr") auto
  next
    case False
    then have "scan xs ptr fin = ptr" by (subst scan.simps) auto
    with 1 show ?thesis by auto
  qed
qed

lemma read_not_out_of_fuel:
  assumes "converter_ok ic dec" and "source_ok os (handle (fst s)) src" and "conn_inv src s"
  shows "fst (processx__connection_read os ic s) \<noteq> Inl Out_of_fuel"
proof
  obtain r s' where run: "processx__connection_read os ic s = (r, s')" by (meson surj_pair)
  assume "fst (processx__connection_read os ic s) = Inl Out_of_fuel"
  with run have "r = Inl Out_of_fuel" by simp
  with read_step [of ic dec os "fst s" src "snd s" r s'] assms run show False by auto
qed

text \<open>The buffer is grown, if necessary, before more is read.\<close>

lemma grow_step:
  assumes "converter_ok ic dec" and "source_ok os (handle (fst s)) src" and "conn_inv src s"
    and "(if b then processx__connection_realloc os else ret ()) s = (r, s')"
  shows "keeps ic dec src s s'" and "utf8 (fst s') = utf8 (fst s)" and "r \<noteq> Inl Out_of_fuel"
    and "memory_available os \<Longrightarrow> r = Inr ()" and "buffer_ptr (fst s') = buffer_ptr (fst s)"
    and "buffer (fst s') = buffer (fst s)"
  using realloc_step [of os "fst s" src "snd s" r s' ic dec] keeps_refl [of src s ic dec] assms
  by (auto split: if_splits)

lemma until_newline_loop_step:
  assumes ok: "converter_ok ic dec" and "source_ok os (handle (fst s)) src" and "conn_inv src s"
    and "ptr \<le> fin" and "fin \<le> length (utf8 (fst s))"
    and "until_newline_loop fuel os ic ptr fin s = (r, s')"
  shows "keeps ic dec src s s' \<and>
    (\<forall>k. r = Inr k \<longrightarrow> k = -1 \<or>
       (ptr < fin \<and> s' = s \<and> 0 \<le> k \<and> ptr \<le> nat k \<and> nat k < fin \<and> utf8 (fst s) ! nat k = newline_byte \<and>
        (\<forall>m. ptr \<le> m \<and> m < nat k \<longrightarrow> utf8 (fst s) ! m \<noteq> newline_byte)))"
  using assms(2-)
proof (induction fuel arbitrary: s ptr)
  case (Suc fuel)
  obtain c w where s: "s = (c, w)" by force
  let ?p = "scan (utf8 c) ptr fin"
  have p: "ptr \<le> ?p" "?p \<le> fin" using scan_bounds Suc.prems(3) by auto
  show ?case
  proof (cases "?p < fin")
    case True
    with Suc.prems(5) have "r = Inr (int ?p)" "s' = s" by (simp_all add: s Let_def)
    with p True scan_stop [OF True] scan_first [of ptr _ "utf8 c" fin] keeps_refl [OF Suc.prems(2)]
    show ?thesis by (auto simp: s)
  next
    case False
    with p have pf: "?p = fin" by simp
    show ?thesis
    proof (cases "is_eof' c")
      case True
      with Suc.prems(5) False have "r = Inr (-1)" "s' = s" by (simp_all add: s Let_def)
      with keeps_refl [OF Suc.prems(2)] show ?thesis by auto
    next
      case neof: False
      let ?grow = "if 8 \<le> utf8_allocated_size c \<and> utf8_allocated_size c - 8 \<le> length (utf8 c)
          then processx__connection_realloc os else ret ()"
      obtain g t where gr: "?grow s = (g, t)" by (meson surj_pair)
      note G = grow_step [OF ok Suc.prems(1,2) gr]
      show ?thesis
      proof (cases g)
        case (Inl e)
        with Suc.prems(5) False neof gr have "r = Inl e" "s' = t" by (auto simp: s Let_def)
        with G(1) show ?thesis by simp
      next
        case (Inr u)
        obtain q v where rd: "processx__connection_read os ic t = (q, v)" by (meson surj_pair)
        have src: "source_ok os (handle (fst t)) src" using Suc.prems(1) keepsD(3) [OF G(1)] by simp
        have kv: "keeps ic dec src s v"
          using G(1) read_keeps [OF ok src keepsD(2) [OF G(1)] rd] keeps_trans by blast
        show ?thesis
        proof (cases "q = Inr 0 \<or> (\<exists>e. q = Inl e)")
          case True
          with Suc.prems(5) False neof gr Inr rd have "s' = v" "r = Inr (-1) \<or> (\<exists>e. r = Inl e)"
            by (auto simp: s Let_def)
          with kv show ?thesis by auto
        next
          case more: False
          then obtain n where q: "q = Inr n" "n \<noteq> 0" by (cases q) auto
          with Suc.prems(5) False neof gr Inr rd pf
          have run: "until_newline_loop fuel os ic fin fin v = (r, s')" by (simp add: s Let_def)
          have "fin \<le> length (utf8 (fst v))" using Suc.prems(4) keepsD(5) [OF kv] by simp
          from Suc.IH [OF _ keepsD(2) [OF kv] order_refl this run] Suc.prems(1) keepsD(3) [OF kv]
            keeps_trans [OF kv]
          show ?thesis by auto
        qed
      qed
    qed
  qed
qed (auto simp: keeps_refl)

text \<open>
  Outside raw mode every iteration but the last adds text to the buffer, and the buffer holds no
  more than the whole text: one iteration per byte still missing from the buffer is enough.
\<close>

lemma until_newline_loop_fuel:
  assumes ok: "converter_ok ic dec" and "source_ok os (handle (fst s)) src" and "conn_inv src s"
    and "\<not> raw_mode (fst s)" and "length (text_of ic dec src s) - length (utf8 (fst s)) < fuel"
  shows "fst (until_newline_loop fuel os ic ptr fin s) \<noteq> Inl Out_of_fuel"
  using assms(2-)
proof (induction fuel arbitrary: s ptr)
  case (Suc fuel)
  obtain c w where s: "s = (c, w)" by force
  let ?p = "scan (utf8 c) ptr fin"
  show ?case
  proof (cases "?p < fin \<or> is_eof' c")
    case True
    then show ?thesis by (auto simp: s Let_def)
  next
    case stop: False
    let ?grow = "if 8 \<le> utf8_allocated_size c \<and> utf8_allocated_size c - 8 \<le> length (utf8 c)
        then processx__connection_realloc os else ret ()"
    obtain g t where gr: "?grow s = (g, t)" by (meson surj_pair)
    note G = grow_step [OF ok Suc.prems(1,2) gr]
    show ?thesis
    proof (cases g)
      case (Inl e)
      with stop gr G(3) show ?thesis by (auto simp: s Let_def)
    next
      case (Inr u)
      obtain q v where rd: "processx__connection_read os ic t = (q, v)" by (meson surj_pair)
      have t: "source_ok os (handle (fst t)) src" "\<not> raw_mode (fst t)"
        using Suc.prems(1,3) keepsD(3,4) [OF G(1)] by simp_all
      have kv: "keeps ic dec src t v" by (rule read_keeps [OF ok t(1) keepsD(2) [OF G(1)] rd])
      show ?thesis
      proof (cases "q = Inr 0 \<or> (\<exists>e. q = Inl e)")
        case True
        with stop gr Inr rd read_not_out_of_fuel [OF ok t(1) keepsD(2) [OF G(1)]]
        show ?thesis by (auto simp: s Let_def)
      next
        case more: False
        then obtain n where q: "q = Inr n" "0 < n" by (cases q) auto
        have rdn: "processx__connection_read os ic t = (Inr n, v)" using rd q by simp
        have "length (utf8 (fst v)) = length (utf8 (fst s)) + n"
          using read_progress [OF ok t(1) keepsD(2) [OF G(1)] rdn t(2)] G(2) by simp
        moreover have same: "text_of ic dec src v = text_of ic dec src s"
          using keepsD(1) [OF kv] keepsD(1) [OF G(1)] by simp
        moreover have "length (utf8 (fst v)) \<le> length (text_of ic dec src v)" by (rule utf8_le_text)
        ultimately have "length (text_of ic dec src v) - length (utf8 (fst v)) < fuel"
          using Suc.prems(4) q(2) unfolding same by linarith
        from Suc.IH [OF _ keepsD(2) [OF kv] _ this] t keepsD(3,4) [OF kv]
        have "fst (until_newline_loop fuel os ic ?p fin v) \<noteq> Inl Out_of_fuel" by simp
        with stop gr Inr rd q show ?thesis by (simp add: s Let_def)
      qed
    qed
  qed
qed simp

lemma read_until_newline_step:
  assumes ok: "converter_ok ic dec" and src: "source_ok os (handle (fst s)) src" and inv: "conn_inv src s"
    and run: "processx__connection_read_until_newline fuel os ic s = (r, s')"
  shows "keeps ic dec src s s' \<and>
    (\<forall>k. r = Inr k \<longrightarrow> k = -1 \<or>
       (0 \<le> k \<and> nat k < length (utf8 (fst s')) \<and> utf8 (fst s') ! nat k = newline_byte \<and>
        (\<forall>m < nat k. utf8 (fst s') ! m \<noteq> newline_byte))) \<and>
    (\<not> raw_mode (fst s) \<longrightarrow> length (text_of ic dec src s) < fuel \<longrightarrow> r \<noteq> Inl Out_of_fuel)"
proof -
  obtain q t where rd: "(if utf8 (fst s) = [] then processx__connection_read os ic else ret 0) s = (q, t)"
    by (meson surj_pair)
  have k: "keeps ic dec src s t" and nf: "q \<noteq> Inl Out_of_fuel"
    using rd read_keeps [OF ok src inv] keeps_refl [OF inv] read_not_out_of_fuel [OF ok src inv]
    by (auto split: if_splits)
  have t: "source_ok os (handle (fst t)) src" "conn_inv src t" using src keepsD [OF k] by simp_all
  have run': "(r, s') = (case q of Inl e \<Rightarrow> (Inl e, t) | Inr _ \<Rightarrow>
      if utf8 (fst t) = [] then (Inr (-1), t) else until_newline_loop fuel os ic 0 (length (utf8 (fst t))) t)"
    using run rd by (cases s; cases t)
      (auto simp: processx__connection_read_until_newline_def andthen_def split: sum.splits)
  show ?thesis
  proof (cases "(\<exists>e. q = Inl e) \<or> utf8 (fst t) = []")
    case True
    with run' k nf show ?thesis by (auto split: sum.splits)
  next
    case False
    then have loop: "until_newline_loop fuel os ic 0 (length (utf8 (fst t))) t = (r, s')"
      using run' by (cases q) auto
    have "length (text_of ic dec src s) < fuel \<Longrightarrow>
        length (text_of ic dec src t) - length (utf8 (fst t)) < fuel"
      using keepsD(1) [OF k] by simp
    with until_newline_loop_step [OF ok t _ order_refl loop] keeps_trans [OF k]
      until_newline_loop_fuel [OF ok t, of fuel 0 "length (utf8 (fst t))"] loop keepsD(4) [OF k]
    show ?thesis by auto
  qed
qed

section \<open>Handing out\<close>

lemma consume_text:
  assumes "conn_inv src (c, w)" and "n \<le> length (utf8 c)" and "n = 0 \<or> \<not> is_eof' c \<or> raw_mode c"
  shows "text_of ic dec src (c, w) = take n (utf8 c) @ text_of ic dec src (consume n c, w)"
    and "conn_inv src (consume n c, w)"
  using assms by (auto simp: text_of_def consume_def conn_inv_def eof_inv_def memory_inv_def split: if_splits)

lemma consume_at_eof:
  assumes "conn_inv src (c, w)" and "0 < n" and "n \<le> length (utf8 c)"
  shows "\<not> is_eof' c \<or> raw_mode c"
  using assms by (auto simp: conn_inv_def eof_inv_def)

lemma consume_step:
  assumes "conn_inv src (c, w)" and "n \<le> length (utf8 c)"
  shows "text_of ic dec src (c, w) = take n (utf8 c) @ text_of ic dec src (consume n c, w)"
    and "conn_inv src (consume n c, w)"
  using consume_text [OF assms] consume_at_eof [OF assms(1) _ assms(2)] by (cases n; blast)+

lemma consume_handle [simp]: "handle (consume n c) = handle c" "raw_mode (consume n c) = raw_mode c"
  by (simp_all add: consume_def)

text \<open>The text is exhausted when the raw input is and the raw buffer is empty.\<close>

lemma text_at_end:
  assumes "converter_ok ic dec" and "conn_inv src (c, w)" and "is_eof_raw' c" and "buffer c = []"
  shows "text_of ic dec src (c, w) = utf8 c"
  using assms by (simp add: text_of_def conn_inv_def eof_inv_def converter_empty)

end
