(* ===== verification/Conn_Session.thy ===== *)
theory Conn_Session
  imports Conn_Text
begin

text \<open>
  What a client of the reading operations gets: each operation's result as a function of the
  buffered text, and sessions of many requests. A session delivers the text of the connection in
  order and without loss, and when the connection reports the end of the file, completely.
\<close>

section \<open>Characters\<close>

lemma find_utf8_bound:
  assumes "find_utf8_loop s maxchars maxbytes chars bytes = Inr (chars', bytes')"
  shows "bytes \<le> bytes' \<and> bytes' \<le> bytes + length s \<and> chars \<le> chars' \<and>
    (0 \<le> maxbytes \<longrightarrow> int bytes' \<le> int bytes + maxbytes) \<and>
    (0 \<le> maxchars \<longrightarrow> int chars' \<le> int chars + maxchars)"
  using assms
proof (induction s maxchars maxbytes chars bytes arbitrary: chars' bytes' rule: find_utf8_loop.induct)
  case (1 s maxchars maxbytes chars bytes)
  let ?c = "unat (hd s)"
  let ?clen = "processx__utf8_length ! (?c mod 64)"
  show ?case
  proof (cases "maxchars \<noteq> 0 \<and> maxbytes \<noteq> 0 \<and> 0 < length s")
    case False
    with "1.prems" show ?thesis by (subst (asm) find_utf8_loop.simps) auto
  next
    case more: True
    show ?thesis
    proof (cases "?c < 128")
      case True
      with "1.prems" more have "find_utf8_loop (tl s) (if maxchars > 0 then maxchars - 1 else maxchars)
          (if maxbytes > 0 then maxbytes - 1 else maxbytes) (chars + 1) (bytes + 1) = Inr (chars', bytes')"
        by (subst (asm) find_utf8_loop.simps) (simp add: Let_def)
      from "1.IH"(1) [OF more refl refl True this] more show ?thesis by (auto split: if_splits)
    next
      case False
      show ?thesis
      proof (cases "?c < 0xc0 \<or> ?c \<ge> 0xfe \<or> length s < ?clen \<or> (maxbytes > 0 \<and> int ?clen > maxbytes)")
        case True
        with "1.prems" more False show ?thesis
          by (subst (asm) find_utf8_loop.simps) (auto simp: Let_def split: if_splits)
      next
        case ok: False
        with "1.prems" more False have rec: "find_utf8_loop (drop ?clen s)
            (if maxchars > 0 then maxchars - 1 else maxchars)
            (if maxbytes > 0 then maxbytes - int ?clen else maxbytes) (chars + 1) (bytes + ?clen) = Inr (chars', bytes')"
          by (subst (asm) find_utf8_loop.simps) (auto simp: Let_def)
        from ok have "\<not> ?c < 0xc0" "\<not> ?c \<ge> 0xfe" "\<not> length s < ?clen" "\<not> (maxbytes > 0 \<and> int ?clen > maxbytes)"
          by auto
        from "1.IH"(2) [OF more refl refl False this rec] ok more show ?thesis
          by (auto split: if_splits)
      qed
    qed
  qed
qed

lemma find_chars_step:
  assumes ok: "converter_ok ic dec" and src: "source_ok os (handle (fst s)) src" and inv: "conn_inv src s"
    and run: "processx__connection_find_chars os ic maxchars maxbytes s = (r, s')"
  shows "keeps ic dec src s s' \<and>
    (\<forall>n. r = Inr n \<longrightarrow> n \<le> length (utf8 (fst s')) \<and> (0 \<le> maxbytes \<longrightarrow> int n \<le> maxbytes))"
proof -
  obtain c w where s: "s = (c, w)" by force
  show ?thesis
  proof (cases "check_valid_conn (Some c)")
    case (Some e)
    with run have "s' = s" "r = Inl e" by (auto simp: processx__connection_find_chars_def s)
    with keeps_refl [OF inv] show ?thesis by simp
  next
    case None
    let ?rd = "if \<not> is_eof' c \<and> utf8 c = [] then processx__connection_read os ic else ret 0"
    obtain q c1 w1 where rd: "?rd s = (q, c1, w1)" by (metis prod_cases3)
    have k: "keeps ic dec src s (c1, w1)"
      using rd read_keeps [OF ok src inv] keeps_refl [OF inv] by (auto split: if_splits)
    show ?thesis
    proof (cases q)
      case (Inl e)
      with run None rd have "s' = (c1, w1)" "r = Inl e"
        by (auto simp: processx__connection_find_chars_def s)
      with k show ?thesis by simp
    next
      case (Inr m)
      have "(r, s') = (if utf8 c1 = [] \<or> maxchars = 0 then (Inr 0, c1, w1)
          else (case find_utf8_loop (utf8 c1) maxchars maxbytes 0 0 of
              Inl e \<Rightarrow> (Inl e, c1, w1) | Inr (chars, bytes) \<Rightarrow> (Inr bytes, c1, w1)))"
        using run None rd Inr
        by (auto simp: processx__connection_find_chars_def processx__connection_find_utf8_chars_def s
            split: sum.splits)
      then have "s' = (c1, w1)" "\<forall>n. r = Inr n \<longrightarrow> n = 0 \<or>
          (\<exists>chars. find_utf8_loop (utf8 c1) maxchars maxbytes 0 0 = Inr (chars, n))"
        by (auto split: if_splits sum.splits)
      with k show ?thesis by (fastforce dest: find_utf8_bound)
    qed
  qed
qed

lemma read_chars_step:
  assumes ok: "converter_ok ic dec" and src: "source_ok os (handle (fst s)) src" and inv: "conn_inv src s"
    and run: "processx_connection_read_chars os ic nchars s = (r, s')"
  shows "conn_inv src s' \<and> handle (fst s') = handle (fst s) \<and> raw_mode (fst s') = raw_mode (fst s) \<and>
    text_of ic dec src s = (case r of Inl _ \<Rightarrow> [] | Inr str \<Rightarrow> str) @ text_of ic dec src s'"
proof -
  obtain q c1 w1 where f: "processx__connection_find_chars os ic nchars (-1) s = (q, c1, w1)"
    by (metis prod_cases3)
  note F = find_chars_step [OF ok src inv f]
  then have k: "keeps ic dec src s (c1, w1)" by simp
  note K = keepsD [OF k]
  show ?thesis
  proof (cases q)
    case (Inl e)
    with run f have "r = Inl e" "s' = (c1, w1)" by (auto simp: processx_connection_read_chars_def)
    with K show ?thesis by simp
  next
    case (Inr n)
    with F have n: "n \<le> length (utf8 c1)" by simp
    have inv1: "conn_inv src (c1, w1)" using K by simp
    have "(r, s') = (case mkCharLenCE (take n (utf8 c1)) of
        Inl e \<Rightarrow> (Inl e, c1, w1) | Inr str \<Rightarrow> (Inr str, consume n c1, w1))"
      using run f Inr by (simp add: processx_connection_read_chars_def)
    with K consume_step(1) [OF inv1 n, of ic dec] consume_step(2) [OF inv1 n] show ?thesis
      by (auto simp: mkCharLenCE_def split: if_splits)
  qed
qed

lemma c_read_chars_step:
  assumes ok: "converter_ok ic dec" and src: "source_ok os (handle (fst s)) src" and inv: "conn_inv src s"
    and run: "processx_c_connection_read_chars os ic nbyte s = (r, s')"
  shows "conn_inv src s' \<and> handle (fst s') = handle (fst s) \<and> raw_mode (fst s') = raw_mode (fst s) \<and>
    text_of ic dec src s = (case r of Inl _ \<Rightarrow> [] | Inr str \<Rightarrow> str) @ text_of ic dec src s' \<and>
    (\<forall>str. r = Inr str \<longrightarrow> length str \<le> nbyte)"
proof (cases "nbyte < 4")
  case True
  with run inv show ?thesis by (auto simp: processx_c_connection_read_chars_def)
next
  case False
  obtain q c1 w1 where f: "processx__connection_find_chars os ic (-1) (int nbyte) s = (q, c1, w1)"
    by (metis prod_cases3)
  note F = find_chars_step [OF ok src inv f]
  then have k: "keeps ic dec src s (c1, w1)" by simp
  note K = keepsD [OF k]
  show ?thesis
  proof (cases q)
    case (Inl e)
    with run f False have "r = Inl e" "s' = (c1, w1)" by (auto simp: processx_c_connection_read_chars_def)
    with K show ?thesis by simp
  next
    case (Inr n)
    with F have n: "n \<le> length (utf8 c1)" "n \<le> nbyte" by auto
    have inv1: "conn_inv src (c1, w1)" using K by simp
    have "r = Inr (take n (utf8 c1))" "s' = (consume n c1, w1)"
      using run f Inr False by (auto simp: processx_c_connection_read_chars_def)
    with K n(2) consume_step(1) [OF inv1 n(1), of ic dec] consume_step(2) [OF inv1 n(1)] show ?thesis by auto
  qed
qed

section \<open>Lines\<close>

abbreviation before_newline :: "byte list \<Rightarrow> byte list" where
  "before_newline xs \<equiv> takeWhile (\<lambda>b. b \<noteq> newline_byte) xs"

text \<open>Lines with their terminators, and a line without the carriage return of a CRLF.\<close>

definition terminated :: "byte list list \<Rightarrow> byte list" where
  "terminated ls = concat (map (\<lambda>l. l @ [newline_byte]) ls)"

definition strip_cr :: "byte list \<Rightarrow> byte list" where
  "strip_cr l = (if l \<noteq> [] \<and> last l = return_byte then butlast l else l)"

lemma terminated_simps [simp]:
  "terminated [] = []" "terminated (l # ls) = l @ newline_byte # terminated ls"
  by (simp_all add: terminated_def)

lemma scan_takeWhile:
  "p \<le> length u \<Longrightarrow> scan u p (length u) = p + length (before_newline (drop p u))"
proof (induction u p "length u" rule: scan.induct)
  case (1 u p)
  show ?case
  proof (cases "p < length u \<and> u ! p \<noteq> newline_byte")
    case True
    then have "scan u p (length u) = scan u (p + 1) (length u)" by (subst scan.simps) simp
    moreover have "drop p u = u ! p # drop (p + 1) u" using True by (simp add: Cons_nth_drop_Suc)
    ultimately show ?thesis using 1 True by simp
  next
    case False
    then have "scan u p (length u) = p" by (subst scan.simps) auto
    moreover have "before_newline (drop p u) = []"
      using False "1.prems" by (cases "p < length u") (auto simp: Cons_nth_drop_Suc [symmetric])
    ultimately show ?thesis by simp
  qed
qed

lemma find_newline_eq:
  assumes "p \<le> length (utf8 c)"
  shows "processx__find_newline c p =
    (if newline_byte \<in> set (drop p (utf8 c)) then int (p + length (before_newline (drop p (utf8 c)))) else -1)"
proof -
  let ?d = "drop p (utf8 c)"
  have "length (before_newline ?d) < length ?d \<longleftrightarrow> newline_byte \<in> set ?d"
  proof
    assume "length (before_newline ?d) < length ?d"
    then show "newline_byte \<in> set ?d" by (metis (mono_tags, lifting) less_irrefl takeWhile_eq_all_conv)
  next
    assume "newline_byte \<in> set ?d"
    then have "before_newline ?d \<noteq> ?d" by (metis (mono_tags, lifting) takeWhile_eq_all_conv)
    then show "length (before_newline ?d) < length ?d"
      by (metis (no_types, lifting) append_eq_conv_conj le_neq_implies_less length_takeWhile_le takeWhile_eq_take take_all_iff order_refl)
  qed
  then show ?thesis
    using assms by (auto simp: processx__find_newline_def scan_takeWhile Let_def)
qed

text \<open>A text with a newline is a line, its terminator and the rest.\<close>

lemma split_at_newline:
  assumes "newline_byte \<in> set xs"
  obtains raw rest where "xs = raw @ newline_byte # rest" and "newline_byte \<notin> set raw"
    and "before_newline xs = raw"
proof -
  from split_list_first [OF assms] obtain raw rest where
    x: "xs = raw @ newline_byte # rest" "newline_byte \<notin> set raw" by blast
  moreover have "before_newline xs = raw" using x by (auto simp: takeWhile_append takeWhile_eq_all_conv)
  ultimately show thesis by (rule that)
qed

lemma count_lines_eq:
  assumes "p \<le> length (utf8 c)" and "lines \<le> nat maxlines"
  shows "count_lines c maxlines (processx__find_newline c p) lines =
    lines + min (nat maxlines - lines) (count_list (drop p (utf8 c)) newline_byte)"
  using assms
proof (induction "nat maxlines - lines" arbitrary: p lines)
  case 0
  then have "\<not> int lines < maxlines" by linarith
  with 0 show ?case by (subst count_lines.simps) auto
next
  case (Suc n)
  show ?case
  proof (cases "newline_byte \<in> set (drop p (utf8 c))")
    case False
    then show ?thesis
      using Suc.prems by (subst count_lines.simps) (simp add: find_newline_eq count_notin)
  next
    case True
    then obtain raw rest where d: "drop p (utf8 c) = raw @ newline_byte # rest" "newline_byte \<notin> set raw"
        "before_newline (drop p (utf8 c)) = raw" by (rule split_at_newline)
    have nl: "processx__find_newline c p = int (p + length raw)"
      using True d(3) Suc.prems(1) by (simp add: find_newline_eq)
    have len: "p + length raw + 1 \<le> length (utf8 c)"
      using arg_cong [OF d(1), of length] Suc.prems(1) by simp
    have rest: "drop (p + length raw + 1) (utf8 c) = rest"
      using arg_cong [OF d(1), of "drop (length raw + 1)"] by (simp add: add.commute add.left_commute)
    have "count_lines c maxlines (processx__find_newline c p) lines =
        count_lines c maxlines (processx__find_newline c (p + length raw + 1)) (lines + 1)"
    proof -
      have "int lines < maxlines" using Suc.hyps(2) by linarith
      then show ?thesis
        using nl by (subst count_lines.simps) (simp add: nat_add_distrib algebra_simps)
    qed
    also have "\<dots> = lines + 1 + min (nat maxlines - (lines + 1)) (count_list rest newline_byte)"
      using Suc.hyps(1) [of "lines + 1" "p + length raw + 1"] Suc.hyps(2) len rest by simp
    also have "\<dots> = lines + min (nat maxlines - lines) (count_list (drop p (utf8 c)) newline_byte)"
      using Suc.hyps(2) d(1,2) by (simp add: count_notin)
    finally show ?thesis .
  qed
qed

text \<open>
  What the loop over the lines makes of \<open>k\<close> lines that are there: the lines without their
  terminators and without the carriage return before one.
\<close>

lemma make_lines_eq:
  assumes "-1 \<le> nl" and "nat (nl + 1) \<le> length (utf8 c)" and "0 \<le> nl \<longrightarrow> utf8 c ! nat nl = newline_byte"
    and "k \<le> count_list (drop (nat (nl + 1)) (utf8 c)) newline_byte" and "make_lines c k nl = Inr (ls, nl')"
  shows "\<exists>raws. length raws = k \<and> (\<forall>l \<in> set raws. newline_byte \<notin> set l) \<and> ls = map strip_cr raws \<and>
    drop (nat (nl + 1)) (utf8 c) = terminated raws @ drop (nat (nl' + 1)) (utf8 c) \<and>
    nl \<le> nl' \<and> nat (nl' + 1) \<le> length (utf8 c)"
  using assms
proof (induction k arbitrary: nl ls)
  case 0
  then show ?case by (intro exI [where x = "[]"]) auto
next
  case (Suc k)
  let ?u = "utf8 c" and ?p = "nat (nl + 1)"
  have "newline_byte \<in> set (drop ?p ?u)"
    using Suc.prems(4) by (metis Suc_le_lessD count_notin not_less_zero)
  then obtain raw rest where d: "drop ?p ?u = raw @ newline_byte # rest" "newline_byte \<notin> set raw"
      "before_newline (drop ?p ?u) = raw" by (rule split_at_newline)
  define eol where "eol = processx__find_newline c ?p"
  have eol: "eol = int (?p + length raw)"
    using d Suc.prems(2) by (simp add: eol_def find_newline_eq)
  have succ: "nat (eol + 1) = ?p + length raw + 1" and eol_nat: "nat eol = ?p + length raw"
    and eol_int: "eol = nl + 1 + int (length raw)"
    using eol Suc.prems(1) by linarith+
  have len: "nat (eol + 1) \<le> length ?u"
    using arg_cong [OF d(1), of length] Suc.prems(2) by (simp add: succ)
  have rest: "drop (nat (eol + 1)) ?u = rest"
    using arg_cong [OF d(1), of "drop (length raw + 1)"] unfolding succ by (simp add: add.commute add.left_commute)
  have at: "?u ! (?p + i) = (raw @ newline_byte # rest) ! i" if "i < length raw + 1" for i
    using that d(1) Suc.prems(2) by (metis nth_drop)
  have at_eol: "?u ! nat eol = newline_byte" using at [of "length raw"] by (simp add: eol_nat)
  have cr: "(eol > 0 \<and> ?u ! nat (eol - 1) = return_byte) = (raw \<noteq> [] \<and> last raw = return_byte)"
  proof (cases "raw = []")
    case True
    then have "nat (eol - 1) = nat nl" "eol > 0 \<longrightarrow> 0 \<le> nl" using eol Suc.prems(1) by auto
    with True Suc.prems(3) show ?thesis by auto
  next
    case False
    have "nat (eol - 1) = ?p + (length raw - 1)" using eol False by (cases raw) auto
    moreover have "0 < eol" using eol_int False Suc.prems(1) by (cases raw) auto
    ultimately show ?thesis using at [of "length raw - 1"] False
      by (auto simp: nth_append last_conv_nth)
  qed
  define sr where "sr = (if eol > 0 \<and> ?u ! nat (eol - 1) = return_byte then 1 else 0 :: int)"
  have sub: "substring ?u (nl + 1) (eol - nl - 1 - sr) = strip_cr raw"
    using d(1) eol Suc.prems(1) cr
    by (auto simp: substring_def sr_def strip_cr_def butlast_conv_take nat_diff_distrib' nat_add_distrib)
  from Suc.prems(5) obtain ls' where
    rec: "make_lines c k eol = Inr (ls', nl')" and ls: "ls = strip_cr raw # ls'"
    by (auto simp: Let_def eol_def [symmetric] sr_def [symmetric] sub mkCharLenCE_def
        split: sum.splits prod.splits if_splits)
  have "k \<le> count_list (drop (nat (eol + 1)) ?u) newline_byte"
    using Suc.prems(4) rest d(1,2) by (simp add: count_notin)
  moreover have "-1 \<le> eol" using eol by linarith
  ultimately obtain raws where "length raws = k" "\<forall>l \<in> set raws. newline_byte \<notin> set l" "ls' = map strip_cr raws"
      "drop (nat (eol + 1)) ?u = terminated raws @ drop (nat (nl' + 1)) ?u" "eol \<le> nl'" "nat (nl' + 1) \<le> length ?u"
    using Suc.IH [OF _ len _ _ rec] at_eol by blast
  with ls d rest eol_int Suc.prems(1) show ?case
    by (intro exI [where x = "raw # raws"]) auto
qed

lemma make_lines_error: "make_lines c k nl = Inl e \<Longrightarrow> e = R_error ''embedded nul in string''"
  by (induction k arbitrary: nl e)
    (auto simp: Let_def mkCharLenCE_def split: sum.splits prod.splits if_splits)

lemma count_lines_start:
  assumes "newline = -1 \<or> newline = processx__find_newline c 0"
  shows "count_lines c maxlines newline 0 \<le> nat maxlines \<and>
    count_lines c maxlines newline 0 \<le> count_list (drop (nat (-1 + 1)) (utf8 c)) newline_byte"
proof (cases "newline = -1")
  case True
  then show ?thesis by (subst (1 2) count_lines.simps) simp
next
  case False
  with assms have "newline = processx__find_newline c 0" by simp
  then show ?thesis using count_lines_eq [of 0 c 0 maxlines] by simp
qed

lemma first_newline:
  assumes "0 \<le> k" and "nat k < length (utf8 c)" and "utf8 c ! nat k = newline_byte"
    and "\<forall>m < nat k. utf8 c ! m \<noteq> newline_byte"
  shows "k = processx__find_newline c 0"
proof -
  have "before_newline (utf8 c) = take (nat k) (utf8 c)"
    using assms by (intro takeWhile_eq_take_P_nth) auto
  moreover have "newline_byte \<in> set (utf8 c)" using assms by (metis nth_mem)
  ultimately show ?thesis using assms by (simp add: find_newline_eq)
qed

lemma find_lines_step:
  assumes ok: "converter_ok ic dec" and src: "source_ok os (handle (fst s)) src" and inv: "conn_inv src s"
    and run: "processx__connection_find_lines fuel os ic n s = (r, s')"
  shows "keeps ic dec src s s' \<and>
    (\<forall>k eof. r = Inr (k, eof) \<longrightarrow> k \<le> nat (if n < 0 then 1000 else n) \<and>
       k \<le> count_list (drop (nat (-1 + 1)) (utf8 (fst s'))) newline_byte \<and> eof = unterminated_end (fst s')) \<and>
    (\<not> raw_mode (fst s) \<longrightarrow> length (text_of ic dec src s) < fuel \<longrightarrow> r \<noteq> Inl Out_of_fuel)"
proof -
  obtain c w where s: "s = (c, w)" by force
  let ?max = "if n < 0 then 1000 else n"
  show ?thesis
  proof (cases "check_valid_conn (Some c)")
    case (Some e)
    with run have "s' = s" "r = Inl e" by (auto simp: processx__connection_find_lines_def s)
    with keeps_refl [OF inv] Some show ?thesis by (auto simp: check_valid_conn_def split: if_splits)
  next
    case None
    obtain q c1 w1 where u: "processx__connection_read_until_newline fuel os ic s = (q, c1, w1)"
      by (metis prod_cases3)
    note U = read_until_newline_step [OF ok src inv u]
    have "(r, s') = (case q of Inl e \<Rightarrow> (Inl e, c1, w1) | Inr newline \<Rightarrow>
        (Inr (count_lines c1 ?max newline 0, unterminated_end c1), c1, w1))"
      using run None u by (auto simp: processx__connection_find_lines_def s andthen_def split: sum.splits)
    moreover have "newline = -1 \<or> newline = processx__find_newline c1 0" if "q = Inr newline" for newline
      using U that first_newline by auto
    ultimately show ?thesis
      using U count_lines_start [of _ c1 ?max] by (cases q) auto
  qed
qed

lemma read_lines_step:
  assumes ok: "converter_ok ic dec" and src: "source_ok os (handle (fst s)) src" and inv: "conn_inv src s"
    and run: "processx_connection_read_lines fuel os ic n s = (r, s')"
  shows "conn_inv src s' \<and> handle (fst s') = handle (fst s) \<and> raw_mode (fst s') = raw_mode (fst s) \<and>
    (case r of
       Inl e \<Rightarrow> text_of ic dec src s = text_of ic dec src s' \<and>
         (\<not> raw_mode (fst s) \<longrightarrow> length (text_of ic dec src s) < fuel \<longrightarrow> e \<noteq> Out_of_fuel)
     | Inr out \<Rightarrow> \<exists>raws. (\<forall>l \<in> set raws. newline_byte \<notin> set l) \<and>
         length raws \<le> nat (if n < 0 then 1000 else n) \<and>
         (out = map strip_cr raws \<and> text_of ic dec src s = terminated raws @ text_of ic dec src s' \<or>
          (\<exists>rest. rest \<noteq> [] \<and> out = map strip_cr raws @ [rest] \<and>
             text_of ic dec src s = terminated raws @ rest \<and> text_of ic dec src s' = [])))"
proof -
  obtain q c1 w1 where f: "processx__connection_find_lines fuel os ic n s = (q, c1, w1)"
    by (metis prod_cases3)
  note F = find_lines_step [OF ok src inv f]
  then have k: "keeps ic dec src s (c1, w1)" by simp
  note K = keepsD [OF k]
  have inv1: "conn_inv src (c1, w1)" using K by simp
  show ?thesis
  proof (cases q)
    case (Inl e)
    with run f have "r = Inl e" "s' = (c1, w1)" by (auto simp: processx_connection_read_lines_def)
    with K F Inl show ?thesis by simp
  next
    case (Inr p)
    obtain m eof where p: "p = (m, eof)" by force
    with F Inr have m: "m \<le> nat (if n < 0 then 1000 else n)"
        "m \<le> count_list (drop (nat (-1 + 1)) (utf8 c1)) newline_byte" and eof: "eof = unterminated_end c1"
      by simp_all
    show ?thesis
    proof (cases "make_lines c1 m (-1)")
      case (Inl e)
      with run f Inr p have s': "r = Inl e" "s' = (c1, w1)" by (auto simp: processx_connection_read_lines_def)
      have "e \<noteq> Out_of_fuel" using make_lines_error [OF Inl] by auto
      with s' K show ?thesis by simp
    next
      case ml: (Inr res)
      obtain ls nl where res: "res = (ls, nl)" by force
      obtain raws where R: "length raws = m" "\<forall>l \<in> set raws. newline_byte \<notin> set l" "ls = map strip_cr raws"
          "utf8 c1 = terminated raws @ drop (nat (nl + 1)) (utf8 c1)" "-1 \<le> nl" "nat (nl + 1) \<le> length (utf8 c1)"
        using make_lines_eq [of "-1" c1 m ls nl] m(2) ml res by auto
      have t: "terminated raws = take (nat (nl + 1)) (utf8 c1)"
        using R(4,6) by (metis append_eq_conv_conj append_take_drop_id length_drop length_take min.absorb2 same_append_eq append_eq_append_conv)
      show ?thesis
      proof (cases eof)
        case False
        with run f Inr p ml res have s': "r = Inr ls" "s' = ((if nl \<ge> 0 then consume (nat (nl + 1)) c1 else c1), w1)"
          by (auto simp: processx_connection_read_lines_def)
        have "s' = (consume (nat (nl + 1)) c1, w1)"
          using s'(2) R(5) by (auto simp: consume_def)
        with s'(1) R K m(1) t consume_step(1) [OF inv1 R(6), of ic dec] consume_step(2) [OF inv1 R(6)]
        show ?thesis by auto
      next
        case True
        let ?len = "length (utf8 c1)"
        from True eof have ue: "is_eof_raw' c1" "utf8 c1 \<noteq> []" "buffer c1 = []" "last (utf8 c1) \<noteq> newline_byte"
          by (auto simp: unterminated_end_def)
        have sub: "substring (utf8 c1) (nl + 1) (int ?len - 1 - nl) = drop (nat (nl + 1)) (utf8 c1)"
          using R(5,6) by (simp add: substring_def)
        show ?thesis
        proof (cases "0 \<in> set (drop (nat (nl + 1)) (utf8 c1))")
          case True
          with run f Inr p ml res \<open>eof\<close> sub have "s' = (c1, w1)" "\<exists>m. r = Inl (R_error m)"
            by (auto simp: processx_connection_read_lines_def mkCharLenCE_def Let_def)
          with K show ?thesis by auto
        next
          case no_nul: False
          with run f Inr p ml res \<open>eof\<close> sub
          have s': "r = Inr (ls @ [drop (nat (nl + 1)) (utf8 c1)])" "s' = (consume ?len c1, w1)"
            by (auto simp: processx_connection_read_lines_def mkCharLenCE_def Let_def)
          have rest: "drop (nat (nl + 1)) (utf8 c1) \<noteq> []"
          proof
            assume nil: "drop (nat (nl + 1)) (utf8 c1) = []"
            with R(4) ue(2) have "raws \<noteq> []" by auto
            then obtain rs l where "raws = rs @ [l]" by (cases raws rule: rev_cases) auto
            with R(4) nil ue(4) show False by (simp add: terminated_def)
          qed
          have tx: "text_of ic dec src (c1, w1) = utf8 c1" by (rule text_at_end [OF ok inv1 ue(1,3)])
          then have "text_of ic dec src s' = []"
            using consume_step(1) [OF inv1 order_refl, of ic dec] s'(2) by simp
          with s' R K m(1) rest tx consume_step(2) [OF inv1 order_refl] show ?thesis
            by (auto intro!: exI [where x = raws] exI [where x = "drop (nat (nl + 1)) (utf8 c1)"])
        qed
      qed
    qed
  qed
qed

section \<open>Sessions\<close>

text \<open>
  The contract between a connection and its readers: a request that succeeds takes a chunk off
  the front of what is left, and the reply accounts for the chunk; a request that fails takes
  nothing.
\<close>

text \<open>The replies to a list of requests, with the requests they answer, and the final state.\<close>

fun session :: "('q \<Rightarrow> ('s, 'a) operation) \<Rightarrow> 'q list \<Rightarrow> 's \<Rightarrow> ('q \<times> 'a) list \<times> 's" where
  "session serve [] s = ([], s)"
| "session serve (q # qs) s =
     (case serve q s of
        (Inl _, s') \<Rightarrow> session serve qs s'
      | (Inr x, s') \<Rightarrow> (case session serve qs s' of (xs, s'') \<Rightarrow> ((q, x) # xs, s'')))"

locale text_server =
  fixes serve :: "'q \<Rightarrow> 's \<Rightarrow> (r_error + 'a) \<times> 's" and accounts :: "'q \<Rightarrow> 'a \<Rightarrow> byte list \<Rightarrow> bool"
    and rest :: "'s \<Rightarrow> byte list" and inv :: "'s \<Rightarrow> bool"
  assumes serve_inv: "inv s \<Longrightarrow> inv (snd (serve q s))"
    and serve_reply: "inv s \<Longrightarrow> serve q s = (Inr x, s') \<Longrightarrow> \<exists>chunk. accounts q x chunk \<and> rest s = chunk @ rest s'"
    and serve_error: "inv s \<Longrightarrow> serve q s = (Inl e, s') \<Longrightarrow> rest s' = rest s"
begin

lemma session_inv: "inv s \<Longrightarrow> inv (snd (session serve qs s))"
proof (induction qs arbitrary: s)
  case (Cons q qs)
  obtain r s' where r: "serve q s = (r, s')" by (meson surj_pair)
  have "inv s'" using serve_inv [OF Cons.prems, of q] r by simp
  with Cons.IH [of s'] r show ?case by (auto split: sum.splits prod.splits)
qed simp

lemma session_accounts:
  assumes "inv s" and "session serve qs s = (xs, s')"
  shows "\<exists>chunks. list_all2 (\<lambda>(q, x) chunk. accounts q x chunk) xs chunks \<and> rest s = concat chunks @ rest s'"
  using assms
proof (induction qs arbitrary: s xs)
  case Nil
  then show ?case by (intro exI [where x = "[]"]) simp
next
  case (Cons q qs)
  obtain r t where r: "serve q s = (r, t)" by (meson surj_pair)
  have t: "inv t" using serve_inv [OF Cons.prems(1), of q] r by simp
  show ?case
  proof (cases r)
    case (Inl e)
    with Cons.IH [OF t, of xs] Cons.prems r serve_error [of s q e t] show ?thesis by simp
  next
    case (Inr x)
    obtain ys u where ys: "session serve qs t = (ys, u)" by (meson surj_pair)
    with Cons.prems r Inr have xs: "xs = (q, x) # ys" "u = s'" by auto
    from Cons.IH [OF t, of ys] ys xs(2) obtain chunks where
      "list_all2 (\<lambda>(q, x) chunk. accounts q x chunk) ys chunks" "rest t = concat chunks @ rest s'" by auto
    moreover obtain chunk where "accounts q x chunk" "rest s = chunk @ rest t"
      using serve_reply [of s q x t] Cons.prems(1) r Inr by auto
    ultimately show ?thesis using xs(1) by (intro exI [where x = "chunk # chunks"]) simp
  qed
qed

end

text \<open>The requests of the R interface and of the C interface.\<close>

datatype request = Read_chars int | C_read_chars nat | Read_lines int

fun serve :: "nat \<Rightarrow> 'w os \<Rightarrow> 'cd iconv \<Rightarrow> request \<Rightarrow> ('cd conn \<times> 'w, byte list list) operation" where
  "serve fuel os ic (Read_chars n) s = andthen (processx_connection_read_chars os ic n) (\<lambda>str. ret [str]) s"
| "serve fuel os ic (C_read_chars n) s = andthen (processx_c_connection_read_chars os ic n) (\<lambda>str. ret [str]) s"
| "serve fuel os ic (Read_lines n) s = processx_connection_read_lines fuel os ic n s"

text \<open>
  How a reply accounts for the text taken: characters are the text itself; lines are the text cut
  at the newlines, each without its terminator and without a carriage return before it, plus
  possibly an unterminated rest.
\<close>

fun accounts_for :: "request \<Rightarrow> byte list list \<Rightarrow> byte list \<Rightarrow> bool" where
  "accounts_for (Read_chars n) reply chunk = (reply = [chunk])"
| "accounts_for (C_read_chars n) reply chunk = (reply = [chunk] \<and> length chunk \<le> n)"
| "accounts_for (Read_lines n) reply chunk =
     (\<exists>raws. (\<forall>l \<in> set raws. newline_byte \<notin> set l) \<and> length raws \<le> nat (if n < 0 then 1000 else n) \<and>
        (reply = map strip_cr raws \<and> chunk = terminated raws \<or>
         (\<exists>rest. rest \<noteq> [] \<and> reply = map strip_cr raws @ [rest] \<and> chunk = terminated raws @ rest)))"

definition readable :: "'w os \<Rightarrow> 'cd iconv \<Rightarrow> ('cd \<Rightarrow> byte list \<Rightarrow> byte list) \<Rightarrow> ('w \<Rightarrow> byte list) \<Rightarrow>
    'cd conn \<times> 'w \<Rightarrow> bool" where
  "readable os ic dec src s \<longleftrightarrow> converter_ok ic dec \<and> source_ok os (handle (fst s)) src \<and> conn_inv src s"

lemma serve_step:
  assumes "readable os ic dec src s" and "serve fuel os ic q s = (r, s')"
  shows "readable os ic dec src s' \<and> raw_mode (fst s') = raw_mode (fst s) \<and>
    (case r of Inl _ \<Rightarrow> text_of ic dec src s' = text_of ic dec src s
     | Inr x \<Rightarrow> \<exists>chunk. accounts_for q x chunk \<and> text_of ic dec src s = chunk @ text_of ic dec src s')"
proof -
  from assms(1) have H: "converter_ok ic dec" "source_ok os (handle (fst s)) src" "conn_inv src s"
    by (simp_all add: readable_def)
  show ?thesis
  proof (cases q)
    case (Read_chars n)
    obtain p t where run: "processx_connection_read_chars os ic n s = (p, t)" by (meson surj_pair)
    with assms(2) Read_chars have "s' = t" "r = (case p of Inl e \<Rightarrow> Inl e | Inr str \<Rightarrow> Inr [str])"
      by (auto simp: andthen_def split: sum.splits)
    with read_chars_step [OF H run] H Read_chars show ?thesis by (cases p) (auto simp: readable_def)
  next
    case (C_read_chars n)
    obtain p t where run: "processx_c_connection_read_chars os ic n s = (p, t)" by (meson surj_pair)
    with assms(2) C_read_chars have "s' = t" "r = (case p of Inl e \<Rightarrow> Inl e | Inr str \<Rightarrow> Inr [str])"
      by (auto simp: andthen_def split: sum.splits)
    with c_read_chars_step [OF H run] H C_read_chars show ?thesis by (cases p) (auto simp: readable_def)
  next
    case (Read_lines n)
    with assms(2) have run: "processx_connection_read_lines fuel os ic n s = (r, s')" by simp
    note L = read_lines_step [OF H run]
    show ?thesis
    proof (cases r)
      case (Inl e)
      with L H show ?thesis by (simp add: readable_def)
    next
      case (Inr out)
      with L obtain raws where raws: "\<forall>l \<in> set raws. newline_byte \<notin> set l"
          "length raws \<le> nat (if n < 0 then 1000 else n)"
        and alt: "out = map strip_cr raws \<and> text_of ic dec src s = terminated raws @ text_of ic dec src s' \<or>
          (\<exists>rest. rest \<noteq> [] \<and> out = map strip_cr raws @ [rest] \<and>
             text_of ic dec src s = terminated raws @ rest \<and> text_of ic dec src s' = [])"
        by auto
      from alt have "\<exists>chunk. accounts_for q out chunk \<and> text_of ic dec src s = chunk @ text_of ic dec src s'"
      proof (elim disjE exE conjE)
        assume "out = map strip_cr raws" "text_of ic dec src s = terminated raws @ text_of ic dec src s'"
        with raws Read_lines show ?thesis by (intro exI [where x = "terminated raws"]) auto
      next
        fix rest assume "rest \<noteq> []" "out = map strip_cr raws @ [rest]"
          "text_of ic dec src s = terminated raws @ rest" "text_of ic dec src s' = []"
        with raws Read_lines show ?thesis by (intro exI [where x = "terminated raws @ rest"]) auto
      qed
      with L H Inr show ?thesis by (simp add: readable_def)
    qed
  qed
qed

interpretation conn: text_server "serve fuel os ic" accounts_for "text_of ic dec src" "readable os ic dec src"
  for fuel os ic dec src
proof
  fix s q assume inv: "readable os ic dec src s"
  show "readable os ic dec src (snd (serve fuel os ic q s))"
    using serve_step [OF inv, of fuel q] by (metis prod.collapse)
next
  fix s q x s' assume "readable os ic dec src s" "serve fuel os ic q s = (Inr x, s')"
  from serve_step [OF this]
  show "\<exists>chunk. accounts_for q x chunk \<and> text_of ic dec src s = chunk @ text_of ic dec src s'" by simp
next
  fix s q e s' assume "readable os ic dec src s" "serve fuel os ic q s = (Inl e, s')"
  from serve_step [OF this] show "text_of ic dec src s' = text_of ic dec src s" by simp
qed

section \<open>A system and a converter to instantiate the parameters with\<close>

text \<open>
  A descriptor that delivers the listed pieces, \<open>None\<close> standing for a moment without data, and a
  converter for text that is UTF-8 already.
\<close>

type_synonym pieces = "byte list option list"

fun read_pieces :: "nat \<Rightarrow> pieces \<Rightarrow> (errno + byte list) \<times> pieces" where
  "read_pieces n [] = (Inr [], [])"
| "read_pieces n (None # ps) = (Inl EAGAIN, ps)"
| "read_pieces n (Some bs # ps) =
     (if bs = [] then read_pieces n ps
      else if length bs \<le> n then (Inr bs, ps) else (Inr (take n bs), Some (drop n bs) # ps))"

definition pieces_left :: "pieces \<Rightarrow> byte list" where
  "pieces_left ps = concat (map (case_option [] id) ps)"

definition pieces_os :: "pieces os" where
  "pieces_os = refusing_os\<lparr>os_read := \<lambda>fd. read_pieces\<rparr>"

definition utf8_iconv :: "unit iconv" where
  "utf8_iconv = \<lparr>iconv_open = \<lambda>e. (),
     iconv_conv = \<lambda>cd xs n. if length xs \<le> n then (None, length xs, xs, ()) else (Some E2BIG, n, take n xs, ())\<rparr>"

lemma read_pieces_source:
  "case read_pieces n ps of
     (Inr bs, ps') \<Rightarrow> length bs \<le> n \<and> pieces_left ps = bs @ pieces_left ps' \<and>
       (bs = [] \<and> 0 < n \<longrightarrow> pieces_left ps = [])
   | (Inl e, ps') \<Rightarrow> e = EAGAIN \<and> pieces_left ps' = pieces_left ps"
  by (induction n ps rule: read_pieces.induct)
    (auto simp: pieces_left_def split: prod.splits sum.splits)

lemma pieces_source: "source_ok pieces_os fd pieces_left"
  unfolding source_ok_def
proof (intro conjI allI impI)
  fix n w r w' assume "os_read pieces_os fd n w = (r, w')"
  then have "read_pieces n w = (r, w')" by (simp add: pieces_os_def)
  with read_pieces_source [where n = n and ps = w]
  show "case r of
      Inr bs \<Rightarrow> length bs \<le> n \<and> pieces_left w = bs @ pieces_left w' \<and> (bs = [] \<and> 0 < n \<longrightarrow> pieces_left w = [])
    | Inl e \<Rightarrow> pieces_left w' = pieces_left w \<and> (e = EIO \<longrightarrow> pieces_left w = [])"
    by (auto split: sum.splits)
next
  fix n w show "pieces_left (snd (os_malloc pieces_os n w)) = pieces_left w"
    by (simp add: pieces_os_def refusing_os_def)
qed

lemma utf8_converter: "converter_ok utf8_iconv (\<lambda>cd bs. bs)"
  by (auto simp: converter_ok_def utf8_iconv_def)

lemma fresh_inv:
  assumes "buffer_ptr c = Null" and "buffer c = []" and "utf8 c = []" and "utf8_ptr c = Null"
    and "utf8_allocated_size c = 0" and "\<not> is_eof' c" and "\<not> is_eof_raw' c"
  shows "conn_inv src (c, w)"
  using assms by (simp add: conn_inv_def eof_inv_def memory_inv_def)

lemma pipe_conn_readable: "readable pieces_os utf8_iconv (\<lambda>cd bs. bs) pieces_left (pipe_conn fd, ps)"
  by (simp add: readable_def utf8_converter pieces_source fresh_inv pipe_conn_def)

section \<open>Properties\<close>

text \<open>C1: in a session of any number of character and line requests, of the R and of the C interface,
  the replies account for the text of the connection in order and without loss or repetition,
  whatever the sizes of the reads, the points where data is missing and the errors in between;
  when the connection reports the end of the file, the whole text was delivered.\<close>

theorem session_delivers_text:
  assumes "readable os ic dec src s" and "session (serve fuel os ic) qs s = (replies, s')"
  shows "\<exists>chunks. list_all2 (\<lambda>(q, reply) chunk. accounts_for q reply chunk) replies chunks \<and>
    text_of ic dec src s = concat chunks @ text_of ic dec src s' \<and>
    (is_eof' (fst s') \<and> \<not> raw_mode (fst s') \<longrightarrow> text_of ic dec src s = concat chunks)"
proof -
  have "readable os ic dec src s'" using conn.session_inv [OF assms(1), of fuel qs] assms(2) by simp
  then have "is_eof' (fst s') \<and> \<not> raw_mode (fst s') \<longrightarrow> text_of ic dec src s' = []"
    by (cases s') (auto simp: readable_def conn_inv_def eof_inv_def text_of_def converter_empty)
  with conn.session_accounts [OF assms] show ?thesis by auto
qed

theorem session_delivers_text_witness:
  "\<exists>chunks. text_of utf8_iconv (\<lambda>cd bs. bs) pieces_left (pipe_conn 5, [Some [97, 98], None, Some [99]]) =
     concat chunks @ text_of utf8_iconv (\<lambda>cd bs. bs) pieces_left
       (snd (session (serve 5 pieces_os utf8_iconv) [Read_chars 1, Read_lines 1]
         (pipe_conn 5, [Some [97, 98], None, Some [99]])))"
proof -
  obtain xs s' where run: "session (serve 5 pieces_os utf8_iconv) [Read_chars 1, Read_lines 1]
      (pipe_conn 5, [Some [97, 98], None, Some [99]]) = (xs, s')" by (meson surj_pair)
  from session_delivers_text [OF pipe_conn_readable run] run show ?thesis by auto
qed

text \<open>C6: looking for a line always ends: outside raw mode \<open>processx_connection_read_lines\<close> returns or
  throws a proper R error, for every source of finite length and however it is cut into reads; one
  iteration for every byte of the text is enough.\<close>

theorem read_lines_terminates:
  assumes "readable os ic dec src s" and "\<not> raw_mode (fst s)" and "length (text_of ic dec src s) < fuel"
  shows "fst (processx_connection_read_lines fuel os ic n s) \<noteq> Inl Out_of_fuel"
proof -
  obtain r s' where run: "processx_connection_read_lines fuel os ic n s = (r, s')" by (meson surj_pair)
  with read_lines_step [OF _ _ _ run, of dec src] assms show ?thesis
    by (auto simp: readable_def split: sum.splits)
qed

theorem read_lines_terminates_witness:
  "fst (processx_connection_read_lines 4 pieces_os utf8_iconv 1 (pipe_conn 5, [Some [97, 98], None, Some [10]]))
     \<noteq> Inl Out_of_fuel"
  by (rule read_lines_terminates [OF pipe_conn_readable])
    (simp_all add: text_of_def pieces_left_def pipe_conn_def)

end
