(* ===== verification/Conn_Utf8.thy ===== *)
theory Conn_Utf8
  imports Conn_Session
begin

text \<open>
  The UTF-8 buffer holds whole characters at all times, because the converter writes whole
  characters and the readers take whole characters or stop at a newline. The search for the
  characters to hand out therefore never meets its internal error, and it finds as many as the
  limits allow.
\<close>

section \<open>Whole characters\<close>

text \<open>The length of a character by its first byte, as the code computes it.\<close>

definition char_length :: "byte \<Rightarrow> nat option" where
  "char_length b =
     (let c = unat b in if c < 128 then Some 1 else if c < 0xc0 \<or> c \<ge> 0xfe then None
      else Some (processx__utf8_length ! (c mod 64)))"

definition utf8_char :: "byte list \<Rightarrow> bool" where
  "utf8_char ch \<longleftrightarrow> ch \<noteq> [] \<and> char_length (hd ch) = Some (length ch) \<and>
     (\<forall>x \<in> set (tl ch). 128 \<le> unat x \<and> unat x < 192)"

definition whole :: "byte list \<Rightarrow> bool" where
  "whole xs \<longleftrightarrow> (\<exists>chs. xs = concat chs \<and> (\<forall>ch \<in> set chs. utf8_char ch))"

lemma whole_Nil [simp]: "whole []"
  unfolding whole_def by (rule exI [where x = "[]"]) simp

lemma whole_append: "whole xs \<Longrightarrow> whole ys \<Longrightarrow> whole (xs @ ys)"
  unfolding whole_def by (metis Un_iff concat_append set_append)

lemma whole_concat: "\<forall>ch \<in> set chs. utf8_char ch \<Longrightarrow> whole (concat chs)"
  unfolding whole_def by blast

text \<open>An ASCII byte is a character of its own, wherever it stands.\<close>

lemma whole_split_ascii:
  assumes "whole (a @ x # b)" and "unat x < 128"
  shows "whole a \<and> whole b"
proof -
  have "\<forall>ch \<in> set chs. utf8_char ch \<Longrightarrow> concat chs = a @ x # b \<Longrightarrow> whole a \<and> whole b" for chs
  proof (induction chs arbitrary: a)
    case (Cons ch chs)
    have ch: "utf8_char ch" using Cons.prems(1) by simp
    show ?case
    proof (cases "length ch \<le> length a")
      case True
      with Cons.prems(2) obtain a' where a: "a = ch @ a'" "concat chs = a' @ x # b"
        by (auto simp: append_eq_append_conv2 Cons_eq_append_conv)
      with Cons.IH [of a'] Cons.prems(1) have "whole a'" "whole b" by auto
      moreover have "whole ch" using whole_concat [of "[ch]"] ch by simp
      ultimately show ?thesis using a(1) whole_append by blast
    next
      case False
      then have x: "ch ! length a = x" "take (length a) ch = a"
        using arg_cong [OF Cons.prems(2), of "\<lambda>l. l ! length a"]
          arg_cong [OF Cons.prems(2), of "take (length a)"] by (simp_all add: nth_append)
      have "a = []"
      proof (rule ccontr)
        assume "a \<noteq> []"
        with False x(1) have "x \<in> set (tl ch)" by (cases a; cases ch) auto
        with ch assms(2) show False by (auto simp: utf8_char_def)
      qed
      moreover have "ch = [x]"
        using ch x(1) \<open>a = []\<close> assms(2) by (cases ch) (auto simp: utf8_char_def char_length_def Let_def)
      ultimately show ?thesis using Cons.prems whole_concat [of chs] by simp
    qed
  qed simp
  with assms(1) show ?thesis unfolding whole_def by metis
qed

section \<open>The characters that are found\<close>

text \<open>
  How many of the characters \<open>chs\<close> fit: as many as the limits allow; a negative limit is no limit.
\<close>

fun fitting :: "byte list list \<Rightarrow> int \<Rightarrow> int \<Rightarrow> nat" where
  "fitting [] maxchars maxbytes = 0"
| "fitting (ch # chs) maxchars maxbytes =
     (if maxchars = 0 \<or> maxbytes = 0 \<or> (maxbytes > 0 \<and> int (length ch) > maxbytes) then 0
      else Suc (fitting chs (if maxchars > 0 then maxchars - 1 else maxchars)
             (if maxbytes > 0 then maxbytes - int (length ch) else maxbytes)))"

lemma find_utf8_fitting:
  assumes "\<forall>ch \<in> set chs. utf8_char ch"
  shows "find_utf8_loop (concat chs) maxchars maxbytes chars bytes =
    Inr (chars + fitting chs maxchars maxbytes,
         bytes + length (concat (take (fitting chs maxchars maxbytes) chs)))"
  using assms
proof (induction chs arbitrary: maxchars maxbytes chars bytes)
  case Nil
  then show ?case by (subst find_utf8_loop.simps) simp
next
  case (Cons ch chs)
  have ch: "utf8_char ch" using Cons.prems by simp
  then obtain b bs where b: "ch = b # bs" by (cases ch) (auto simp: utf8_char_def)
  from ch b have len: "char_length b = Some (length ch)" by (simp add: utf8_char_def)
  show ?case
  proof (cases "maxchars = 0 \<or> maxbytes = 0")
    case True
    then show ?thesis by (subst find_utf8_loop.simps) auto
  next
    case more: False
    show ?thesis
    proof (cases "unat b < 128")
      case True
      with len b have "bs = []" by (simp add: char_length_def Let_def)
      with True more b Cons show ?thesis
        by (subst find_utf8_loop.simps) (auto simp: Let_def)
    next
      case False
      with len have hi: "\<not> unat b < 0xc0" "\<not> unat b \<ge> 0xfe" "processx__utf8_length ! (unat b mod 64) = length ch"
        by (auto simp: char_length_def Let_def split: if_splits)
      show ?thesis
      proof (cases "maxbytes > 0 \<and> int (length ch) > maxbytes")
        case True
        with more False hi b show ?thesis
          by (subst find_utf8_loop.simps) (simp add: Let_def)
      next
        case fits: False
        have "find_utf8_loop (concat (ch # chs)) maxchars maxbytes chars bytes =
            find_utf8_loop (concat chs) (if maxchars > 0 then maxchars - 1 else maxchars)
              (if maxbytes > 0 then maxbytes - int (length ch) else maxbytes) (chars + 1) (bytes + length ch)"
          using more False hi b fits by (subst find_utf8_loop.simps) (simp add: Let_def)
        with Cons fits more show ?thesis by simp
      qed
    qed
  qed
qed

lemma fitting_le: "fitting chs maxchars maxbytes \<le> length chs"
  by (induction chs maxchars maxbytes rule: fitting.induct) auto

lemma fitting_chars: "0 \<le> maxchars \<Longrightarrow> int (fitting chs maxchars maxbytes) \<le> maxchars"
  by (induction chs maxchars maxbytes rule: fitting.induct) auto

lemma fitting_bytes:
  "0 \<le> maxbytes \<Longrightarrow> int (length (concat (take (fitting chs maxchars maxbytes) chs))) \<le> maxbytes"
  by (induction chs maxchars maxbytes rule: fitting.induct) auto

lemma fitting_maximal:
  assumes "\<forall>ch \<in> set chs. ch \<noteq> []" and "fitting chs maxchars maxbytes < length chs"
  shows "int (fitting chs maxchars maxbytes) = maxchars \<or>
    (0 \<le> maxbytes \<and> maxbytes < int (length (concat (take (Suc (fitting chs maxchars maxbytes)) chs))))"
  using assms
proof (induction chs maxchars maxbytes rule: fitting.induct)
  case (2 ch chs maxchars maxbytes)
  show ?case
  proof (cases "maxchars = 0 \<or> maxbytes = 0 \<or> (maxbytes > 0 \<and> int (length ch) > maxbytes)")
    case True
    then show ?thesis using "2.prems"(1) by (auto simp: neq_Nil_conv)
  next
    case False
    with 2 show ?thesis by (auto split: if_splits)
  qed
qed simp

section \<open>Every operation keeps whole characters\<close>

definition whole_output :: "'cd iconv \<Rightarrow> bool" where
  "whole_output ic \<longleftrightarrow>
     (\<forall>cd xs n err k out cd'. iconv_conv ic cd xs n = (err, k, out, cd') \<longrightarrow> whole out)"

abbreviation whole_state :: "'cd conn \<times> 'w \<Rightarrow> bool" where
  "whole_state s \<equiv> whole (utf8 (fst s))"

lemma to_utf8_loop_whole:
  assumes "whole_output ic" and "to_utf8_loop ic eof cd xs n = Inr (left, out, cd')"
  shows "whole out"
  using assms
proof (induction ic eof cd xs n arbitrary: left out cd' rule: to_utf8_loop.induct)
  case (1 ic eof cd xs n)
  note run = "1.prems"(2)
  obtain err k o1 cd1 where conv: "iconv_conv ic cd xs n = (err, k, o1, cd1)"
    by (cases "iconv_conv ic cd xs n") auto
  have o1: "whole o1" by (rule "1.prems"(1) [unfolded whole_output_def, rule_format, OF conv])
  note unf = to_utf8_loop.simps [of ic eof cd xs n]
  show ?case
  proof (cases "err = Some EILSEQ \<and> \<not> length xs \<le> k \<and> drop (k + 1) xs \<noteq> []")
    case True
    with run conv obtain o2 where o2: "out = o1 @ o2"
      and rec: "to_utf8_loop ic eof cd1 (drop (k + 1) xs) (n - length o1) = Inr (left, o2, cd')"
      unfolding unf by (auto split: sum.splits)
    from True have T: "err = Some EILSEQ" "\<not> length xs \<le> k" "drop (k + 1) xs \<noteq> []" by simp_all
    have "whole o2" by (rule "1.IH" [OF conv [symmetric] refl refl T "1.prems"(1) rec])
    with o1 o2 show ?thesis by (simp add: whole_append)
  next
    case False
    with run conv have "out = o1" unfolding unf by (auto split: if_splits)
    with o1 show ?thesis by simp
  qed
qed

lemma to_utf8_loop_error: "to_utf8_loop ic eof cd xs n = Inl e \<Longrightarrow> \<exists>m. e = Undefined_behaviour m"
proof (induction ic eof cd xs n arbitrary: e rule: to_utf8_loop.induct)
  case (1 ic eof cd xs n)
  then show ?case
    by (subst (asm) to_utf8_loop.simps) (auto split: prod.splits sum.splits if_splits)
qed

lemma to_utf8_whole:
  assumes "whole_output ic" and "whole_state s"
  shows "whole_state (snd (processx__connection_to_utf8 ic s)) \<and>
    fst (processx__connection_to_utf8 ic s) \<noteq> Inl invalid_utf8"
  using assms
  by (cases s) (auto simp: processx__connection_to_utf8_def Let_def invalid_utf8_def split: sum.splits prod.splits
      dest: to_utf8_loop_whole to_utf8_loop_error intro: whole_append)

lemma read_whole:
  assumes "whole_output ic" and "whole_state s"
  shows "whole_state (snd (processx__connection_read os ic s)) \<and>
    fst (processx__connection_read os ic s) \<noteq> Inl invalid_utf8"
proof -
  have count: "whole_state (snd (convert_or_count ic t)) \<and> fst (convert_or_count ic t) \<noteq> Inl invalid_utf8"
    if "whole_state t" for t :: "'a conn \<times> 'b"
    using that to_utf8_whole [OF assms(1), of t] by (cases t) (auto simp: convert_or_count_def)
  have eof: "utf8 (set_eof c) = utf8 c" for c :: "'a conn" by (simp add: set_eof_def Let_def)
  have fill: "whole_state (snd (fill_and_convert os ic t)) \<and> fst (fill_and_convert os ic t) \<noteq> Inl invalid_utf8"
    if "whole_state t" for t
    using that to_utf8_whole [OF assms(1), of t] count eof
    by (cases t) (auto simp: fill_and_convert_def Let_def invalid_utf8_def split: prod.splits sum.splits)
  obtain c w where s: "s = (c, w)" by force
  show ?thesis
  proof (cases "is_eof_raw' c \<and> buffer c = []")
    case True
    with assms(2) show ?thesis by (simp add: processx__connection_read_def s)
  next
    case False
    obtain q t where al: "(if buffer_ptr c = Null then processx__connection_alloc os else ret ()) s = (q, t)"
      by (meson surj_pair)
    have t: "whole_state t" "q \<noteq> Inl invalid_utf8"
      using al assms(2)
      by (auto simp: s processx__connection_alloc_def Let_def invalid_utf8_def split: if_splits prod.splits)
    have "processx__connection_read os ic s = (case q of Inl e \<Rightarrow> (Inl e, t) | Inr _ \<Rightarrow> fill_and_convert os ic t)"
      using False al by (auto simp: processx__connection_read_def s andthen_def split: sum.splits)
    with fill [OF t(1)] t show ?thesis by (auto split: sum.splits)
  qed
qed

lemma until_newline_loop_whole:
  assumes "whole_output ic" and "whole_state s"
  shows "whole_state (snd (until_newline_loop fuel os ic ptr fin s)) \<and>
    fst (until_newline_loop fuel os ic ptr fin s) \<noteq> Inl invalid_utf8"
  using assms(2)
proof (induction fuel arbitrary: s ptr)
  case (Suc fuel)
  obtain c w where s: "s = (c, w)" by force
  let ?p = "scan (utf8 c) ptr fin"
  show ?case
  proof (cases "?p < fin \<or> is_eof' c")
    case True
    with Suc.prems show ?thesis by (auto simp: s Let_def)
  next
    case False
    let ?grow = "if 8 \<le> utf8_allocated_size c \<and> utf8_allocated_size c - 8 \<le> length (utf8 c)
        then processx__connection_realloc os else ret ()"
    obtain g t where gr: "?grow s = (g, t)" by (meson surj_pair)
    have t: "whole_state t" "g \<noteq> Inl invalid_utf8"
      using gr Suc.prems
      by (auto simp: s processx__connection_realloc_def Let_def invalid_utf8_def split: if_splits prod.splits)
    obtain q v where rd: "processx__connection_read os ic t = (q, v)" by (meson surj_pair)
    have v: "whole_state v" "q \<noteq> Inl invalid_utf8" using read_whole [OF assms(1) t(1), of os] rd by simp_all
    have "until_newline_loop (Suc fuel) os ic ptr fin s = (case g of Inl e \<Rightarrow> (Inl e, t) | Inr _ \<Rightarrow>
        (case q of Inl e \<Rightarrow> (Inl e, v) | Inr n \<Rightarrow>
          if n = 0 then (Inr (-1), v) else until_newline_loop fuel os ic ?p fin v))"
      using False gr rd by (auto simp: s Let_def andthen_def split: sum.splits)
    with t v Suc.IH [OF v(1), of ?p] show ?thesis by (auto split: sum.splits)
  qed
qed (simp add: invalid_utf8_def)

lemma read_until_newline_whole:
  assumes "whole_output ic" and "whole_state s"
  shows "whole_state (snd (processx__connection_read_until_newline fuel os ic s)) \<and>
    fst (processx__connection_read_until_newline fuel os ic s) \<noteq> Inl invalid_utf8"
proof -
  obtain q t where rd: "(if utf8 (fst s) = [] then processx__connection_read os ic else ret 0) s = (q, t)"
    by (meson surj_pair)
  have t: "whole_state t" "q \<noteq> Inl invalid_utf8"
    using rd read_whole [OF assms, of os] assms(2) by (auto split: if_splits)
  have "processx__connection_read_until_newline fuel os ic s = (case q of Inl e \<Rightarrow> (Inl e, t) | Inr _ \<Rightarrow>
      if utf8 (fst t) = [] then (Inr (-1), t) else until_newline_loop fuel os ic 0 (length (utf8 (fst t))) t)"
    using rd by (cases s; cases t)
      (auto simp: processx__connection_read_until_newline_def andthen_def split: sum.splits)
  with t until_newline_loop_whole [OF assms(1) t(1)] show ?thesis by (auto split: sum.splits)
qed

lemma find_chars_whole:
  assumes "whole_output ic" and "whole_state s"
    and run: "processx__connection_find_chars os ic maxchars maxbytes s = (r, s')"
  shows "whole_state s' \<and> r \<noteq> Inl invalid_utf8 \<and> (\<forall>n. r = Inr n \<longrightarrow> whole (drop n (utf8 (fst s'))))"
proof -
  obtain c w where s: "s = (c, w)" by force
  show ?thesis
  proof (cases "check_valid_conn (Some c)")
    case (Some e)
    with run assms(2) show ?thesis
      by (auto simp: processx__connection_find_chars_def s check_valid_conn_def invalid_utf8_def split: if_splits)
  next
    case None
    let ?rd = "if \<not> is_eof' c \<and> utf8 c = [] then processx__connection_read os ic else ret 0"
    obtain q c1 w1 where rd: "?rd s = (q, c1, w1)" by (metis prod_cases3)
    have t: "whole (utf8 c1)" "q \<noteq> Inl invalid_utf8"
      using rd read_whole [OF assms(1,2), of os] assms(2) by (auto split: if_splits)
    show ?thesis
    proof (cases q)
      case (Inl e)
      with run None rd t show ?thesis by (auto simp: processx__connection_find_chars_def s)
    next
      case (Inr m)
      obtain chs where chs: "utf8 c1 = concat chs" "\<forall>ch \<in> set chs. utf8_char ch"
        using t(1) unfolding whole_def by blast
      let ?k = "fitting chs maxchars maxbytes"
      have found: "processx__connection_find_utf8_chars c1 maxchars maxbytes =
          Inr (?k, length (concat (take ?k chs)))"
        using find_utf8_fitting [OF chs(2), of maxchars maxbytes 0 0] chs(1)
        by (simp add: processx__connection_find_utf8_chars_def)
      have "(r, s') = (if utf8 c1 = [] \<or> maxchars = 0 then (Inr 0, c1, w1)
          else (Inr (length (concat (take ?k chs))), c1, w1))"
        using run None rd Inr found by (auto simp: processx__connection_find_chars_def s)
      moreover have "whole (drop (length (concat (take ?k chs))) (utf8 c1))"
      proof -
        have "utf8 c1 = concat (take ?k chs) @ concat (drop ?k chs)"
          by (simp add: chs(1) flip: concat_append)
        then have "drop (length (concat (take ?k chs))) (utf8 c1) = concat (drop ?k chs)" by simp
        with chs(2) show ?thesis by (auto intro!: whole_concat dest: in_set_dropD)
      qed
      ultimately show ?thesis using t(1) by (auto split: if_splits)
    qed
  qed
qed

lemma serve_whole:
  assumes "whole_output ic" and "whole_state s" and inv: "readable os ic dec src s"
    and run: "serve fuel os ic q s = (r, s')"
  shows "whole_state s' \<and> r \<noteq> Inl invalid_utf8"
proof (cases q)
  case (Read_chars n)
  obtain p c1 w1 where f: "processx__connection_find_chars os ic n (-1) s = (p, c1, w1)" by (metis prod_cases3)
  from find_chars_whole [OF assms(1,2) f] f run Read_chars show ?thesis
    by (auto simp: processx_connection_read_chars_def andthen_def consume_def mkCharLenCE_def invalid_utf8_def
        split: sum.splits if_splits)
next
  case (C_read_chars n)
  obtain p c1 w1 where f: "processx__connection_find_chars os ic (-1) (int n) s = (p, c1, w1)" by (metis prod_cases3)
  from find_chars_whole [OF assms(1,2) f] f run C_read_chars assms(2) show ?thesis
    by (auto simp: processx_c_connection_read_chars_def andthen_def consume_def invalid_utf8_def
        split: sum.splits if_splits)
next
  case (Read_lines n)
  obtain p c1 w1 where f: "processx__connection_find_lines fuel os ic n s = (p, c1, w1)" by (metis prod_cases3)
  have H: "converter_ok ic dec" "source_ok os (handle (fst s)) src" "conn_inv src s"
    using inv by (simp_all add: readable_def)
  note F = find_lines_step [OF H f]
  have w: "whole (utf8 c1) \<and> p \<noteq> Inl invalid_utf8"
    using f read_until_newline_whole [OF assms(1,2), of fuel os] assms(2)
    by (cases s) (auto simp: processx__connection_find_lines_def andthen_def check_valid_conn_def invalid_utf8_def
        split: sum.splits option.splits prod.splits if_splits)
  show ?thesis
  proof (cases p)
    case (Inl e)
    with f run w Read_lines show ?thesis by (auto simp: processx_connection_read_lines_def)
  next
    case (Inr x)
    obtain m eof where x: "x = (m, eof)" by force
    show ?thesis
    proof (cases "make_lines c1 m (-1)")
      case (Inl e)
      with f run w Inr x Read_lines have "r = Inl e" "s' = (c1, w1)"
        by (auto simp: processx_connection_read_lines_def)
      moreover have "e \<noteq> invalid_utf8"
        using make_lines_error [OF Inl] by (simp add: invalid_utf8_def)
      ultimately show ?thesis using w by simp
    next
      case ml: (Inr res)
      obtain ls nl where res: "res = (ls, nl)" by force
      obtain raws where R: "utf8 c1 = terminated raws @ drop (nat (nl + 1)) (utf8 c1)" "-1 \<le> nl"
        using make_lines_eq [of "-1" c1 m ls nl] F Inr x ml res by auto
      have "whole (drop (nat (nl + 1)) (utf8 c1))"
      proof (cases raws rule: rev_cases)
        case Nil
        with R(1) w show ?thesis by simp
      next
        case (snoc rs l)
        then have "utf8 c1 = (terminated rs @ l) @ newline_byte # drop (nat (nl + 1)) (utf8 c1)"
          using R(1) by (simp add: terminated_def)
        with w whole_split_ascii [of "terminated rs @ l" newline_byte "drop (nat (nl + 1)) (utf8 c1)"]
        show ?thesis by simp
      qed
      with f run w Inr x Read_lines ml res show ?thesis
        by (auto simp: processx_connection_read_lines_def consume_def mkCharLenCE_def invalid_utf8_def Let_def
            split: if_splits)
    qed
  qed
qed

section \<open>Properties\<close>

interpretation conn_utf8: invariant_machine "\<lambda>s q. snd (serve fuel os ic q s)"
    "\<lambda>s. readable os ic dec src s \<and> whole_output ic \<and> whole_state s"
  for fuel os ic dec src
proof
  fix s q assume inv: "readable os ic dec src s \<and> whole_output ic \<and> whole_state s"
  then show "readable os ic dec src (snd (serve fuel os ic q s)) \<and> whole_output ic \<and>
      whole_state (snd (serve fuel os ic q s))"
    using serve_whole [of ic s os dec src fuel q] conn.serve_inv [of os ic dec src s fuel q]
    by (metis prod.collapse)
qed


text \<open>A converter that keeps ASCII and refuses everything else.\<close>

abbreviation is_ascii :: "byte \<Rightarrow> bool" where "is_ascii b \<equiv> unat b < 128"

definition ascii_iconv :: "unit iconv" where
  "ascii_iconv = \<lparr>iconv_open = \<lambda>e. (),
     iconv_conv = \<lambda>cd xs n. let ys = takeWhile is_ascii xs in
       if n < length ys then (Some E2BIG, n, take n ys, ())
       else if length ys = length xs then (None, length xs, ys, ())
       else (Some EILSEQ, length ys, ys, ())\<rparr>"

lemma ascii_converter: "converter_ok ascii_iconv (\<lambda>cd. filter is_ascii)"
proof -
  have split: "xs = takeWhile is_ascii xs @ drop (length (takeWhile is_ascii xs)) xs" for xs :: "byte list"
    by (metis takeWhile_dropWhile_id dropWhile_eq_drop)
  have keep: "filter is_ascii (take n (takeWhile is_ascii xs)) = take n (takeWhile is_ascii xs)" for n and xs :: "byte list"
    by (rule filter_True) (auto dest!: in_set_takeD set_takeWhileD)
  have E2BIG: "filter is_ascii xs = take n (takeWhile is_ascii xs) @ filter is_ascii (drop n xs)"
    if "n < length (takeWhile is_ascii xs)" for n and xs :: "byte list"
  proof -
    have "take n xs = take n (takeWhile is_ascii xs)"
      using arg_cong [OF split [of xs], of "take n"] that by simp
    moreover have "filter is_ascii xs = filter is_ascii (take n xs) @ filter is_ascii (drop n xs)"
      by (simp flip: filter_append)
    ultimately show ?thesis by (simp add: keep)
  qed
  have bad: "filter is_ascii xs = takeWhile is_ascii xs @ filter is_ascii (drop (Suc (length (takeWhile is_ascii xs))) xs)"
    if "length (takeWhile is_ascii xs) \<noteq> length xs" for xs :: "byte list"
  proof -
    have "length (takeWhile is_ascii xs) < length xs"
      using that length_takeWhile_le [of is_ascii xs] by simp
    then have "drop (length (takeWhile is_ascii xs)) xs =
        xs ! length (takeWhile is_ascii xs) # drop (Suc (length (takeWhile is_ascii xs))) xs"
        "\<not> is_ascii (xs ! length (takeWhile is_ascii xs))"
      using nth_length_takeWhile [of is_ascii xs] by (simp_all add: Cons_nth_drop_Suc del: not_less)
    then show ?thesis
      using arg_cong [OF split [of xs], of "filter is_ascii"] keep [of "length (takeWhile is_ascii xs)" xs]
      by simp
  qed
  show ?thesis
    unfolding converter_ok_def
  proof (intro conjI allI impI)
    fix cd xs n err k out cd'
    assume c: "iconv_conv ascii_iconv cd xs n = (err, k, out, cd')"
    let ?ys = "takeWhile is_ascii xs"
    have res: "(err, k, out) = (if n < length ?ys then (Some E2BIG, n, take n ?ys)
        else if length ?ys = length xs then (None, length xs, ?ys) else (Some EILSEQ, length ?ys, ?ys))"
      using c by (auto simp: ascii_iconv_def Let_def split: if_splits)
    have le: "length ?ys \<le> length xs" by (rule length_takeWhile_le)
    show "k \<le> length xs" "length out \<le> n" using res le by (simp_all split: if_splits)
    show "if err = Some EILSEQ
      then k < length xs \<and> (\<forall>ys. filter is_ascii (xs @ ys) = out @ filter is_ascii (drop (k + 1) xs @ ys))
      else (\<forall>ys. filter is_ascii (xs @ ys) = out @ filter is_ascii (drop k xs @ ys)) \<and>
        (err = Some EINVAL \<longrightarrow> filter is_ascii (drop k xs) = [])"
    proof (cases "n < length ?ys")
      case True
      with res E2BIG [OF True] show ?thesis by simp
    next
      case no_E2BIG: False
      show ?thesis
      proof (cases "length ?ys = length xs")
        case True
        then have all: "?ys = xs" using split [of xs] by simp
        with keep [of "length xs" xs] have "filter is_ascii xs = xs" by simp
        with res no_E2BIG True all show ?thesis by simp
      next
        case False
        with res no_E2BIG bad [OF False] le show ?thesis by simp
      qed
    qed
  qed simp
qed

lemma ascii_whole: "whole_output ascii_iconv"
proof -
  have w: "whole ys" if "\<forall>y \<in> set ys. is_ascii y" for ys
  proof -
    have "ys = concat (map (\<lambda>y. [y]) ys)" by simp
    moreover have "\<forall>ch \<in> set (map (\<lambda>y. [y]) ys). utf8_char ch"
      using that by (auto simp: utf8_char_def char_length_def Let_def)
    ultimately show ?thesis using whole_concat by metis
  qed
  show ?thesis
    unfolding whole_output_def
    by (auto simp: ascii_iconv_def Let_def split: if_splits intro!: w dest!: in_set_takeD set_takeWhileD)
qed




end
