(* ===== verification/Conn_Props.thy ===== *)
theory Conn_Props
  imports Conn_Session
begin

text \<open>
  Further properties of reading: a new connection, raw bytes, and the executions that show where
  the code does something else than its comments and its callers expect.
\<close>

section \<open>New connections\<close>

lemma create_fields:
  assumes "processx_c_connection_create os h type enc fname w = (Inr c, w')"
  shows "handle c = h \<and> ctype c = type \<and> buffer_ptr c = Null \<and> utf8_ptr c = Null \<and> buffer c = [] \<and>
    utf8 c = [] \<and> buffer_allocated_size c = 0 \<and> utf8_allocated_size c = 0 \<and> \<not> is_eof' c \<and>
    \<not> is_eof_raw' c \<and> \<not> is_closed' c \<and> close_on_destroy c \<and> iconv_ctx c = None \<and> filename c = fname \<and>
    raw_mode c = (enc = Some ''binary'') \<and>
    encoding c = (if enc = Some [] \<or> enc = Some ''binary'' then None else enc)"
  using assms
  by (auto simp: processx_c_connection_create_def strdup_def Let_def
      split: prod.splits if_splits option.splits)

section \<open>Raw bytes\<close>

text \<open>In raw mode with an empty buffer a read converts nothing and appends to the raw buffer.\<close>

lemma raw_read:
  assumes src: "source_ok os (handle c) src" and inv: "conn_inv src (c, w)"
    and raw: "raw_mode c" "buffer c = []" and run: "processx__connection_read os ic (c, w) = (r, s')"
  shows "raw_of src s' = raw_of src (c, w) \<and> conn_inv src s' \<and> handle (fst s') = handle c \<and> raw_mode (fst s')"
proof (cases "is_eof_raw' c")
  case True
  with run raw have "s' = (if utf8 c = [] then c\<lparr>is_eof' := True\<rparr> else c, w)"
    by (auto simp: processx__connection_read_def)
  with inv raw True show ?thesis by (auto simp: raw_of_def conn_inv_def eof_inv_def memory_inv_def)
next
  case False
  have fill: "raw_of src s' = raw_of src (d, v) \<and> conn_inv src s' \<and> handle (fst s') = handle d \<and> raw_mode (fst s')"
    if d: "source_ok os (handle d) src" "conn_inv src (d, v)" "raw_mode d" "buffer d = []" "buffer_ptr d \<noteq> Null"
      and fl: "fill_and_convert os ic (d, v) = (q, s')" for d v q
  proof (cases "buffer_ptr d = Live")
    case False
    with d fl show ?thesis
      by (auto simp: fill_and_convert_def processx__connection_to_utf8_def Let_def conn_inv_def eof_inv_def
          memory_inv_def raw_of_def split: if_splits)
  next
    case live: True
    then have todo: "buffer_allocated_size d = BUFFER_SIZE" "BUFFER_SIZE \<noteq> 0"
      using d(2) by (auto simp: conn_inv_def memory_inv_def BUFFER_SIZE_def)
    obtain a u where rd: "os_read os (handle d) BUFFER_SIZE v = (a, u)" by force
    note S = source_read [OF d(1) rd]
    show ?thesis
    proof (cases a)
      case (Inl e)
      with S fl rd todo live d show ?thesis
        by (auto simp: fill_and_convert_def Let_def convert_or_count_def set_eof_def conn_inv_def eof_inv_def
            memory_inv_def raw_of_def split: if_splits)
    next
      case (Inr bs)
      show ?thesis
      proof (cases "bs = []")
        case True
        with Inr S todo have "src v = []" "src u = []" by auto
        with Inr True fl rd todo live d show ?thesis
          by (auto simp: fill_and_convert_def Let_def convert_or_count_def set_eof_def conn_inv_def eof_inv_def
              memory_inv_def raw_of_def split: if_splits)
      next
        case False
        with Inr S fl rd todo live d show ?thesis
          by (auto simp: fill_and_convert_def Let_def convert_or_count_def conn_inv_def eof_inv_def
              memory_inv_def raw_of_def split: if_splits)
      qed
    qed
  qed
  show ?thesis
  proof (cases "buffer_ptr c = Null")
    case nn: False
    with run False have "fill_and_convert os ic (c, w) = (r, s')"
      by (simp add: processx__connection_read_def andthen_def)
    from fill [OF src inv raw nn this] show ?thesis .
  next
    case null: True
    obtain q t where al: "processx__connection_alloc os (c, w) = (q, t)" by (meson surj_pair)
    obtain d v where t: "t = (d, v)" by force
    have D: "source_ok os (handle d) src" "conn_inv src (d, v)" "raw_mode d" "buffer d = []"
        "raw_of src (d, v) = raw_of src (c, w)" "handle d = handle c" "q = Inr () \<longrightarrow> buffer_ptr d = Live"
    proof -
      obtain a v1 where m1: "os_malloc os BUFFER_SIZE w = (a, v1)" by force
      obtain b v2 where m2: "os_malloc os BUFFER_SIZE v1 = (b, v2)" by force
      have "src v1 = src w" "src v2 = src w"
        using malloc_neutral [OF src m1] malloc_neutral [OF src m2] by simp_all
      then show "source_ok os (handle d) src" "conn_inv src (d, v)" "raw_mode d" "buffer d = []"
          "raw_of src (d, v) = raw_of src (c, w)" "handle d = handle c" "q = Inr () \<longrightarrow> buffer_ptr d = Live"
        using al m1 m2 t src inv raw null
        by (auto simp: processx__connection_alloc_def Let_def conn_inv_def eof_inv_def memory_inv_def raw_of_def
            split: if_splits)
    qed
    show ?thesis
    proof (cases q)
      case (Inl e)
      with run False null al have "s' = t" by (auto simp: processx__connection_read_def)
      with D t show ?thesis by simp
    next
      case (Inr u)
      with run False null al t have "fill_and_convert os ic (d, v) = (r, s')"
        by (simp add: processx__connection_read_def)
      from fill [OF D(1-4) _ this] D Inr show ?thesis by simp
    qed
  qed
qed

lemma raw_mode_inv:
  "conn_inv src (c, w) \<Longrightarrow> conn_inv src (c\<lparr>raw_mode := True\<rparr>, w)"
  by (auto simp: conn_inv_def eof_inv_def memory_inv_def)

lemma read_bytes_step:
  assumes src: "source_ok os (handle (fst s)) src" and inv: "conn_inv src s"
    and run: "processx_connection_read_bytes os ic nbytes s = (r, s')"
  shows "conn_inv src s' \<and> handle (fst s') = handle (fst s) \<and>
    raw_of src s = (case r of Inl _ \<Rightarrow> [] | Inr bytes \<Rightarrow> bytes) @ raw_of src s' \<and>
    (\<forall>bytes. r = Inr bytes \<longrightarrow> raw_mode (fst s') \<and> (0 \<le> nbytes \<longrightarrow> length bytes \<le> nat nbytes))"
proof -
  obtain c w where s: "s = (c, w)" by force
  show ?thesis
  proof (cases "check_valid_conn (Some c)")
    case (Some e)
    with run have "s' = s" "r = Inl e" by (auto simp: processx_connection_read_bytes_def s)
    with inv show ?thesis by simp
  next
    case None
    let ?c = "c\<lparr>raw_mode := True\<rparr>"
    let ?rd = "if buffer c = [] \<and> \<not> is_eof_raw' c then processx__connection_read os ic else ret 0"
    obtain q d v where rd: "?rd (?c, w) = (q, d, v)" by (metis prod_cases3)
    have D: "raw_of src (d, v) = raw_of src s" "conn_inv src (d, v)" "handle d = handle c" "raw_mode d"
      using raw_read [of os ?c src w ic q "(d, v)"] rd src
        raw_mode_inv [OF inv [unfolded s]]
      by (auto simp: s raw_of_def split: if_splits)
    show ?thesis
    proof (cases q)
      case (Inl e)
      with run None rd have "r = Inl e" "s' = (d, v)"
        by (auto simp: processx_connection_read_bytes_def s Let_def)
      with D s show ?thesis by simp
    next
      case (Inr m)
      let ?d = "if is_eof_raw' d \<and> buffer d = [] then d\<lparr>is_eof' := True\<rparr> else d"
      define n where "n = (if nbytes \<ge> 0 \<and> nat nbytes < length (buffer d) then nat nbytes else length (buffer d))"
      have r: "r = Inr (take n (buffer d))" "s' = (?d\<lparr>buffer := drop n (buffer d)\<rparr>, v)"
        using run None rd Inr by (auto simp: processx_connection_read_bytes_def s Let_def n_def)
      have "raw_of src s = take n (buffer d) @ raw_of src s'"
        using D(1) r(2) by (simp add: raw_of_def flip: append_assoc)
      moreover have "conn_inv src (?d\<lparr>buffer := drop n (buffer d)\<rparr>, v)"
        using D(2,4) by (auto simp: conn_inv_def eof_inv_def memory_inv_def split: if_splits)
      moreover have "0 \<le> nbytes \<Longrightarrow> length (take n (buffer d)) \<le> nat nbytes" by (simp add: n_def)
      ultimately show ?thesis using D(3,4) s r by auto
    qed
  qed
qed

section \<open>Properties\<close>

text \<open>C16: a new connection is ready to be read: its invariant holds, it converts unless its encoding is
  "binary", and its text is the decoding, from the encoding given, of all that will arrive.\<close>

theorem new_connection_readable:
  assumes "processx_c_connection_create os h type enc fname w = (Inr c, w')"
    and "converter_ok ic dec" and "source_ok os h src"
  shows "readable os ic dec src (c, w') \<and> raw_mode c = (enc = Some ''binary'') \<and>
    text_of ic dec src (c, w') =
      dec (iconv_open ic (if enc = Some ''binary'' then [] else case enc of None \<Rightarrow> [] | Some e \<Rightarrow> e)) (src w')"
  using create_fields [OF assms(1)] assms(2,3)
  by (auto simp: readable_def fresh_inv text_of_def current_cd_def)

theorem new_connection_readable_witness:
  "\<exists>c w'. processx_c_connection_create pieces_os 5 PROCESSX_FILE_TYPE_ASYNCPIPE (Some ''latin1'') None
      [Some [97]] = (Inr c, w') \<and>
    text_of utf8_iconv (\<lambda>cd bs. bs) pieces_left (c, w') = [97]"
proof -
  obtain r w' where run: "processx_c_connection_create pieces_os 5 PROCESSX_FILE_TYPE_ASYNCPIPE
      (Some ''latin1'') None [Some [97]] = (r :: r_error + unit conn, w')" by (meson surj_pair)
  then have w': "w' = [Some [97]]" "\<exists>c. r = Inr c"
    by (auto simp: processx_c_connection_create_def strdup_def pieces_os_def refusing_os_def Let_def)
  then obtain c where r: "r = Inr c" by blast
  from new_connection_readable [OF run [unfolded r] utf8_converter pieces_source] run r w'(1)
  show ?thesis by (auto simp: pieces_left_def)
qed

text \<open>C15: \<open>processx_connection_read_bytes\<close> hands out the raw bytes of the stream in order, at most as
  many as asked for, without conversion, loss or repetition; an error hands out nothing.\<close>

theorem read_bytes_delivers_raw:
  assumes "source_ok os (handle (fst s)) src" and "conn_inv src s"
    and "processx_connection_read_bytes os ic nbytes s = (r, s')"
  shows "conn_inv src s' \<and>
    (case r of
       Inl _ \<Rightarrow> raw_of src s' = raw_of src s
     | Inr bytes \<Rightarrow> raw_of src s = bytes @ raw_of src s' \<and> (0 \<le> nbytes \<longrightarrow> length bytes \<le> nat nbytes) \<and>
         (is_eof' (fst s') \<longrightarrow> raw_of src s = bytes))"
proof -
  note B = read_bytes_step [OF assms]
  then have "is_eof' (fst s') \<longrightarrow> raw_of src s' = []"
    by (cases s') (auto simp: conn_inv_def eof_inv_def raw_of_def)
  with B show ?thesis by (cases r) auto
qed

theorem read_bytes_delivers_raw_witness:
  "\<exists>r s'. processx_connection_read_bytes pieces_os utf8_iconv 2 (pipe_conn 5, [Some [1, 2, 3]]) = (r, s') \<and>
     raw_of pieces_left (pipe_conn 5, [Some [1, 2, 3]]) =
       (case r of Inl _ \<Rightarrow> [] | Inr bytes \<Rightarrow> bytes) @ raw_of pieces_left s'"
proof -
  obtain r s' where run: "processx_connection_read_bytes pieces_os utf8_iconv 2 (pipe_conn 5, [Some [1, 2, 3]])
      = (r, s')" by (meson surj_pair)
  have "conn_inv pieces_left (pipe_conn 5, [Some [1, 2, 3]])"
    by (rule fresh_inv) (simp_all add: pipe_conn_def)
  from read_bytes_delivers_raw [OF pieces_source this run] run show ?thesis
    by (auto split: sum.splits)
qed

section \<open>Executions that differ from what is expected\<close>

subsection \<open>A failed allocation\<close>

text \<open>When the second of the two allocations of the buffers fails, the read throws an R error but
  leaves the pointer to the freed first buffer in the connection: the next read writes to freed
  memory.\<close>

theorem second_allocation_failure_dangles:
  assumes "buffer_ptr c = Null" and "\<not> is_eof_raw' c"
    and "os_malloc os BUFFER_SIZE w = (True, v)" and "os_malloc os BUFFER_SIZE v = (False, u)"
  shows "fst (processx__connection_read os ic (c, w)) =
      Inl (R_error ''Cannot allocate memory for processx buffer'') \<and>
    fst (processx__connection_read os ic (snd (processx__connection_read os ic (c, w)))) =
      Inl (Undefined_behaviour ''read into a freed buffer'')"
proof -
  let ?d = "c\<lparr>buffer_ptr := Dangling, buffer_allocated_size := BUFFER_SIZE, buffer := [], utf8_ptr := Null\<rparr>"
  have 1: "processx__connection_read os ic (c, w) =
      (Inl (R_error ''Cannot allocate memory for processx buffer''), ?d, u)"
    using assms by (simp add: processx__connection_read_def processx__connection_alloc_def Let_def)
  have "fst (processx__connection_read os ic (?d, u)) = Inl (Undefined_behaviour ''read into a freed buffer'')"
    using assms(2) by (simp add: processx__connection_read_def fill_and_convert_def BUFFER_SIZE_def Let_def)
  with 1 show ?thesis by simp
qed

theorem second_allocation_failure_dangles_witness:
  "fst (processx__connection_read (pieces_os\<lparr>os_malloc := \<lambda>n w. (w = [], [Some [1]])\<rparr>) utf8_iconv
     (snd (processx__connection_read (pieces_os\<lparr>os_malloc := \<lambda>n w. (w = [], [Some [1]])\<rparr>) utf8_iconv
       (pipe_conn 5, [])))) = Inl (Undefined_behaviour ''read into a freed buffer'')"
proof -
  let ?os = "pieces_os\<lparr>os_malloc := \<lambda>n w. (w = [], [Some [1]])\<rparr>"
  have "buffer_ptr (pipe_conn 5) = Null" "\<not> is_eof_raw' (pipe_conn 5)"
      "os_malloc ?os BUFFER_SIZE [] = (True, [Some [1]])"
      "os_malloc ?os BUFFER_SIZE [Some [1]] = (False, [Some [1]])"
    by (simp_all add: pipe_conn_def)
  from second_allocation_failure_dangles [OF this] show ?thesis by blast
qed

subsection \<open>The last line of the C interface\<close>

text \<open>\<open>processx_c_connection_read_line\<close> loses text: when the buffer holds a complete line and an
  unterminated last line, and the input is at its end, it returns the first line and throws the
  rest of the buffer away.\<close>

theorem c_read_line_loses_rest:
  assumes "\<not> is_eof' c" and "unterminated_end c"
    and "utf8 c = line @ newline_byte # rest" and "newline_byte \<notin> set line" and "line \<noteq> []"
    and "converter_ok ic dec" and "conn_inv src (c, w)"
  shows "processx_c_connection_read_line (Suc fuel) os ic (c, w) =
      (Inr (Line (strip_cr line)), c\<lparr>utf8 := []\<rparr>, w) \<and>
    text_of ic dec src (c, w) = line @ newline_byte # rest \<and> rest \<noteq> [] \<and>
    text_of ic dec src (c\<lparr>utf8 := []\<rparr>, w) = []"
proof -
  have ue: "is_eof_raw' c" "buffer c = []" "last (utf8 c) \<noteq> newline_byte"
    using assms(2) by (auto simp: unterminated_end_def)
  have "scan (utf8 c) 0 (length (utf8 c)) = length line"
    using assms(3,4) scan_takeWhile [of 0 "utf8 c"] by (simp add: takeWhile_append takeWhile_eq_all_conv)
  then have nl: "processx__connection_read_until_newline (Suc fuel) os ic (c, w) = (Inr (int (length line)), c, w)"
    using assms(3) by (simp add: processx__connection_read_until_newline_def Let_def)
  have last: "utf8 c ! nat (int (length line) - 1) = last line"
    using assms(3,5) by (cases line rule: rev_cases) (auto simp: nth_append)
  have "processx_c_connection_read_line (Suc fuel) os ic (c, w) =
      (Inr (Line (strip_cr line)), c\<lparr>utf8 := []\<rparr>, w)"
  proof (cases "last line = return_byte")
    case True
    have "nat (int (length line) - 1) = length line - 1" by simp
    with True assms(1,2,3,5) nl last show ?thesis
      by (simp add: processx_c_connection_read_line_def Let_def strip_cr_def butlast_conv_take)
  next
    case False
    with assms(1,2,3,5) nl last show ?thesis
      by (simp add: processx_c_connection_read_line_def Let_def strip_cr_def)
  qed
  moreover have "rest \<noteq> []" using ue(3) assms(3) by auto
  ultimately show ?thesis
    using text_at_end [OF assms(6,7) ue(1,2)] assms(3,7) ue(1,2) converter_empty [OF assms(6)]
    by (auto simp: text_of_def conn_inv_def eof_inv_def)
qed

text \<open>A connection whose raw buffer is converted after the end of the input was seen.\<close>

definition drained_conn :: "unit conn" where
  "drained_conn = (pipe_conn 5)\<lparr>is_eof_raw' := True, buffer_ptr := Live, buffer_allocated_size := BUFFER_SIZE,
     utf8_ptr := Live, utf8_allocated_size := BUFFER_SIZE, utf8 := [97, 10, 98]\<rparr>"

theorem c_read_line_loses_rest_witness:
  "fst (processx_c_connection_read_line (Suc 0) pieces_os utf8_iconv (drained_conn, [])) = Inr (Line [97]) \<and>
   text_of utf8_iconv (\<lambda>cd bs. bs) pieces_left
     (snd (processx_c_connection_read_line (Suc 0) pieces_os utf8_iconv (drained_conn, []))) = []"
proof -
  have "conn_inv pieces_left (drained_conn, [])"
    by (simp add: conn_inv_def eof_inv_def memory_inv_def drained_conn_def pipe_conn_def pieces_left_def BUFFER_SIZE_def)
  from c_read_line_loses_rest [OF _ _ _ _ _ utf8_converter this, of "[97]" "[98]" 0 pieces_os]
  show ?thesis by (simp add: drained_conn_def pipe_conn_def unterminated_end_def strip_cr_def)
qed

subsection \<open>Newlines that are not seen\<close>

lemma pieces_os_simps:
  "os_read pieces_os fd = read_pieces" "os_malloc pieces_os n w = (True, w)"
  "iconv_open utf8_iconv e = ()"
  "iconv_conv utf8_iconv cd xs n =
    (if length xs \<le> n then (None, length xs, xs, ()) else (Some E2BIG, n, take n xs, ()))"
  by (simp_all add: pieces_os_def refusing_os_def utf8_iconv_def)

lemmas run_simps = pieces_os_simps processx_connection_read_lines_def processx__connection_find_lines_def
  processx__connection_read_until_newline_def processx__connection_read_def processx__connection_alloc_def
  fill_and_convert_def convert_or_count_def processx__connection_to_utf8_def current_cd_def set_eof_def
  to_utf8_loop.simps scan.simps count_lines.simps unterminated_end_def substring_def mkCharLenCE_def
  consume_def check_valid_conn_def pipe_conn_def BUFFER_SIZE_def Let_def

text \<open>A newline that arrives in a later read of the same request is not seen: "abc", a newline and
  "def", delivered in two pieces and followed by the end of the file, is returned as one line with
  an embedded newline.\<close>

theorem newline_of_second_read_not_seen:
  "fst (processx_connection_read_lines (Suc (Suc (Suc 0))) pieces_os utf8_iconv (-1)
     (pipe_conn 5, [Some [97, 98, 99], Some [10, 100, 101, 102]])) = Inr [[97, 98, 99, 10, 100, 101, 102]]"
  by (simp add: run_simps)

text \<open>The unterminated last line does not count towards the limit: a request for zero lines, and
  one for one line, return one more line than asked for at the end of the file.\<close>

theorem one_line_more_at_end:
  "fst (processx_connection_read_lines (Suc (Suc (Suc 0))) pieces_os utf8_iconv 0 (pipe_conn 5, [Some [97]])) = Inr [[97]] \<and>
   fst (processx_connection_read_lines (Suc (Suc (Suc 0))) pieces_os utf8_iconv 1 (drained_conn, [])) = Inr [[97], [98]]"
proof
  show "fst (processx_connection_read_lines (Suc (Suc (Suc 0))) pieces_os utf8_iconv 0 (pipe_conn 5, [Some [97]])) = Inr [[97]]"
    by (simp add: run_simps)
  show "fst (processx_connection_read_lines (Suc (Suc (Suc 0))) pieces_os utf8_iconv 1 (drained_conn, [])) = Inr [[97], [98]]"
    by (simp add: run_simps drained_conn_def find_newline_eq)
qed

subsection \<open>Lines that end in CRLF\<close>

lemma first_newline_found:
  assumes "utf8 c = line @ newline_byte # rest" and "newline_byte \<notin> set line"
  shows "processx__connection_read_until_newline (Suc fuel) os ic (c, w) = (Inr (int (length line)), c, w)"
proof -
  have "scan (utf8 c) 0 (length (utf8 c)) = length line"
    using assms scan_takeWhile [of 0 "utf8 c"] by (simp add: takeWhile_append takeWhile_eq_all_conv)
  with assms(1) show ?thesis by (simp add: processx__connection_read_until_newline_def Let_def)
qed

text \<open>\<open>processx_c_connection_read_line\<close> steps back over the carriage return of a CRLF line before it
  computes how much to remove, so the newline stays in the buffer; the next call finds an empty
  line there and reads the byte before the start of the buffer.\<close>

theorem c_read_line_crlf:
  assumes "\<not> is_eof' c" and "\<not> is_eof_raw' c"
    and "utf8 c = line @ return_byte # newline_byte # rest" and "newline_byte \<notin> set line"
  shows "processx_c_connection_read_line (Suc fuel) os ic (c, w) =
      (Inr (Line line), c\<lparr>utf8 := newline_byte # rest\<rparr>, w) \<and>
    fst (processx_c_connection_read_line (Suc fuel) os ic (c\<lparr>utf8 := newline_byte # rest\<rparr>, w)) =
      Inl (Undefined_behaviour ''read before the start of the UTF-8 buffer'')"
proof -
  have "processx__connection_read_until_newline (Suc fuel) os ic (c, w) =
      (Inr (int (length (line @ [return_byte]))), c, w)"
    by (rule first_newline_found [where rest = rest]) (use assms(3,4) in simp_all)
  moreover have "nat (int (length line)) = length line" by simp
  ultimately have 1: "processx_c_connection_read_line (Suc fuel) os ic (c, w) =
      (Inr (Line line), c\<lparr>utf8 := newline_byte # rest\<rparr>, w)"
    using assms by (simp add: processx_c_connection_read_line_def unterminated_end_def consume_def Let_def)
  have "processx__connection_read_until_newline (Suc fuel) os ic (c\<lparr>utf8 := newline_byte # rest\<rparr>, w) =
      (Inr (int (length ([] :: byte list))), c\<lparr>utf8 := newline_byte # rest\<rparr>, w)"
    by (rule first_newline_found [where rest = rest]) simp_all
  then have "fst (processx_c_connection_read_line (Suc fuel) os ic (c\<lparr>utf8 := newline_byte # rest\<rparr>, w)) =
      Inl (Undefined_behaviour ''read before the start of the UTF-8 buffer'')"
    using assms(1,2) by (simp add: processx_c_connection_read_line_def unterminated_end_def Let_def)
  with 1 show ?thesis by simp
qed

theorem c_read_line_crlf_witness:
  "fst (processx_c_connection_read_line (Suc 0) pieces_os utf8_iconv
     (snd (processx_c_connection_read_line (Suc 0) pieces_os utf8_iconv
       ((pipe_conn 5)\<lparr>utf8 := [97, 13, 10, 98]\<rparr>, [])))) =
   Inl (Undefined_behaviour ''read before the start of the UTF-8 buffer'')"
proof -
  have "\<not> is_eof' ((pipe_conn 5)\<lparr>utf8 := [97, 13, 10, 98]\<rparr>)"
      "\<not> is_eof_raw' ((pipe_conn 5)\<lparr>utf8 := [97, 13, 10, 98]\<rparr>)"
      "utf8 ((pipe_conn 5)\<lparr>utf8 := [97, 13, 10, 98]\<rparr>) = [97] @ return_byte # newline_byte # [98]"
      "newline_byte \<notin> set [97]"
    by (simp_all add: pipe_conn_def)
  from c_read_line_crlf [OF this, of 0 pieces_os utf8_iconv "[]"] show ?thesis by simp
qed

subsection \<open>Lines in raw mode\<close>

lemma raw_loop_never_ends:
  assumes "memory_available os" and "\<And>w n. os_read os h n w = (Inr [], w)"
    and "handle c = h" and "raw_mode c" and "\<not> is_eof' c" and "buffer c \<noteq> []" and "buffer_ptr c = Live"
    and "length (buffer c) < buffer_allocated_size c" and "newline_byte \<notin> set (utf8 c)"
    and "ptr \<le> fin" and "fin \<le> length (utf8 c)"
  shows "fst (until_newline_loop fuel os ic ptr fin (c, w)) = Inl Out_of_fuel"
  using assms(3-)
proof (induction fuel arbitrary: c w ptr)
  case (Suc fuel)
  have p: "scan (utf8 c) ptr fin = fin"
  proof (rule ccontr)
    assume "scan (utf8 c) ptr fin \<noteq> fin"
    with scan_bounds [of ptr "utf8 c" fin] Suc.prems(8) have lt: "scan (utf8 c) ptr fin < fin" by auto
    with scan_stop [OF lt] Suc.prems(7,9) show False by (metis nth_mem order_less_le_trans)
  qed
  let ?grow = "if 8 \<le> utf8_allocated_size c \<and> utf8_allocated_size c - 8 \<le> length (utf8 c)
      then processx__connection_realloc os else ret ()"
  have "\<exists>n v. ?grow (c, w) = (Inr (), c\<lparr>utf8_allocated_size := n\<rparr>, v)"
  proof (cases "8 \<le> utf8_allocated_size c \<and> utf8_allocated_size c - 8 \<le> length (utf8 c)")
    case True
    then show ?thesis
      using assms(1) by (auto simp: processx__connection_realloc_def memory_available_def Let_def split: prod.split)
        (metis fst_conv)+
  next
    case False
    then have "?grow (c, w) = (Inr (), c\<lparr>utf8_allocated_size := utf8_allocated_size c\<rparr>, w)" by auto
    then show ?thesis by blast
  qed
  then obtain n v where gr: "?grow (c, w) = (Inr (), c\<lparr>utf8_allocated_size := n\<rparr>, v)" by blast
  let ?c = "c\<lparr>utf8_allocated_size := n\<rparr>" and ?d = "c\<lparr>utf8_allocated_size := n, is_eof_raw' := True\<rparr>"
  have "processx__connection_read os ic (?c, v) = (Inr (length (buffer c)), ?d, v)"
    using Suc.prems assms(2)
    by (auto simp: processx__connection_read_def andthen_def fill_and_convert_def convert_or_count_def set_eof_def Let_def)
  then have "until_newline_loop (Suc fuel) os ic ptr fin (c, w) = until_newline_loop fuel os ic fin fin (?d, v)"
    using gr p Suc.prems(3,4) by (simp add: Let_def)
  moreover have "fst (until_newline_loop fuel os ic fin fin (?d, v)) = Inl Out_of_fuel"
    by (rule Suc.IH) (use Suc.prems in simp_all)
  ultimately show ?case by simp
qed simp

text \<open>A line request on a connection that was switched to raw mode hangs: when text without a newline
  was left in the UTF-8 buffer and raw bytes are buffered, the search for a newline never ends at
  the end of the input, because the read reports the raw bytes already there as new.\<close>

theorem read_lines_raw_mode_hangs:
  assumes "memory_available os" and "\<forall>w n. os_read os (handle c) n w = (Inr [], w)"
    and "raw_mode c" and "\<not> is_eof' c" and "buffer c \<noteq> []" and "buffer_ptr c = Live"
    and "length (buffer c) < buffer_allocated_size c" and "utf8 c \<noteq> []" and "newline_byte \<notin> set (utf8 c)"
    and "0 \<le> handle c"
  shows "fst (processx_connection_read_lines fuel os ic n (c, w)) = Inl Out_of_fuel"
proof -
  have "fst (until_newline_loop fuel os ic 0 (length (utf8 c)) (c, w)) = Inl Out_of_fuel"
    by (rule raw_loop_never_ends [where h = "handle c"]) (use assms in simp_all)
  then obtain s' where "until_newline_loop fuel os ic 0 (length (utf8 c)) (c, w) = (Inl Out_of_fuel, s')"
    by (metis prod.collapse)
  then have "processx__connection_read_until_newline fuel os ic (c, w) = (Inl Out_of_fuel, s')"
    using assms(8) by (simp add: processx__connection_read_until_newline_def)
  with assms(10) show ?thesis
    by (simp add: processx_connection_read_lines_def processx__connection_find_lines_def check_valid_conn_def)
qed

theorem read_lines_raw_mode_hangs_witness:
  "fst (processx_connection_read_lines 1000 (refusing_os\<lparr>os_read := \<lambda>fd n (w :: unit). (Inr [], w)\<rparr>) utf8_iconv 1
     (drained_conn\<lparr>is_eof_raw' := False, raw_mode := True, utf8 := [97], buffer := [98]\<rparr>, ())) = Inl Out_of_fuel"
  by (rule read_lines_raw_mode_hangs)
    (simp_all add: memory_available_def refusing_os_def drained_conn_def pipe_conn_def BUFFER_SIZE_def)

end
