(* ===== verification/Conn_Poll.thy ===== *)
theory Conn_Poll
  imports Conn_Text
begin

text \<open>
  Polling (src/src/poll.c and the Unix parts of src/src/processx-connection.c): what is known
  about a connection without asking the system, \<open>poll\<close> cut into slices so that R can be
  interrupted, the events of a list of pollable objects, and the R entry point. Connections live
  in a store indexed by their address, since the same connection can be polled twice.
\<close>

section \<open>Data\<close>

datatype px = PXNOPIPE | PXREADY | PXTIMEOUT | PXCLOSED | PXSILENT | PXEVENT | PXCONNECT
  | PXHANDLE | PXSELECT

fun px_code :: "px \<Rightarrow> int" where
  "px_code PXNOPIPE = 1"
| "px_code PXREADY = 2"
| "px_code PXTIMEOUT = 3"
| "px_code PXCLOSED = 4"
| "px_code PXSILENT = 5"
| "px_code PXEVENT = 6"
| "px_code PXCONNECT = 7"
| "px_code PXHANDLE = 8"
| "px_code PXSELECT = 9"

type_synonym 'cd store = "nat \<Rightarrow> 'cd conn"

text \<open>
  A pollable object: the pre-poll function, the address of its connection (\<open>None\<close> is the null
  pointer), the event found, the descriptor to poll, and for curl the descriptors to read, to
  write and to do both.
\<close>

datatype pre_poll = Pre_poll_connection | Pre_poll_curl

record pollable =
  pre_poll_func :: pre_poll
  object :: "nat option"
  event :: px
  phandle :: int
  pfds :: "int list \<times> int list \<times> int list"

text \<open>
  \<open>poll fds timeout\<close> returns the number of descriptors with a non-zero \<open>revents\<close> and the list of
  all \<open>revents\<close>.
\<close>

type_synonym 'w poll_call = "(int \<times> 16 word) list \<Rightarrow> int \<Rightarrow> ('w, nat \<times> 16 word list) syscall"

definition POLLIN :: "16 word" where "POLLIN = 0x001"
definition POLLOUT :: "16 word" where "POLLOUT = 0x004"
definition POLLHUP :: "16 word" where "POLLHUP = 0x010"
definition POLLNVAL :: "16 word" where "POLLNVAL = 0x020"

section \<open>What is known before polling\<close>

text \<open>The macro \<open>PROCESSX__I_PRE_POLL_FUNC_CONNECTION_READY\<close>; \<open>None\<close> is falling through.\<close>

definition connection_ready :: "'cd iconv \<Rightarrow> ('cd conn \<times> 'w, px option) operation" where
  "connection_ready ic = (\<lambda>(ccon, w).
     if is_closed' ccon then (Inr (Some PXCLOSED), ccon, w)
     else if is_eof' ccon then (Inr (Some PXREADY), ccon, w)
     else if raw_mode ccon then (Inr (if buffer ccon \<noteq> [] then Some PXREADY else None), ccon, w)
     else if utf8 ccon \<noteq> [] then (Inr (Some PXREADY), ccon, w)
     else if buffer ccon \<noteq> [] \<and> is_eof_raw' ccon then (Inr (Some PXREADY), ccon, w)
     else if buffer ccon \<noteq> [] then
       (case processx__connection_to_utf8 ic (ccon, w) of
          (Inl e, s) \<Rightarrow> (Inl e, s)
        | (Inr _, s) \<Rightarrow> (Inr (if utf8 (fst s) \<noteq> [] then Some PXREADY else None), s))
     else (Inr None, ccon, w))"

definition processx_i_pre_poll_func_connection ::
    "'cd iconv \<Rightarrow> pollable \<Rightarrow> ('cd store \<times> 'w, px \<times> pollable) operation" where
  "processx_i_pre_poll_func_connection ic pollable = (\<lambda>(st, w).
     case object pollable of
       None \<Rightarrow> (Inr (PXNOPIPE, pollable), st, w)
     | Some a \<Rightarrow>
         (case connection_ready ic (st a, w) of
            (Inl e, c, w) \<Rightarrow> (Inl e, st(a := c), w)
          | (Inr (Some ev), c, w) \<Rightarrow> (Inr (ev, pollable), st(a := c), w)
          | (Inr None, c, w) \<Rightarrow> (Inr (PXHANDLE, pollable\<lparr>phandle := handle c\<rparr>), st(a := c), w)))"

definition processx_i_pre_poll_func_curl :: "pollable \<Rightarrow> ('s, px \<times> pollable) operation" where
  "processx_i_pre_poll_func_curl pollable = ret (PXSELECT, pollable)"

text \<open>The fields \<open>event\<close> and \<open>handle\<close> are left uninitialised by the two constructors.\<close>

definition processx_c_pollable_from_connection :: "px \<Rightarrow> int \<Rightarrow> nat option \<Rightarrow> pollable" where
  "processx_c_pollable_from_connection junk_event junk_handle ccon =
     \<lparr>pre_poll_func = Pre_poll_connection, object = ccon, event = junk_event, phandle = junk_handle,
      pfds = ([], [], [])\<rparr>"

definition processx_c_pollable_from_curl ::
    "px \<Rightarrow> int \<Rightarrow> int list \<times> int list \<times> int list \<Rightarrow> pollable" where
  "processx_c_pollable_from_curl junk_event junk_handle fds =
     \<lparr>pre_poll_func = Pre_poll_curl, object = None, event = junk_event, phandle = junk_handle, pfds = fds\<rparr>"

section \<open>Polling in slices\<close>

definition PROCESSX_INTERRUPT_INTERVAL :: int where "PROCESSX_INTERRUPT_INTERVAL = 200"

text \<open>
  \<open>timeleft\<close> is an \<open>int\<close>: subtracting below its range is undefined. \<open>interrupted\<close> tells whether
  \<open>R_CheckUserInterrupt\<close> jumps.
\<close>

fun poll_slices :: "nat \<Rightarrow> nat \<Rightarrow> 'w poll_call \<Rightarrow> ('w \<Rightarrow> bool \<times> 'w) \<Rightarrow> (int \<times> 16 word) list \<Rightarrow> int \<Rightarrow> int \<Rightarrow>
    ('w, errno + nat \<times> 16 word list) operation" where
  "poll_slices 0 fuel poll interrupted fds timeout timeleft w = (Inl Out_of_fuel, w)"
| "poll_slices (Suc n) fuel poll interrupted fds timeout timeleft w =
     (if timeout < 0 \<or> timeleft > PROCESSX_INTERRUPT_INTERVAL
      then (case retry fuel (poll fds PROCESSX_INTERRUPT_INTERVAL) w of
              (Inl e, w) \<Rightarrow> (Inl e, w)
            | (Inr (Inl errno), w) \<Rightarrow> (Inr (Inl errno), w)
            | (Inr (Inr (r, revents)), w) \<Rightarrow>
                if r \<noteq> 0 then (Inr (Inr (r, revents)), w)
                else (case interrupted w of
                        (True, w) \<Rightarrow> (Inl R_interrupt, w)
                      | (False, w) \<Rightarrow>
                          if timeleft - PROCESSX_INTERRUPT_INTERVAL < - (2 ^ 31)
                          then (Inl (Undefined_behaviour ''signed overflow of timeleft''), w)
                          else poll_slices n fuel poll interrupted fds timeout
                                 (timeleft - PROCESSX_INTERRUPT_INTERVAL) w))
      else if timeleft \<ge> 0 then retry fuel (poll fds timeleft) w
      else (Inr (Inr (0, map (\<lambda>_. 0) fds)), w))"

definition processx__interruptible_poll :: "nat \<Rightarrow> nat \<Rightarrow> 'w poll_call \<Rightarrow> ('w \<Rightarrow> bool \<times> 'w) \<Rightarrow>
    (int \<times> 16 word) list \<Rightarrow> int \<Rightarrow> ('w, errno + nat \<times> 16 word list) operation" where
  "processx__interruptible_poll n fuel poll interrupted fds timeout =
     poll_slices n fuel poll interrupted fds timeout timeout"

section \<open>Polling a list of objects\<close>

definition processx__poll_decode :: "16 word \<Rightarrow> px" where
  "processx__poll_decode code =
     (if code AND POLLNVAL \<noteq> 0 then PXCLOSED
      else if code AND POLLIN \<noteq> 0 \<or> code AND POLLHUP \<noteq> 0 \<or> code AND POLLOUT \<noteq> 0 then PXREADY
      else PXSILENT)"

text \<open>The first loop: the pre-poll function of every object, in order.\<close>

fun pre_poll_all :: "'cd iconv \<Rightarrow> pollable list \<Rightarrow> ('cd store \<times> 'w, (px \<times> pollable) list) operation" where
  "pre_poll_all ic [] s = (Inr [], s)"
| "pre_poll_all ic (el # pollables) s =
     (case (case pre_poll_func el of
              Pre_poll_connection \<Rightarrow> processx_i_pre_poll_func_connection ic el s
            | Pre_poll_curl \<Rightarrow> processx_i_pre_poll_func_curl el s) of
        (Inl e, s) \<Rightarrow> (Inl e, s)
      | (Inr x, s) \<Rightarrow>
          (case pre_poll_all ic pollables s of (Inl e, s) \<Rightarrow> (Inl e, s) | (Inr xs, s) \<Rightarrow> (Inr (x # xs), s)))"

text \<open>
  The second loop: the event to start with, and the descriptors to poll, each with the index of
  its object (the arrays \<open>fds\<close> and \<open>ptr\<close>).
\<close>

definition first_event :: "px \<times> pollable \<Rightarrow> pollable" where
  "first_event = (\<lambda>(ev, el).
     if ev = PXHANDLE \<or> ev = PXSELECT then el\<lparr>event := PXSILENT\<rparr>
     else if ev \<in> {PXNOPIPE, PXCLOSED, PXSILENT, PXREADY} then el\<lparr>event := ev\<rparr> else el)"

definition descriptors :: "px \<times> pollable \<Rightarrow> (int \<times> 16 word) list" where
  "descriptors = (\<lambda>(ev, el).
     if ev = PXHANDLE then [(phandle el, POLLIN)]
     else if ev = PXSELECT then
       (case pfds el of (rd, wr, both) \<Rightarrow>
          map (\<lambda>fd. (fd, POLLIN)) rd @ map (\<lambda>fd. (fd, POLLOUT)) wr @ map (\<lambda>fd. (fd, POLLIN OR POLLOUT)) both)
     else [])"

fun collect :: "nat \<Rightarrow> (px \<times> pollable) list \<Rightarrow> ((int \<times> 16 word) \<times> nat) list" where
  "collect i [] = []"
| "collect i (x # xs) = map (\<lambda>d. (d, i)) (descriptors x) @ collect (Suc i) xs"

text \<open>The last loop, for one descriptor of object \<open>i\<close> and what \<open>poll\<close> returned for it.\<close>

definition found :: "'cd store \<Rightarrow> px list \<Rightarrow> nat \<times> 16 word \<Rightarrow> pollable list \<times> nat \<Rightarrow> pollable list \<times> nat" where
  "found st events = (\<lambda>(i, revents) (pollables, hasdata).
     let el = pollables ! i
     in if events ! i = PXSELECT
        then (if event el = PXSILENT \<and> revents AND (POLLNVAL OR POLLIN OR POLLHUP OR POLLOUT) \<noteq> 0
              then pollables[i := el\<lparr>event := PXEVENT\<rparr>] else pollables, hasdata)
        else
          (let ev = processx__poll_decode revents
           in if ev = PXREADY
              then (let ccon = st (the (object el));
                        ev = (if ctype ccon = PROCESSX_FILE_TYPE_SOCKET \<and> sock_state ccon = PROCESSX_SOCKET_LISTEN
                              then PXCONNECT else PXREADY)
                    in (pollables[i := el\<lparr>event := ev\<rparr>], hasdata + 1))
              else (pollables[i := el\<lparr>event := ev\<rparr>], hasdata)))"

text \<open>What is made of the result of \<open>poll\<close>: \<open>xs\<close> are the objects with the result of their pre-poll function.\<close>

definition ready_at_once :: "(px \<times> pollable) list \<Rightarrow> nat" where
  "ready_at_once xs = length (filter (\<lambda>ev. ev = PXREADY) (map fst xs))"

definition timed_out :: "nat list \<Rightarrow> pollable list \<Rightarrow> pollable list" where
  "timed_out ptr = fold (\<lambda>i ps. ps[i := (ps ! i)\<lparr>event := PXTIMEOUT\<rparr>]) ptr"

definition poll_outcome :: "'cd store \<Rightarrow> (px \<times> pollable) list \<Rightarrow> nat \<times> 16 word list \<Rightarrow> nat \<times> pollable list" where
  "poll_outcome st xs = (\<lambda>(r, revents).
     let pollables = map first_event xs;
         hasdata = ready_at_once xs;
         ptr = map snd (collect 0 xs)
     in if r = 0 then (hasdata, if hasdata = 0 then timed_out ptr pollables else pollables)
        else (case fold (found st (map fst xs)) (zip ptr revents) (pollables, hasdata) of
                (pollables, hasdata) \<Rightarrow> (hasdata, pollables)))"

definition processx_c_connection_poll :: "nat \<Rightarrow> nat \<Rightarrow> 'w poll_call \<Rightarrow> ('w \<Rightarrow> bool \<times> 'w) \<Rightarrow> 'cd iconv \<Rightarrow>
    pollable list \<Rightarrow> int \<Rightarrow> ('cd store \<times> 'w, nat \<times> pollable list) operation" where
  "processx_c_connection_poll n fuel poll interrupted ic pollables timeout s =
     (if pollables = [] then (Inr (0, []), s)
      else case pre_poll_all ic pollables s of
        (Inl e, s) \<Rightarrow> (Inl e, s)
      | (Inr xs, st, w) \<Rightarrow>
          (if collect 0 xs = [] then (Inr (ready_at_once xs, map first_event xs), st, w)
           else case processx__interruptible_poll n fuel poll interrupted (map fst (collect 0 xs))
                       (if ready_at_once xs > 0 then 0 else timeout) w of
             (Inl e, w) \<Rightarrow> (Inl e, st, w)
           | (Inr (Inl errno), w) \<Rightarrow> (Inl (R_system_error ''Processx poll error'' errno), st, w)
           | (Inr (Inr result), w) \<Rightarrow> (Inr (poll_outcome st xs result), st, w)))"

section \<open>The R entry point\<close>

text \<open>
  What R passes: a process with its external pointer (the addresses of the connections of its
  standard output and error) and its poll connection, a connection, or the descriptors of curl.
  The R code builds the vector \<open>types\<close> with the values 1, 2 and 3 only.
\<close>

datatype poll_item =
    Poll_process "(nat option \<times> nat option) option" "nat option"
  | Poll_connection "nat option"
  | Poll_curl "int list \<times> int list \<times> int list"

definition set_poll_idx :: "nat option \<Rightarrow> nat \<Rightarrow> 'cd store \<Rightarrow> 'cd store" where
  "set_poll_idx c j st = (case c of None \<Rightarrow> st | Some a \<Rightarrow> st(a := (st a)\<lparr>poll_idx := int j\<rparr>))"

fun make_pollables :: "px \<Rightarrow> int \<Rightarrow> nat \<Rightarrow> poll_item list \<Rightarrow> ('cd store \<times> 'w, pollable list) operation" where
  "make_pollables je jh j [] s = (Inr [], s)"
| "make_pollables je jh j (Poll_process h pc # items) (st, w) =
     (case h of
        None \<Rightarrow> (Inl (Undefined_behaviour ''null process handle''), st, w)
      | Some (out, err) \<Rightarrow>
          (let st = set_poll_idx pc (j + 2) (set_poll_idx err (j + 1) (set_poll_idx out j st))
           in case make_pollables je jh (j + 3) items (st, w) of
                (Inl e, s) \<Rightarrow> (Inl e, s)
              | (Inr ps, s) \<Rightarrow> (Inr (map (processx_c_pollable_from_connection je jh) [out, err, pc] @ ps), s)))"
| "make_pollables je jh j (Poll_connection c # items) (st, w) =
     (case make_pollables je jh (j + 1) items (set_poll_idx c j st, w) of
        (Inl e, s) \<Rightarrow> (Inl e, s)
      | (Inr ps, s) \<Rightarrow> (Inr (processx_c_pollable_from_connection je jh c # ps), s))"
| "make_pollables je jh j (Poll_curl fds # items) (st, w) =
     (case make_pollables je jh (j + 1) items (st, w) of
        (Inl e, s) \<Rightarrow> (Inl e, s)
      | (Inr ps, s) \<Rightarrow> (Inr (processx_c_pollable_from_curl je jh fds # ps), s))"

text \<open>The last loop: three events of a process, one of anything else.\<close>

fun poll_result :: "poll_item list \<Rightarrow> int list \<Rightarrow> int list list" where
  "poll_result [] evs = []"
| "poll_result (Poll_process h pc # items) evs = take 3 evs # poll_result items (drop 3 evs)"
| "poll_result (_ # items) evs = take 1 evs # poll_result items (drop 1 evs)"

definition processx_poll :: "px \<Rightarrow> int \<Rightarrow> nat \<Rightarrow> nat \<Rightarrow> 'w poll_call \<Rightarrow> ('w \<Rightarrow> bool \<times> 'w) \<Rightarrow> 'cd iconv \<Rightarrow>
    poll_item list \<Rightarrow> int \<Rightarrow> ('cd store \<times> 'w, int list list) operation" where
  "processx_poll je jh n fuel poll interrupted ic statuses ms =
     andthen (make_pollables je jh 0 statuses)
       (\<lambda>pollables. andthen (processx_c_connection_poll n fuel poll interrupted ic pollables ms)
          (\<lambda>(hasdata, pollables). ret (poll_result statuses (map (px_code \<circ> event) pollables))))"


section \<open>Slices and one call\<close>

text \<open>
  POSIX: waiting for \<open>a + b\<close> milliseconds is waiting for \<open>a\<close> and, when that timed out, for \<open>b\<close>.
\<close>

definition poll_additive :: "'w poll_call \<Rightarrow> bool" where
  "poll_additive poll \<longleftrightarrow>
     (\<forall>fds a b w. 0 \<le> a \<and> 0 \<le> b \<longrightarrow>
        poll fds (a + b) w = (case poll fds a w of
          (Inr (0, _), w') \<Rightarrow> poll fds b w' | (r, w') \<Rightarrow> (r, w')))"

lemma poll_additiveD:
  assumes "poll_additive poll" and "0 \<le> a" and "a \<le> t"
  shows "poll fds t w = (case poll fds a w of (Inr (0, _), w') \<Rightarrow> poll fds (t - a) w' | (r, w') \<Rightarrow> (r, w'))"
  using assms(1) [unfolded poll_additive_def, rule_format, of a "t - a" fds w] assms(2,3) by simp

lemma poll_slices_one_poll:
  assumes add: "poll_additive poll" and eintr: "\<And>fds t w. fst (poll fds t w) \<noteq> Inl EINTR"
    and quiet: "\<And>w. interrupted w = (False, w)"
    and "0 \<le> timeout" and "0 \<le> t" and "t < 200 * int n" and "0 < fuel"
  shows "poll_slices n fuel poll interrupted fds timeout t w = (case poll fds t w of (r, w') \<Rightarrow> (Inr r, w'))"
  using assms(5,6)
proof (induction n arbitrary: t w)
  case (Suc n)
  have once: "retry fuel (poll fds m) v = (case poll fds m v of (r, w') \<Rightarrow> (Inr r, w'))" for m v
    using \<open>0 < fuel\<close> eintr [of fds m v] by (cases fuel) (auto split: prod.splits)
  show ?case
  proof (cases "200 < t")
    case False
    with \<open>0 \<le> timeout\<close> Suc.prems show ?thesis by (simp add: PROCESSX_INTERRUPT_INTERVAL_def once)
  next
    case True
    obtain q v where q: "poll fds 200 w = (q, v)" by (meson surj_pair)
    have IH: "poll_slices n fuel poll interrupted fds timeout (t - 200) v =
        (case poll fds (t - 200) v of (r, w') \<Rightarrow> (Inr r, w'))"
      using True Suc.prems by (intro Suc.IH) auto
    have split: "poll fds t w = (case poll fds 200 w of
        (Inr (0, _), w') \<Rightarrow> poll fds (t - 200) w' | (r, w') \<Rightarrow> (r, w'))"
      by (rule poll_additiveD [OF add]) (use True in auto)
    show ?thesis
    proof (cases q)
      case (Inl e)
      with True q split show ?thesis by (simp add: PROCESSX_INTERRUPT_INTERVAL_def once)
    next
      case (Inr x)
      obtain m revents where x: "x = (m, revents)" by (cases x)
      show ?thesis
      proof (cases m)
        case 0
        with Inr x True q split IH quiet [of v] show ?thesis by (simp add: PROCESSX_INTERRUPT_INTERVAL_def once)
      next
        case (Suc k)
        with Inr x True q split show ?thesis by (simp add: PROCESSX_INTERRUPT_INTERVAL_def once)
      qed
    qed
  qed
qed simp

lemma poll_slices_overflow:
  assumes "\<And>w. poll fds 200 w = (Inr (0, z), w)" and quiet: "\<And>w. interrupted w = (False, w)"
    and "timeout < 0" and "- (2 ^ 31) \<le> t" and "t + 2 ^ 31 < 200 * int n" and "0 < fuel"
  shows "fst (poll_slices n fuel poll interrupted fds timeout t w) =
    Inl (Undefined_behaviour ''signed overflow of timeleft'')"
  using assms(4,5)
proof (induction n arbitrary: t w)
  case (Suc n)
  have once: "retry fuel (poll fds 200) v = (Inr (Inr (0, z)), v)" for v
    using \<open>0 < fuel\<close> assms(1) by (cases fuel) auto
  show ?case
    using \<open>timeout < 0\<close> Suc.IH [of "t - 200" w] Suc.prems
    by (cases "t - 200 < - (2 ^ 31)") (simp_all add: PROCESSX_INTERRUPT_INTERVAL_def once quiet)
qed simp

section \<open>Polling keeps the text\<close>

text \<open>\<open>src a w\<close> are the bytes still to come for the connection at the address \<open>a\<close>.\<close>

definition store_inv :: "(nat \<Rightarrow> 'w \<Rightarrow> byte list) \<Rightarrow> 'cd store \<times> 'w \<Rightarrow> bool" where
  "store_inv src = (\<lambda>(st, w). \<forall>a. conn_inv (src a) (st a, w))"

definition store_keeps :: "'cd iconv \<Rightarrow> ('cd \<Rightarrow> byte list \<Rightarrow> byte list) \<Rightarrow> (nat \<Rightarrow> 'w \<Rightarrow> byte list) \<Rightarrow>
    'cd store \<times> 'w \<Rightarrow> 'cd store \<times> 'w \<Rightarrow> bool" where
  "store_keeps ic dec src = (\<lambda>(st, w) (st', w').
     \<forall>a. keeps ic dec (src a) (st a, w) (st' a, w'))"

lemma store_keeps_refl: "store_inv src s \<Longrightarrow> store_keeps ic dec src s s"
  by (auto simp: store_inv_def store_keeps_def intro: keeps_refl)

lemma store_keeps_trans: "store_keeps ic dec src s t \<Longrightarrow> store_keeps ic dec src t u \<Longrightarrow> store_keeps ic dec src s u"
  by (fastforce simp: store_keeps_def split: prod.splits intro: keeps_trans)

lemma store_keeps_inv: "store_keeps ic dec src s t \<Longrightarrow> store_inv src t"
  by (auto simp: store_inv_def store_keeps_def split: prod.splits dest: keepsD(2))

lemma store_keeps_update:
  assumes "store_inv src (st, w)" and "keeps ic dec (src a) (st a, w) (c, w)"
  shows "store_keeps ic dec src (st, w) (st(a := c), w)"
  using assms keeps_refl by (fastforce simp: store_inv_def store_keeps_def)

lemma keeps_world:
  "keeps ic dec src (c, w) (c', w) \<Longrightarrow> src w' = src w \<Longrightarrow> keeps ic dec src (c, w) (c', w')"
  by (simp add: keeps_def conn_inv_def eof_inv_def text_of_def)

lemma store_keeps_world:
  "store_keeps ic dec src (st, w) (st', w) \<Longrightarrow> (\<And>a. src a w' = src a w) \<Longrightarrow>
   store_keeps ic dec src (st, w) (st', w')"
  by (simp add: store_keeps_def keeps_world)

lemma connection_ready_step:
  assumes ok: "converter_ok ic dec" and inv: "conn_inv src (c, w)"
    and run: "connection_ready ic (c, w) = (r, c', w')"
  shows "w' = w \<and> keeps ic dec src (c, w) (c', w) \<and>
    (\<exists>ev. r = Inr ev \<and> ev \<in> {None, Some PXCLOSED, Some PXREADY})"
proof (cases "\<not> is_closed' c \<and> \<not> is_eof' c \<and> \<not> raw_mode c \<and> utf8 c = [] \<and> buffer c \<noteq> [] \<and> \<not> is_eof_raw' c")
  case True
  obtain q s where conv: "processx__connection_to_utf8 ic (c, w) = (q, s)" by (meson surj_pair)
  from to_utf8_step [OF ok inv conv] obtain m where "q = Inr m" "keeps ic dec src (c, w) s" "snd s = w"
    by blast
  with True run conv show ?thesis by (cases s) (auto simp: connection_ready_def)
next
  case False
  with run keeps_refl [OF inv] show ?thesis by (auto simp: connection_ready_def split: if_splits)
qed

lemma pre_poll_connection_step:
  assumes ok: "converter_ok ic dec" and inv: "store_inv src (st, w)"
    and run: "processx_i_pre_poll_func_connection ic el (st, w) = (r, st', w')"
  shows "w' = w \<and> store_keeps ic dec src (st, w) (st', w) \<and>
    (\<exists>ev el'. r = Inr (ev, el') \<and> ev \<in> {PXNOPIPE, PXCLOSED, PXREADY, PXHANDLE})"
proof (cases "object el")
  case None
  with run store_keeps_refl [OF inv] show ?thesis by (auto simp: processx_i_pre_poll_func_connection_def)
next
  case (Some a)
  obtain q c v where rdy: "connection_ready ic (st a, w) = (q, c, v)" by (metis prod_cases3)
  have inva: "conn_inv (src a) (st a, w)" using inv by (simp add: store_inv_def)
  note S = connection_ready_step [OF ok inva rdy]
  have "store_keeps ic dec src (st, w) (st(a := c), w)"
    using S by (intro store_keeps_update [OF inv]) auto
  with S run rdy Some show ?thesis
    by (auto simp: processx_i_pre_poll_func_connection_def)
qed

lemma pre_poll_all_step:
  assumes ok: "converter_ok ic dec" and "store_inv src (st, w)"
    and "pre_poll_all ic ps (st, w) = (r, st', w')"
  shows "w' = w \<and> store_keeps ic dec src (st, w) (st', w) \<and> (\<exists>xs. r = Inr xs)"
  using assms(2,3)
proof (induction ps arbitrary: st r st' w')
  case Nil
  then show ?case by (auto intro: store_keeps_refl)
next
  case (Cons el ps)
  define one where "one = (case pre_poll_func el of
      Pre_poll_connection \<Rightarrow> processx_i_pre_poll_func_connection ic el (st, w)
    | Pre_poll_curl \<Rightarrow> processx_i_pre_poll_func_curl el (st, w))"
  obtain q st1 v where o: "one = (q, st1, v)" by (metis prod_cases3)
  have 1: "v = w \<and> store_keeps ic dec src (st, w) (st1, w) \<and> (\<exists>x. q = Inr x)"
  proof (cases "pre_poll_func el")
    case Pre_poll_connection
    with o have "processx_i_pre_poll_func_connection ic el (st, w) = (q, st1, v)" by (simp add: one_def)
    from pre_poll_connection_step [OF ok Cons.prems(1) this] show ?thesis by blast
  next
    case Pre_poll_curl
    with o store_keeps_refl [OF Cons.prems(1)] show ?thesis
      by (auto simp: one_def processx_i_pre_poll_func_curl_def)
  qed
  then obtain x where x: "q = Inr x" "v = w" "store_keeps ic dec src (st, w) (st1, w)" by blast
  obtain q2 st2 v2 where rest: "pre_poll_all ic ps (st1, w) = (q2, st2, v2)" by (metis prod_cases3)
  from Cons.IH [OF store_keeps_inv [OF x(3)] rest]
  have 2: "v2 = w" "store_keeps ic dec src (st1, w) (st2, w)" "\<exists>xs. q2 = Inr xs" by auto
  have "pre_poll_all ic (el # ps) (st, w) =
      (case q2 of Inl e \<Rightarrow> (Inl e, st2, v2) | Inr xs \<Rightarrow> (Inr (x # xs), st2, v2))"
    using o x rest by (simp add: one_def [symmetric] split: sum.split)
  with Cons.prems(2) 2 store_keeps_trans [OF x(3)] show ?case by auto
qed

text \<open>Polling and the check for interrupts take nothing from the descriptors.\<close>

definition poll_reads_nothing :: "'w poll_call \<Rightarrow> ('w \<Rightarrow> bool \<times> 'w) \<Rightarrow> (nat \<Rightarrow> 'w \<Rightarrow> byte list) \<Rightarrow> bool" where
  "poll_reads_nothing poll interrupted src \<longleftrightarrow>
     (\<forall>a fds t w. src a (snd (poll fds t w)) = src a w) \<and> (\<forall>a w. src a (snd (interrupted w)) = src a w)"

lemma poll_neutral:
  assumes "poll_reads_nothing poll interrupted src"
  shows "poll fds t w = (r, w') \<Longrightarrow> src a w' = src a w" and "interrupted w = (b, w') \<Longrightarrow> src a w' = src a w"
  using assms unfolding poll_reads_nothing_def by (metis snd_conv)+

lemma poll_slices_neutral:
  assumes law: "poll_reads_nothing poll interrupted src"
    and "poll_slices n fuel poll interrupted fds timeout t w = (r, w')"
  shows "src a w' = src a w"
  using assms(2)
proof (induction n arbitrary: t w)
  case (Suc n)
  have retry: "src a v' = src a v" if "retry fuel (poll fds m) v = (q, v')" for m v q v'
    using that by (induction fuel arbitrary: v) (auto split: prod.splits if_splits dest: poll_neutral(1) [OF law, where a = a])
  obtain q v where q: "retry fuel (poll fds PROCESSX_INTERRUPT_INTERVAL) w = (q, v)" by (meson surj_pair)
  obtain b u where b: "interrupted v = (b, u)" by (meson surj_pair)
  have "src a v = src a w" "src a u = src a v"
    using retry [OF q] poll_neutral(2) [OF law b] by simp_all
  with Suc.prems q b Suc.IH retry show ?case
    by (auto split: if_splits sum.splits bool.splits)
qed simp

lemma connection_poll_step:
  assumes ok: "converter_ok ic dec" and law: "poll_reads_nothing poll interrupted src"
    and inv: "store_inv src (st, w)"
    and run: "processx_c_connection_poll n fuel poll interrupted ic ps timeout (st, w) = (r, st', w')"
  shows "store_keeps ic dec src (st, w) (st', w')"
proof (cases "ps = []")
  case True
  with run store_keeps_refl [OF inv] show ?thesis by (simp add: processx_c_connection_poll_def)
next
  case False
  obtain q st1 v where pre: "pre_poll_all ic ps (st, w) = (q, st1, v)" by (metis prod_cases3)
  from pre_poll_all_step [OF ok inv pre] obtain xs
    where 1: "q = Inr xs" "v = w" "store_keeps ic dec src (st, w) (st1, w)" by blast
  define t where "t = (if ready_at_once xs > 0 then 0 else timeout)"
  define fds where "fds = map fst (collect 0 xs)"
  obtain q2 v2 where sl: "processx__interruptible_poll n fuel poll interrupted fds t w = (q2, v2)" by (meson surj_pair)
  then have "src a v2 = src a w" for a
    unfolding processx__interruptible_poll_def by (rule poll_slices_neutral [OF law])
  with 1(3) have 2: "store_keeps ic dec src (st, w) (st1, v2)" by (rule store_keeps_world)
  have "st' = st1 \<and> (w' = w \<or> w' = v2)"
    using run [unfolded processx_c_connection_poll_def] False pre 1 sl [unfolded t_def fds_def]
    by (cases "collect 0 xs = []"; cases q2) (auto split: sum.splits)
  with 1(3) 2 show ?thesis by auto
qed

lemma poll_idx_keeps: "conn_inv src (c, w) \<Longrightarrow> keeps ic dec src (c, w) (c\<lparr>poll_idx := j\<rparr>, w)"
  by (auto simp: keeps_def same_fields_def conn_inv_def eof_inv_def memory_inv_def text_of_def current_cd_def
      split: option.split)

lemma set_poll_idx_keeps: "store_inv src (st, w) \<Longrightarrow> store_keeps ic dec src (st, w) (set_poll_idx c j st, w)"
  by (cases c) (simp_all add: set_poll_idx_def store_keeps_refl store_keeps_update poll_idx_keeps store_inv_def)

section \<open>Counting the events\<close>

definition is_ready_event :: "pollable \<Rightarrow> bool" where
  "is_ready_event p \<longleftrightarrow> event p \<in> {PXREADY, PXCONNECT}"

definition ready_count :: "pollable list \<Rightarrow> nat" where
  "ready_count ps = length (filter is_ready_event ps)"

lemma ready_count_update:
  "i < length ps \<Longrightarrow> \<not> is_ready_event (ps ! i) \<Longrightarrow>
   ready_count (ps[i := x]) = (if is_ready_event x then ready_count ps + 1 else ready_count ps)"
  unfolding ready_count_def
proof (induction ps arbitrary: i)
  case (Cons p ps)
  then show ?case by (cases i) auto
qed simp

lemma descriptors_handle: "fst x = PXHANDLE \<Longrightarrow> descriptors x = [(phandle (snd x), POLLIN)]"
  by (simp add: descriptors_def split_beta)

lemma descriptors_polled: "descriptors x \<noteq> [] \<Longrightarrow> fst x \<in> {PXHANDLE, PXSELECT}"
  by (simp add: descriptors_def split_beta split: if_splits)

text \<open>The entries of \<open>collect\<close> name objects that were to be polled, and connections only once.\<close>

lemma collect_index:
  "(d, i) \<in> set (collect k xs) \<Longrightarrow> k \<le> i \<and> i < k + length xs \<and> fst (xs ! (i - k)) \<in> {PXHANDLE, PXSELECT}"
proof (induction xs arbitrary: k)
  case (Cons x xs)
  show ?case
  proof (cases "(d, i) \<in> set (collect (Suc k) xs)")
    case True
    note IH = Cons.IH [OF True]
    then have "k < i" by simp
    then have "i - k = Suc (i - Suc k)" by (rule Suc_diff_Suc [symmetric])
    with IH show ?thesis by simp
  next
    case False
    with Cons.prems have "i = k" "descriptors x \<noteq> []" by auto
    with descriptors_polled [of x] show ?thesis by simp
  qed
qed simp

lemma collect_once:
  "distinct (filter (\<lambda>i. fst (xs ! (i - k)) \<noteq> PXSELECT) (map snd (collect k xs)))"
proof (induction xs arbitrary: k)
  case (Cons x xs)
  let ?later = "map snd (collect (Suc k) xs)"
  have later: "Suc k \<le> i" if "i \<in> set ?later" for i using that collect_index by fastforce
  then have "filter (\<lambda>i. fst ((x # xs) ! (i - k)) \<noteq> PXSELECT) ?later =
      filter (\<lambda>i. fst (xs ! (i - Suc k)) \<noteq> PXSELECT) ?later"
  proof (intro filter_cong refl)
    fix i assume "i \<in> set ?later"
    then have "Suc k \<le> i" by (rule later)
    then have "k < i" by simp
    then have "i - k = Suc (i - Suc k)" by (rule Suc_diff_Suc [symmetric])
    then show "(fst ((x # xs) ! (i - k)) \<noteq> PXSELECT) = (fst (xs ! (i - Suc k)) \<noteq> PXSELECT)" by simp
  qed
  moreover have "filter (\<lambda>i. fst ((x # xs) ! (i - k)) \<noteq> PXSELECT) (map snd (map (\<lambda>d. (d, k)) (descriptors x))) =
      (if fst x = PXHANDLE then [k] else [])"
    using descriptors_polled [of x] descriptors_handle [of x]
    by (cases "fst x = PXHANDLE"; cases "descriptors x = []") (auto simp: filter_empty_conv)
  moreover have "k \<notin> set ?later" using later by fastforce
  ultimately show ?case using Cons.IH [of "Suc k"] by auto
qed simp

lemma collect_bound: "i \<in> set (map snd (collect 0 xs)) \<Longrightarrow> i < length xs"
  using collect_index [of _ i 0 xs] by fastforce

text \<open>
  What holds of the objects while the results of \<open>poll\<close> are looked at: \<open>todo\<close> are the entries
  still to be looked at.
\<close>

definition counted :: "px list \<Rightarrow> nat list \<Rightarrow> pollable list \<times> nat \<Rightarrow> bool" where
  "counted events todo = (\<lambda>(ps, hasdata).
     length ps = length events \<and> hasdata = ready_count ps \<and>
     (\<forall>i < length events. event (ps ! i) \<notin> {PXTIMEOUT, PXHANDLE, PXSELECT} \<and>
        (events ! i = PXSELECT \<longrightarrow> event (ps ! i) \<in> {PXSILENT, PXEVENT})) \<and>
     (\<forall>i \<in> set todo. i < length events \<and> (events ! i \<noteq> PXSELECT \<longrightarrow> event (ps ! i) = PXSILENT)) \<and>
     distinct (filter (\<lambda>i. events ! i \<noteq> PXSELECT) todo))"

lemma decode_range: "processx__poll_decode code \<in> {PXCLOSED, PXREADY, PXSILENT}"
  by (simp add: processx__poll_decode_def)

lemma counted_found:
  assumes "counted events (i # todo) (ps, hasdata)"
  shows "counted events todo (found st events (i, revents) (ps, hasdata))"
proof -
  have i: "i < length ps" using assms by (simp add: counted_def)
  show ?thesis
  proof (cases "events ! i = PXSELECT")
    case True
    with assms i have "\<not> is_ready_event (ps ! i)" by (auto simp: counted_def is_ready_event_def)
    with True assms i show ?thesis
      by (auto simp: counted_def found_def Let_def ready_count_update nth_list_update is_ready_event_def)
  next
    case False
    with assms i have s: "event (ps ! i) = PXSILENT" by (simp add: counted_def)
    then have nr: "\<not> is_ready_event (ps ! i)" by (simp add: is_ready_event_def)
    define ccon where "ccon = st (the (object (ps ! i)))"
    define ev where "ev = (if processx__poll_decode revents = PXREADY
      then if ctype ccon = PROCESSX_FILE_TYPE_SOCKET \<and> sock_state ccon = PROCESSX_SOCKET_LISTEN
        then PXCONNECT else PXREADY
      else processx__poll_decode revents)"
    define hd where "hd = (if ev \<in> {PXREADY, PXCONNECT} then hasdata + 1 else hasdata)"
    have f: "found st events (i, revents) (ps, hasdata) = (ps[i := (ps ! i)\<lparr>event := ev\<rparr>], hd)"
      using False decode_range [of revents] by (auto simp: found_def Let_def ev_def hd_def ccon_def)
    have ev: "ev \<in> {PXCLOSED, PXREADY, PXSILENT, PXCONNECT}"
      using decode_range [of revents] by (auto simp: ev_def)
    have "ready_count (ps[i := (ps ! i)\<lparr>event := ev\<rparr>]) = hd"
      using assms by (simp add: ready_count_update [OF i nr] is_ready_event_def counted_def hd_def)
    moreover have "event (ps[i := (ps ! i)\<lparr>event := ev\<rparr>] ! j) = (if j = i then ev else event (ps ! j))" for j
      using i by (simp add: nth_list_update)
    ultimately show ?thesis
      using assms False ev unfolding f by (auto simp: counted_def)
  qed
qed

lemma counted_fold:
  "counted events (map fst l) (ps, hasdata) \<Longrightarrow> counted events [] (fold (found st events) l (ps, hasdata))"
proof (induction l arbitrary: ps hasdata)
  case (Cons x l)
  obtain i r where x: "x = (i, r)" by (cases x)
  obtain ps' hd where f: "found st events (i, r) (ps, hasdata) = (ps', hd)" by (meson surj_pair)
  with Cons.prems counted_found [of events i "map fst l" ps hasdata st r] x
  have "counted events (map fst l) (ps', hd)" by simp
  from Cons.IH [OF this] f x show ?case by simp
qed simp

lemma counted_shorter: "counted events (xs @ ys) s \<Longrightarrow> counted events xs s"
  by (auto simp: counted_def)

text \<open>The state before the last loop.\<close>

lemma pre_poll_events:
  assumes "pre_poll_all ic ps s = (Inr xs, s')"
  shows "length xs = length ps \<and>
    (\<forall>i < length ps. pre_poll_func (snd (xs ! i)) = pre_poll_func (ps ! i) \<and>
      (if pre_poll_func (ps ! i) = Pre_poll_curl then fst (xs ! i) = PXSELECT
       else fst (xs ! i) \<in> {PXNOPIPE, PXCLOSED, PXREADY, PXHANDLE}))"
  using assms
proof (induction ps arbitrary: s xs s')
  case (Cons el ps)
  obtain x s1 where one: "(case pre_poll_func el of
      Pre_poll_connection \<Rightarrow> processx_i_pre_poll_func_connection ic el s
    | Pre_poll_curl \<Rightarrow> processx_i_pre_poll_func_curl el s) = (Inr x, s1)"
    using Cons.prems by (auto split: prod.splits sum.splits)
  with Cons.prems obtain ys s2 where rest: "pre_poll_all ic ps s1 = (Inr ys, s2)" "xs = x # ys"
    by (auto split: prod.splits sum.splits)
  have ready: "ev \<in> {PXCLOSED, PXREADY}" if "connection_ready ic t = (Inr (Some ev), t')" for ev t t'
    using that by (cases t) (auto simp: connection_ready_def split: if_splits prod.splits sum.splits)
  have "pre_poll_func (snd x) = pre_poll_func el \<and>
      (if pre_poll_func el = Pre_poll_curl then fst x = PXSELECT
       else fst x \<in> {PXNOPIPE, PXCLOSED, PXREADY, PXHANDLE})"
    using one
    by (cases "pre_poll_func el")
      (auto simp: processx_i_pre_poll_func_connection_def processx_i_pre_poll_func_curl_def
        split: prod.splits sum.splits option.splits dest!: ready)
  with Cons.IH [OF rest(1)] rest(2) show ?case by (auto simp: nth_Cons split: nat.splits)
qed simp

lemma counted_start:
  assumes "\<And>x. x \<in> set xs \<Longrightarrow> fst x \<in> {PXNOPIPE, PXCLOSED, PXREADY, PXHANDLE, PXSELECT}"
  shows "counted (map fst xs) (map snd (collect 0 xs))
    (map first_event xs, ready_at_once xs)"
proof -
  have ev: "event (first_event x) = (if fst x = PXHANDLE \<or> fst x = PXSELECT then PXSILENT else fst x)"
    if "x \<in> set xs" for x
    using assms [OF that] by (cases x) (auto simp: first_event_def)
  have "is_ready_event (first_event x) = (fst x = PXREADY)" if "x \<in> set xs" for x
    using assms [OF that] ev [OF that] by (auto simp: is_ready_event_def)
  then have "filter (is_ready_event \<circ> first_event) xs = filter ((\<lambda>ev. ev = PXREADY) \<circ> fst) xs"
    by (intro filter_cong) auto
  then have "ready_count (map first_event xs) = ready_at_once xs"
    by (simp add: ready_count_def ready_at_once_def filter_map)
  moreover have "i < length xs" if "i \<in> set (map snd (collect 0 xs))" for i
    by (rule collect_bound [OF that])
  moreover have "fst (xs ! i) \<in> {PXHANDLE, PXSELECT}" if "i \<in> set (map snd (collect 0 xs))" for i
    using that collect_index [of _ i 0 xs] by fastforce
  moreover have "distinct (filter (\<lambda>i. map fst xs ! i \<noteq> PXSELECT) (map snd (collect 0 xs)))"
  proof -
    have "filter (\<lambda>i. map fst xs ! i \<noteq> PXSELECT) (map snd (collect 0 xs)) =
        filter (\<lambda>i. fst (xs ! (i - 0)) \<noteq> PXSELECT) (map snd (collect 0 xs))"
      by (rule filter_cong) (auto dest!: collect_bound [simplified])
    with collect_once [of xs 0] show ?thesis by simp
  qed
  moreover have "event (map first_event xs ! i) \<notin> {PXTIMEOUT, PXHANDLE, PXSELECT} \<and>
      (map fst xs ! i = PXSELECT \<longrightarrow> event (map first_event xs ! i) = PXSILENT) \<and>
      (map fst xs ! i \<in> {PXHANDLE, PXSELECT} \<longrightarrow> event (map first_event xs ! i) = PXSILENT)"
    if "i < length xs" for i
    using that assms [of "xs ! i"] ev [of "xs ! i"] by auto
  ultimately show ?thesis unfolding counted_def by auto
qed

lemma timed_out_events:
  assumes "\<forall>i \<in> set ptr. i < length ps"
  shows "length (timed_out ptr ps) = length ps \<and>
    (\<forall>j < length ps. event (timed_out ptr ps ! j) = (if j \<in> set ptr then PXTIMEOUT else event (ps ! j)))"
  using assms unfolding timed_out_def
proof (induction ptr arbitrary: ps)
  case (Cons i ptr)
  let ?ps = "ps[i := (ps ! i)\<lparr>event := PXTIMEOUT\<rparr>]"
  from Cons.IH [of ?ps] Cons.prems show ?case by (auto simp: nth_list_update)
qed simp

text \<open>The events and the count at the end.\<close>

lemma poll_counts:
  assumes "processx_c_connection_poll n fuel poll interrupted ic pollables timeout s = (Inr (hasdata, ps), s')"
  shows "length ps = length pollables \<and> hasdata = ready_count ps \<and>
    (\<forall>i < length ps. event (ps ! i) \<notin> {PXHANDLE, PXSELECT} \<and>
      (pre_poll_func (pollables ! i) = Pre_poll_curl \<longrightarrow> event (ps ! i) \<in> {PXSILENT, PXEVENT, PXTIMEOUT}) \<and>
      (event (ps ! i) = PXTIMEOUT \<longrightarrow> hasdata = 0))"
proof (cases "pollables = []")
  case True
  with assms show ?thesis by (simp add: processx_c_connection_poll_def ready_count_def)
next
  case False
  from assms False obtain xs st w where pre: "pre_poll_all ic pollables s = (Inr xs, st, w)"
    by (auto simp: processx_c_connection_poll_def split: prod.splits sum.splits)
  note E = pre_poll_events [OF pre]
  have "fst x \<in> {PXNOPIPE, PXCLOSED, PXREADY, PXHANDLE, PXSELECT}" if "x \<in> set xs" for x
    using that E unfolding in_set_conv_nth by (metis insert_iff)
  note C = counted_start [of xs, OF this]
  have curl: "pre_poll_func (pollables ! i) = Pre_poll_curl \<Longrightarrow> map fst xs ! i = PXSELECT"
    if "i < length pollables" for i
    using that E by auto
  have post: ?thesis if "counted (map fst xs) l (ps, hasdata)" for l
    using that curl E by (auto simp: counted_def)
  consider (start) "ps = map first_event xs" "hasdata = ready_at_once xs"
    | (silent) "ps = timed_out (map snd (collect 0 xs)) (map first_event xs)" "hasdata = 0" "ready_at_once xs = 0"
    | (events) revents where "fold (found st (map fst xs)) (zip (map snd (collect 0 xs)) revents)
        (map first_event xs, ready_at_once xs) = (ps, hasdata)"
    using assms [unfolded processx_c_connection_poll_def] False pre
    by (auto simp: poll_outcome_def Let_def split: prod.splits sum.splits if_splits)
  then show ?thesis
  proof cases
    case start
    with C post show ?thesis by simp
  next
    case silent
    let ?todo = "map snd (collect 0 xs)" and ?ps = "map first_event xs"
    have "\<forall>i \<in> set ?todo. i < length ?ps" using collect_bound [of _ xs] by simp
    note T = timed_out_events [OF this]
    have "\<not> is_ready_event (?ps ! i)" if "i < length xs" for i
      using C silent(3) that by (auto simp: counted_def ready_count_def filter_empty_conv)
    then have "\<not> is_ready_event (ps ! i)" if "i < length ps" for i
      using T silent(1) that by (simp add: is_ready_event_def)
    then have "ready_count ps = 0" by (auto simp: ready_count_def filter_empty_conv in_set_conv_nth)
    with T silent C curl E show ?thesis by (auto simp: counted_def)
  next
    case events
    have "counted (map fst xs) (map fst (zip (map snd (collect 0 xs)) revents)) (map first_event xs, ready_at_once xs)"
      using C counted_shorter [of "map fst xs" "take (min (length (collect 0 xs)) (length revents)) (map snd (collect 0 xs))"
          "drop (min (length (collect 0 xs)) (length revents)) (map snd (collect 0 xs))"]
      by (simp add: map_fst_zip_take)
    from counted_fold [OF this, of st] events post show ?thesis by metis
  qed
qed

section \<open>The R entry point\<close>

fun events_of :: "poll_item \<Rightarrow> nat" where
  "events_of (Poll_process h pc) = 3"
| "events_of _ = 1"

lemma make_pollables_length:
  "make_pollables je jh j items s = (Inr ps, s') \<Longrightarrow> length ps = sum_list (map events_of items)"
proof (induction items arbitrary: j s ps)
  case (Cons x items)
  obtain st w where s: "s = (st, w)" by (cases s)
  from Cons show ?case
    by (cases x) (auto simp: s Let_def split: prod.splits sum.splits option.splits)
qed simp

lemma make_pollables_keeps:
  "store_inv src s \<Longrightarrow> make_pollables je jh j items s = (r, s') \<Longrightarrow> store_keeps ic dec src s s'"
proof (induction items arbitrary: j s r s')
  case Nil
  then show ?case by (auto intro: store_keeps_refl)
next
  case (Cons x items)
  obtain st w where s: "s = (st, w)" by (cases s)
  have idx: "store_inv src (set_poll_idx c i st', w)" "store_keeps ic dec src (st', w) (set_poll_idx c i st', w)"
    if "store_inv src (st', w)" for c i st'
    using set_poll_idx_keeps [OF that] store_keeps_inv by blast+
  show ?case
  proof (cases x)
    case (Poll_process h pc)
    show ?thesis
    proof (cases h)
      case None
      with Cons.prems Poll_process s store_keeps_refl show ?thesis by auto
    next
      case (Some oe)
      obtain out err where oe: "oe = (out, err)" by (cases oe)
      let ?st = "set_poll_idx pc (j + 2) (set_poll_idx err (j + 1) (set_poll_idx out j st))"
      note inv = Cons.prems(1) [unfolded s]
      have k: "store_keeps ic dec src (st, w) (?st, w)"
        using idx(2) [OF inv] idx(2) [OF idx(1) [OF inv]] idx(2) [OF idx(1) [OF idx(1) [OF inv]]]
        by (blast intro: store_keeps_trans)
      obtain q s2 where rest: "make_pollables je jh (j + 3) items (?st, w) = (q, s2)" by (meson surj_pair)
      have "store_keeps ic dec src (?st, w) s2"
        by (rule Cons.IH [OF store_keeps_inv [OF k] rest])
      moreover have "s' = s2" using Cons.prems(2) Poll_process Some oe s rest by (auto simp: Let_def split: sum.splits)
      ultimately show ?thesis using k s store_keeps_trans by blast
    qed
  next
    case (Poll_connection c)
    obtain q s2 where rest: "make_pollables je jh (j + 1) items (set_poll_idx c j st, w) = (q, s2)" by (meson surj_pair)
    note k = idx [OF Cons.prems(1) [unfolded s], of c j]
    have "s' = s2" using Cons.prems(2) Poll_connection s rest by (auto split: sum.splits)
    with Cons.IH [OF k(1) rest] k(2) s show ?thesis using store_keeps_trans by blast
  next
    case (Poll_curl fds)
    obtain q s2 where rest: "make_pollables je jh (j + 1) items (st, w) = (q, s2)" by (meson surj_pair)
    have "s' = s2" using Cons.prems(2) Poll_curl s rest by (auto split: sum.splits)
    with Cons.IH [OF Cons.prems(1) [unfolded s] rest] s show ?thesis by simp
  qed
qed

lemma poll_result_shape:
  "length evs = sum_list (map events_of items) \<Longrightarrow>
   map length (poll_result items evs) = map events_of items \<and> concat (poll_result items evs) = evs"
proof (induction items arbitrary: evs)
  case (Cons x items)
  from Cons.prems Cons.IH [of "drop (events_of x) evs"] show ?case by (cases x) auto
qed simp

end
