(* ===== verification/Conn_Poll_Props.thy ===== *)
theory Conn_Poll_Props
  imports Conn_Poll Conn_Session
begin

text \<open>
  The properties of polling: a sliced wait is one wait, polling takes no data from a connection,
  what the events and their count mean, and what R gets.
\<close>

text \<open>All descriptors are readable; the object at the address 0 is a listening socket, the others are pipes.\<close>

definition readable_poll :: "pieces poll_call" where
  "readable_poll fds t w = (Inr (length fds, map (\<lambda>_. POLLIN) fds), w)"

definition sample_store :: "unit store" where
  "sample_store = (\<lambda>a. if a = 0 then (pipe_conn 5)\<lparr>ctype := PROCESSX_FILE_TYPE_SOCKET, sock_state := 1\<rparr> else pipe_conn 6)"

text \<open>C19: polling with a timeout in slices of at most 200 milliseconds, with a check for an interrupt
  between slices, is one call of \<open>poll\<close> with the whole timeout, when nobody interrupts; one slice
  per 200 milliseconds and one more are enough.\<close>

theorem sliced_poll_is_poll:
  assumes "poll_additive poll" and "\<And>fds t w. fst (poll fds t w) \<noteq> Inl EINTR"
    and "\<And>w. interrupted w = (False, w)"
    and "0 \<le> timeout" and "timeout < 200 * int n" and "0 < fuel"
  shows "processx__interruptible_poll n fuel poll interrupted fds timeout w =
    (case poll fds timeout w of (r, w') \<Rightarrow> (Inr r, w'))"
  using poll_slices_one_poll [OF assms(1-3) assms(4) assms(4-6)] by (simp add: processx__interruptible_poll_def)

text \<open>A system with a clock, whose descriptors become readable at the time 450.\<close>

definition clock_poll :: "int poll_call" where
  "clock_poll fds t w =
     (if fds \<noteq> [] \<and> 450 \<le> w + t then (Inr (length fds, map (\<lambda>_. POLLIN) fds), max w 450)
      else (Inr (0, map (\<lambda>_. 0) fds), w + t))"

theorem sliced_poll_is_poll_witness:
  "processx__interruptible_poll 6 1 clock_poll (Pair False) [(4, POLLIN)] 1000 0 = (Inr (Inr (1, [POLLIN])), 450)"
proof -
  have "poll_additive clock_poll"
    by (auto simp: poll_additive_def clock_poll_def max_def split: nat.split)
  then show ?thesis by (subst sliced_poll_is_poll) (auto simp: clock_poll_def)
qed

text \<open>With an infinite timeout (a negative one) on descriptors that stay silent, the time left is
  decremented below the range of \<open>int\<close> after 10737418 slices, which is undefined behaviour.\<close>

theorem infinite_poll_overflows:
  assumes "\<And>w. poll fds 200 w = (Inr (0, z), w)" and "\<And>w. interrupted w = (False, w)"
    and "timeout < 0" and "- (2 ^ 31) \<le> timeout" and "10737418 < n" and "0 < fuel"
  shows "fst (processx__interruptible_poll n fuel poll interrupted fds timeout w) =
    Inl (Undefined_behaviour ''signed overflow of timeleft'')"
  unfolding processx__interruptible_poll_def
  by (rule poll_slices_overflow [where z = z]) (use assms in auto)

theorem infinite_poll_overflows_witness:
  "fst (processx__interruptible_poll 10737419 1 (\<lambda>fds t w. (Inr (0, [0]), w)) (Pair False) [(4, POLLIN)] (-1) ()) =
    Inl (Undefined_behaviour ''signed overflow of timeleft'')"
  by (rule infinite_poll_overflows) auto

text \<open>C17: polling takes nothing from any connection: whatever the events, the errors and the
  interrupts, the text of every connection is the same after \<open>processx_poll\<close>, with the invariant
  of the reading operations, although polling may convert buffered bytes.\<close>

theorem poll_keeps_text:
  assumes "converter_ok ic dec" and "poll_reads_nothing poll interrupted src" and "store_inv src (st, w)"
    and "processx_poll je jh n fuel poll interrupted ic statuses ms (st, w) = (r, st', w')"
  shows "store_inv src (st', w') \<and> text_of ic dec (src a) (st' a, w') = text_of ic dec (src a) (st a, w)"
proof -
  obtain q st1 w1 where mk: "make_pollables je jh 0 statuses (st, w) = (q, st1, w1)" by (metis prod_cases3)
  have 1: "store_keeps ic dec src (st, w) (st1, w1)" by (rule make_pollables_keeps [OF assms(3) mk])
  have "store_keeps ic dec src (st1, w1) (st', w')"
  proof (cases q)
    case (Inl e)
    with assms(4) mk store_keeps_refl [OF store_keeps_inv [OF 1]] show ?thesis by (simp add: processx_poll_def)
  next
    case (Inr ps)
    obtain q2 st2 w2 where poll: "processx_c_connection_poll n fuel poll interrupted ic ps ms (st1, w1) = (q2, st2, w2)"
      by (metis prod_cases3)
    with assms(4) mk Inr have "st' = st2" "w' = w2" by (cases q2; auto simp: processx_poll_def)+
    with connection_poll_step [OF assms(1,2) store_keeps_inv [OF 1] poll] show ?thesis by simp
  qed
  with 1 have "store_keeps ic dec src (st, w) (st', w')" by (rule store_keeps_trans)
  with store_keeps_inv [OF this] show ?thesis by (auto simp: store_keeps_def dest: keepsD(1))
qed

theorem poll_keeps_text_witness:
  "text_of utf8_iconv (\<lambda>cd bs. bs) pieces_left
     (case snd (processx_poll PXSILENT 0 1 1 readable_poll (Pair False) utf8_iconv
         [Poll_process (Some (Some 1, None)) None, Poll_connection (Some 1)] 100 (sample_store, [Some [97], None]))
      of (st, w) \<Rightarrow> (st 1, w)) = [97]"
proof -
  have "poll_reads_nothing readable_poll (Pair False) (\<lambda>a. pieces_left)"
    by (simp add: poll_reads_nothing_def readable_poll_def)
  moreover have "store_inv (\<lambda>a. pieces_left) (sample_store, [Some [97], None])"
    by (simp add: store_inv_def sample_store_def conn_inv_def eof_inv_def memory_inv_def pipe_conn_def)
  moreover obtain r st' w' where run: "processx_poll PXSILENT 0 1 1 readable_poll (Pair False) utf8_iconv
      [Poll_process (Some (Some 1, None)) None, Poll_connection (Some 1)] 100 (sample_store, [Some [97], None]) =
      (r, st', w')" by (metis prod_cases3)
  ultimately have "text_of utf8_iconv (\<lambda>cd bs. bs) pieces_left (st' 1, w') =
      text_of utf8_iconv (\<lambda>cd bs. bs) pieces_left (sample_store 1, [Some [97], None])"
    using poll_keeps_text [OF utf8_converter, of readable_poll "Pair False" "\<lambda>a. pieces_left"] by blast
  also have "\<dots> = [97]" by (simp add: text_of_def sample_store_def pipe_conn_def pieces_left_def)
  finally show ?thesis using run by simp
qed

text \<open>C18: when \<open>processx_c_connection_poll\<close> returns, it returns the number of objects whose event is
  "ready" or "connect" (so the events of curl are not counted); every event is one of the seven
  public ones, those of curl objects are silent, event or timeout, and there is a timeout only when
  nothing was ready.\<close>

theorem poll_counts_ready:
  assumes "processx_c_connection_poll n fuel poll interrupted ic pollables timeout s = (Inr (hasdata, ps), s')"
  shows "length ps = length pollables \<and> hasdata = ready_count ps \<and>
    (\<forall>i < length ps. event (ps ! i) \<notin> {PXHANDLE, PXSELECT} \<and>
      (pre_poll_func (pollables ! i) = Pre_poll_curl \<longrightarrow> event (ps ! i) \<in> {PXSILENT, PXEVENT, PXTIMEOUT}) \<and>
      (event (ps ! i) = PXTIMEOUT \<longrightarrow> hasdata = 0))"
  using poll_counts [OF assms] .

lemma sample_ready: "connection_ready ic (sample_store a, w) = (Inr None, sample_store a, w)"
  by (simp add: connection_ready_def sample_store_def pipe_conn_def)

lemma sample_pre_poll:
  "pre_poll_all utf8_iconv
      [processx_c_pollable_from_connection PXSILENT 0 (Some 0), processx_c_pollable_from_curl PXSILENT 0 ([7], [], []),
       processx_c_pollable_from_connection PXSILENT 0 (Some 1)] (sample_store, w) =
    (Inr [(PXHANDLE, processx_c_pollable_from_connection PXSILENT 5 (Some 0)),
          (PXSELECT, processx_c_pollable_from_curl PXSILENT 0 ([7], [], [])),
          (PXHANDLE, processx_c_pollable_from_connection PXSILENT 6 (Some 1))], sample_store, w)"
proof -
  have h: "handle (sample_store 0) = 5" "handle (sample_store (Suc 0)) = 6"
    by (simp_all add: sample_store_def pipe_conn_def)
  show ?thesis
    by (simp add: processx_i_pre_poll_func_connection_def processx_i_pre_poll_func_curl_def sample_ready
        processx_c_pollable_from_connection_def processx_c_pollable_from_curl_def h)
qed

theorem poll_counts_ready_witness:
  "\<exists>ps. fst (processx_c_connection_poll 1 1 readable_poll (Pair False) utf8_iconv
      [processx_c_pollable_from_connection PXSILENT 0 (Some 0), processx_c_pollable_from_curl PXSILENT 0 ([7], [], []),
       processx_c_pollable_from_connection PXSILENT 0 (Some 1)] 100 (sample_store, [])) = Inr (2, ps) \<and>
    ready_count ps = 2 \<and> map event ps = [PXCONNECT, PXEVENT, PXREADY]"
proof -
  define poll where "poll = processx_c_connection_poll 1 1 readable_poll (Pair False) utf8_iconv
      [processx_c_pollable_from_connection PXSILENT 0 (Some 0), processx_c_pollable_from_curl PXSILENT 0 ([7], [], []),
       processx_c_pollable_from_connection PXSILENT 0 (Some 1)] 100 (sample_store, [])"
  have t: "ctype (sample_store 0) = PROCESSX_FILE_TYPE_SOCKET" "sock_state (sample_store 0) = PROCESSX_SOCKET_LISTEN"
      "ctype (sample_store (Suc 0)) \<noteq> PROCESSX_FILE_TYPE_SOCKET"
    by (simp_all add: sample_store_def pipe_conn_def PROCESSX_SOCKET_LISTEN_def)
  have d: "processx__poll_decode POLLIN = PXREADY" "POLLIN AND (POLLNVAL OR POLLIN OR POLLHUP OR POLLOUT) \<noteq> 0"
    by (simp_all add: processx__poll_decode_def POLLIN_def POLLOUT_def POLLHUP_def POLLNVAL_def)
  have "\<exists>ps. fst poll = Inr (2, ps) \<and> map event ps = [PXCONNECT, PXEVENT, PXREADY]"
    unfolding poll_def processx_c_connection_poll_def sample_pre_poll
    by (simp add: first_event_def descriptors_def readable_poll_def processx__interruptible_poll_def
        PROCESSX_INTERRUPT_INTERVAL_def poll_outcome_def found_def ready_at_once_def Let_def t d
        processx_c_pollable_from_connection_def processx_c_pollable_from_curl_def)
  then obtain ps where ps: "fst poll = Inr (2, ps)" "map event ps = [PXCONNECT, PXEVENT, PXREADY]" by (elim exE conjE)
  from fst_eqD [OF ps(1)] obtain s' where "poll = (Inr (2, ps), s')" by blast
  from poll_counts_ready [OF this [unfolded poll_def]] ps have n: "ready_count ps = 2" by simp
  show ?thesis unfolding poll_def [symmetric] by (intro exI [of _ ps] conjI) (rule ps n)+
qed

text \<open>What \<open>processx_poll\<close> returns to R has one entry per object, three events for a process and
  one for any other, and all of them are codes of public events, from 1 to 7.\<close>

theorem poll_results_public:
  assumes "processx_poll je jh n fuel poll interrupted ic statuses ms s = (Inr result, s')"
  shows "map length result = map events_of statuses \<and>
    (\<forall>ev \<in> set (concat result). 1 \<le> ev \<and> ev \<le> 7)"
proof -
  from assms [unfolded processx_poll_def] obtain ps s1 where
    mk: "make_pollables je jh 0 statuses s = (Inr ps, s1)" and
    rest: "andthen (processx_c_connection_poll n fuel poll interrupted ic ps ms)
       (\<lambda>(hasdata, pollables). ret (poll_result statuses (map (px_code \<circ> event) pollables))) s1 = (Inr result, s')"
    by (rule andthen_InrE)
  from rest obtain x s2 where px: "processx_c_connection_poll n fuel poll interrupted ic ps ms s1 = (Inr x, s2)" and
    rx: "(case x of (hasdata, pollables) \<Rightarrow> ret (poll_result statuses (map (px_code \<circ> event) pollables))) s2 = (Inr result, s')"
    by (rule andthen_InrE)
  obtain hasdata qs where x: "x = (hasdata, qs)" by (cases x)
  from px rx x have poll: "processx_c_connection_poll n fuel poll interrupted ic ps ms s1 = (Inr (hasdata, qs), s2)"
    and res: "result = poll_result statuses (map (px_code \<circ> event) qs)" by simp_all
  note P = poll_counts [OF poll]
  with make_pollables_length [OF mk] have len: "length (map (px_code \<circ> event) qs) = sum_list (map events_of statuses)"
    by simp
  have "1 \<le> px_code (event q) \<and> px_code (event q) \<le> 7" if "q \<in> set qs" for q
  proof -
    from that obtain i where "i < length qs" "q = qs ! i" unfolding in_set_conv_nth by blast
    with P have "event q \<notin> {PXHANDLE, PXSELECT}" by blast
    then show ?thesis by (cases "event q") auto
  qed
  with poll_result_shape [OF len] res show ?thesis by auto
qed

theorem poll_results_public_witness:
  "\<exists>result. fst (processx_poll PXSILENT 0 1 1 readable_poll (Pair False) utf8_iconv
      [Poll_process (Some (Some 1, None)) None, Poll_curl ([7], [], [])] 100 (sample_store, [])) = Inr result \<and>
    map length result = [3, 1]"
proof -
  define poll where "poll = processx_poll PXSILENT 0 1 1 readable_poll (Pair False) utf8_iconv
      [Poll_process (Some (Some 1, None)) None, Poll_curl ([7], [], [])] 100 (sample_store, [])"
  define st where "st = set_poll_idx (Some 1) 0 sample_store"
  have r: "connection_ready utf8_iconv (st (Suc 0), w) = (Inr None, st (Suc 0), w)" for w :: pieces
    by (simp add: connection_ready_def st_def set_poll_idx_def sample_store_def pipe_conn_def)
  have h: "handle (st (Suc 0)) = 6" by (simp add: st_def set_poll_idx_def sample_store_def pipe_conn_def)
  have s: "set_poll_idx None i x = x" for i and x :: "unit store" by (simp add: set_poll_idx_def)
  have st: "set_poll_idx (Some (Suc 0)) 0 sample_store = st" by (simp add: st_def)
  have "\<exists>result. fst poll = Inr result"
    by (simp add: poll_def processx_poll_def s st processx_c_connection_poll_def processx_i_pre_poll_func_connection_def
        processx_i_pre_poll_func_curl_def processx_c_pollable_from_connection_def r h
        processx_c_pollable_from_curl_def first_event_def descriptors_def readable_poll_def
        processx__interruptible_poll_def PROCESSX_INTERRUPT_INTERVAL_def ready_at_once_def split_beta)
  then obtain result where res: "fst poll = Inr result" by (elim exE)
  from fst_eqD [OF res] obtain s' where "poll = (Inr result, s')" by blast
  from poll_results_public [OF this [unfolded poll_def]] have n: "map length result = [3, 1]" by simp
  show ?thesis unfolding poll_def [symmetric] by (intro exI [of _ result] conjI) (rule res n)+
qed

end
