(* ===== verification/Unix_Process.thy ===== *)
theory Unix_Process
  imports Conn_Poll Complex_Main
begin

text \<open>
  Processes on Unix (src/src/unix/processx.c, sigchld.c, childlist.c and processx-unix.h): the
  handle of a process, the list of children the SIGCHLD handler looks at, the handler itself, the
  signal mask, and the operations of the R interface on a process that was started. Starting one
  is in the theory \<open>Unix_Exec\<close>.
\<close>

section \<open>Data\<close>

text \<open>
  \<open>NA_INTEGER\<close> is the smallest \<open>int\<close>. Times are rational numbers of seconds, \<open>None\<close> for \<open>NA_REAL\<close>:
  the rounding of \<open>double\<close> is not modelled. \<open>pipes\<close> are the addresses of the three connections.
\<close>

definition NA_INTEGER :: int where "NA_INTEGER = - (2 ^ 31)"
definition SIGINT :: int where "SIGINT = 2"
definition SIGKILL :: int where "SIGKILL = 9"
definition SIGTERM :: int where "SIGTERM = 15"
definition SIGCHLD :: int where "SIGCHLD = 17"

record proc_handle =
  exitcode :: int
  collected :: bool
  pid :: int
  fd0 :: int
  fd1 :: int
  fd2 :: int
  waitpipe :: "int \<times> int"
  cleanup :: bool
  cleanup_grace :: rat
  create_time :: "rat option"
  end_time :: "rat option"
  pipes :: "nat option list"
  ptyfd :: int
  pty_child_fd :: int

text \<open>
  The calls about processes, beside those of \<open>os\<close>. \<open>os_waitpid pid nohang\<close> returns the pid (0: still
  running) and the status word. \<open>os_deliver\<close> tells whether a SIGCHLD is delivered now, and whether
  on the main thread; \<open>os_forward\<close> sends it to the main thread; \<open>os_run_handler h siginfo\<close> calls
  another handler, with three arguments or with one.
\<close>

record 'w proc_os =
  base :: "'w os"
  os_waitpid :: "int \<Rightarrow> bool \<Rightarrow> ('w, int \<times> 32 word) syscall"
  os_kill :: "int \<Rightarrow> int \<Rightarrow> ('w, unit) syscall"
  os_poll :: "'w poll_call"
  os_sigprocmask :: "('w, unit) syscall"
  os_clock_gettime :: "('w, rat) syscall"
  os_interrupted :: "'w \<Rightarrow> bool \<times> 'w"
  os_deliver :: "'w \<Rightarrow> bool option \<times> 'w"
  os_forward :: "'w \<Rightarrow> 'w"
  os_run_handler :: "nat \<Rightarrow> bool \<Rightarrow> 'w \<Rightarrow> 'w"

text \<open>
  A SIGCHLD disposition, with \<open>SA_SIGINFO\<close> for the handler of somebody else.
\<close>

datatype chld_handler = Chld_default | Chld_ignore | Chld_processx | Chld_other nat bool

text \<open>
  The state of the package. A process is named by its external pointer, a number; \<open>handle_of a\<close> is
  \<open>None\<close> when the pointer was cleared, or when the object is gone and its weak reference is
  \<open>NULL\<close>. \<open>child_list\<close> and \<open>child_free_list\<close> are the two linked lists without their heads.
  \<open>on_exits\<close> are the descriptors that \<open>processx__wait_cleanup\<close> will close at the end of the call.
\<close>

record 'w ps =
  handle_of :: "nat \<Rightarrow> proc_handle option"
  child_list :: "(int \<times> nat) list"
  child_free_list :: "(int \<times> nat) list"
  sigchld_blocked :: bool
  sigchld_handler :: chld_handler
  old_sig_handler :: chld_handler
  notify_old :: bool
  on_exits :: "(int \<times> int) list"
  world :: 'w

subsection \<open>Access\<close>

definition on_world :: "('w \<Rightarrow> 'a \<times> 'w) \<Rightarrow> ('w ps, 'a) operation" where
  "on_world call = (\<lambda>s. case call (world s) of (x, w) \<Rightarrow> (Inr x, s\<lparr>world := w\<rparr>))"

definition on_world_op :: "('w, 'a) operation \<Rightarrow> ('w ps, 'a) operation" where
  "on_world_op f = (\<lambda>s. case f (world s) of (r, w) \<Rightarrow> (r, s\<lparr>world := w\<rparr>))"

definition set_handle :: "nat \<Rightarrow> (proc_handle \<Rightarrow> proc_handle) \<Rightarrow> ('w ps, unit) operation" where
  "set_handle a f = modify (\<lambda>s. s\<lparr>handle_of := (handle_of s)(a := map_option f (handle_of s a))\<rparr>)"

definition close_fd :: "'w proc_os \<Rightarrow> int \<Rightarrow> ('w ps, unit) operation" where
  "close_fd po fd = andthen (on_world (os_close (base po) fd)) (\<lambda>_. ret ())"

definition waitpid :: "nat \<Rightarrow> 'w proc_os \<Rightarrow> int \<Rightarrow> bool \<Rightarrow> ('w ps, errno + int \<times> 32 word) operation" where
  "waitpid fuel po p nohang = on_world_op (retry fuel (os_waitpid po p nohang))"

section \<open>The exit status\<close>

text \<open>The macros \<open>WIFEXITED\<close>, \<open>WEXITSTATUS\<close> and \<open>WTERMSIG\<close> of Linux.\<close>

definition WTERMSIG :: "32 word \<Rightarrow> int" where "WTERMSIG st = uint (st AND 0x7f)"
definition WIFEXITED :: "32 word \<Rightarrow> bool" where "WIFEXITED st \<longleftrightarrow> WTERMSIG st = 0"
definition WEXITSTATUS :: "32 word \<Rightarrow> int" where "WEXITSTATUS st = uint (drop_bit 8 (st AND 0xff00))"

definition processx__collect_exit_status :: "'w proc_os \<Rightarrow> nat \<Rightarrow> int \<Rightarrow> 32 word \<Rightarrow> ('w ps, unit) operation" where
  "processx__collect_exit_status po status retval wstat =
     andthen (gets (\<lambda>s. handle_of s status)) (\<lambda>handle.
       case handle of
         None \<Rightarrow> throw (R_error ''Invalid handle, already finalized'')
       | Some h \<Rightarrow>
           if collected h then ret ()
           else andthen (set_handle status (\<lambda>h. h\<lparr>exitcode :=
                  (if retval = -1 then NA_INTEGER
                   else if WIFEXITED wstat then WEXITSTATUS wstat else - WTERMSIG wstat)\<rparr>)) (\<lambda>_.
                andthen (on_world (os_clock_gettime po)) (\<lambda>et.
                andthen (set_handle status (\<lambda>h. h\<lparr>end_time := (case et of Inl _ \<Rightarrow> None | Inr t \<Rightarrow> Some t)\<rparr>)) (\<lambda>_.
                andthen (set_handle status (\<lambda>h. h\<lparr>collected := True\<rparr>)) (\<lambda>_.
                if pty_child_fd h \<ge> 0
                then andthen (close_fd po (pty_child_fd h)) (\<lambda>_. set_handle status (\<lambda>h. h\<lparr>pty_child_fd := -1\<rparr>))
                else ret ())))))"

section \<open>The child list\<close>

text \<open>
  \<open>processx__freelist_free\<close> releases every node of the free list. \<open>processx__child_add\<close> returns
  whether it failed.
\<close>

definition processx__freelist_add :: "int \<times> nat \<Rightarrow> ('w ps, unit) operation" where
  "processx__freelist_add node = modify (\<lambda>s. s\<lparr>child_free_list := node # child_free_list s\<rparr>)"

definition processx__freelist_free :: "('w ps, unit) operation" where
  "processx__freelist_free = modify (\<lambda>s. s\<lparr>child_free_list := []\<rparr>)"

definition sizeof_child_list :: nat where "sizeof_child_list = 24"

definition processx__child_add :: "'w proc_os \<Rightarrow> int \<Rightarrow> nat \<Rightarrow> ('w ps, bool) operation" where
  "processx__child_add po p status =
     andthen (on_world (os_malloc (base po) sizeof_child_list)) (\<lambda>ok.
       if \<not> ok then ret True
       else andthen (modify (\<lambda>s. s\<lparr>child_list := (p, status) # child_list s\<rparr>)) (\<lambda>_. ret False))"

fun remove_first :: "int \<Rightarrow> (int \<times> nat) list \<Rightarrow> (int \<times> nat) option \<times> (int \<times> nat) list" where
  "remove_first p [] = (None, [])"
| "remove_first p (node # nodes) =
     (if fst node = p then (Some node, nodes)
      else case remove_first p nodes of (node', rest) \<Rightarrow> (node', node # rest))"

definition processx__child_remove :: "int \<Rightarrow> ('w ps, unit) operation" where
  "processx__child_remove p =
     andthen (gets (\<lambda>s. remove_first p (child_list s))) (\<lambda>(node, rest).
       case node of
         None \<Rightarrow> ret ()
       | Some node \<Rightarrow> andthen (modify (\<lambda>s. s\<lparr>child_list := rest\<rparr>)) (\<lambda>_. processx__freelist_add node))"

definition processx__child_find :: "int \<Rightarrow> ('w ps, (int \<times> nat) option) operation" where
  "processx__child_find p = gets (\<lambda>s. find (\<lambda>node. fst node = p) (child_list s))"

section \<open>The SIGCHLD handler\<close>

text \<open>What is done for a child that is gone: its status is collected and a waiting call is woken up.\<close>

definition child_gone :: "'w proc_os \<Rightarrow> int \<Rightarrow> nat \<Rightarrow> int \<Rightarrow> 32 word \<Rightarrow> ('w ps, unit) operation" where
  "child_gone po p status wp wstat =
     andthen (gets (\<lambda>s. handle_of s status)) (\<lambda>handle.
     andthen (if handle = None then ret () else processx__collect_exit_status po status wp wstat) (\<lambda>_.
     andthen (processx__freelist_add (p, status)) (\<lambda>_.
     case handle of
       None \<Rightarrow> ret ()
     | Some h \<Rightarrow>
         if snd (waitpipe h) \<ge> 0
         then andthen (close_fd po (snd (waitpipe h)))
                (\<lambda>_. set_handle status (\<lambda>h. h\<lparr>waitpipe := (fst (waitpipe h), -1)\<rparr>))
         else ret ())))"

text \<open>The loop over the children; the value is what stays in the list.\<close>

fun reap :: "nat \<Rightarrow> 'w proc_os \<Rightarrow> (int \<times> nat) list \<Rightarrow> ('w ps, (int \<times> nat) list) operation" where
  "reap fuel po [] = ret []"
| "reap fuel po ((p, status) # nodes) =
     andthen (waitpid fuel po p True) (\<lambda>r.
       let (wp, wstat, gone) = (case r of Inl e \<Rightarrow> (-1, 0, e = ECHILD) | Inr (wp, wstat) \<Rightarrow> (wp, wstat, wp \<noteq> 0))
       in if gone then andthen (child_gone po p status wp wstat) (\<lambda>_. reap fuel po nodes)
          else andthen (reap fuel po nodes) (\<lambda>rest. ret ((p, status) # rest)))"

text \<open>
  A handler of somebody else is called with three arguments whatever its flags are:
  \<open>sa_flags | SA_SIGINFO\<close> is never 0.
\<close>

definition processx__sigchld_callback :: "nat \<Rightarrow> 'w proc_os \<Rightarrow> bool \<Rightarrow> int \<Rightarrow> ('w ps, unit) operation" where
  "processx__sigchld_callback fuel po main_thread sig =
     (if \<not> main_thread then on_world (\<lambda>w. ((), os_forward po w))
      else if sig \<noteq> SIGCHLD then ret ()
      else andthen (gets child_list) (\<lambda>nodes.
           andthen (reap fuel po nodes) (\<lambda>rest.
           andthen (modify (\<lambda>s. s\<lparr>child_list := rest\<rparr>)) (\<lambda>_.
           andthen (gets (\<lambda>s. (notify_old s, old_sig_handler s))) (\<lambda>(notify, old).
           case (notify, old) of
             (True, Chld_other h siginfo) \<Rightarrow> on_world (\<lambda>w. ((), os_run_handler po h True w))
           | (True, Chld_processx) \<Rightarrow> throw (Undefined_behaviour ''SIGCHLD handler calls itself'')
           | _ \<Rightarrow> ret ())))))"

text \<open>A delivery point: the kernel may run the handler here when it is installed and not blocked.\<close>

definition delivery :: "nat \<Rightarrow> 'w proc_os \<Rightarrow> ('w ps, unit) operation" where
  "delivery fuel po =
     andthen (gets (\<lambda>s. \<not> sigchld_blocked s \<and> sigchld_handler s = Chld_processx)) (\<lambda>ours.
       if ours
       then andthen (on_world (os_deliver po)) (\<lambda>d. case d of
              None \<Rightarrow> ret () | Some main_thread \<Rightarrow> processx__sigchld_callback fuel po main_thread SIGCHLD)
       else ret ())"

section \<open>The handler and the signal mask\<close>

definition processx__setup_sigchld :: "('w ps, unit) operation" where
  "processx__setup_sigchld = modify (\<lambda>s.
     let old = sigchld_handler s;
         s = s\<lparr>sigchld_handler := Chld_processx\<rparr>
     in if old \<noteq> Chld_processx then s\<lparr>old_sig_handler := old\<rparr> else s)"

definition processx__remove_sigchld :: "('w ps, unit) operation" where
  "processx__remove_sigchld = modify (\<lambda>s. s\<lparr>sigchld_handler := Chld_default, old_sig_handler := Chld_default\<rparr>)"

definition sigmask_error :: r_error where
  "sigmask_error = R_error ''processx error setting up signal handlers''"

text \<open>The value is the old mask. Setting a mask without SIGCHLD is a delivery point.\<close>

definition change_mask :: "nat \<Rightarrow> 'w proc_os \<Rightarrow> bool \<Rightarrow> ('w ps, bool) operation" where
  "change_mask fuel po blocked =
     andthen (on_world (os_sigprocmask po)) (\<lambda>r. case r of
       Inl _ \<Rightarrow> throw sigmask_error
     | Inr _ \<Rightarrow>
         andthen (gets sigchld_blocked) (\<lambda>old.
         andthen (modify (\<lambda>s. s\<lparr>sigchld_blocked := blocked\<rparr>)) (\<lambda>_.
         andthen (delivery fuel po) (\<lambda>_. ret old))))"

definition processx__block_sigchld_save :: "nat \<Rightarrow> 'w proc_os \<Rightarrow> ('w ps, bool) operation" where
  "processx__block_sigchld_save fuel po = change_mask fuel po True"

definition processx__procmask_set :: "nat \<Rightarrow> 'w proc_os \<Rightarrow> bool \<Rightarrow> ('w ps, unit) operation" where
  "processx__procmask_set fuel po blocked = andthen (change_mask fuel po blocked) (\<lambda>_. ret ())"

definition processx__block_sigchld :: "nat \<Rightarrow> 'w proc_os \<Rightarrow> ('w ps, unit) operation" where
  "processx__block_sigchld fuel po = andthen (processx__block_sigchld_save fuel po) (\<lambda>_. ret ())"

definition processx__unblock_sigchld :: "nat \<Rightarrow> 'w proc_os \<Rightarrow> ('w ps, unit) operation" where
  "processx__unblock_sigchld fuel po = andthen (change_mask fuel po False) (\<lambda>_. ret ())"

text \<open>Leaving through an R error after unblocking the signal.\<close>

definition unblock_and_throw :: "nat \<Rightarrow> 'w proc_os \<Rightarrow> r_error \<Rightarrow> ('w ps, 'a) operation" where
  "unblock_and_throw fuel po e = andthen (processx__unblock_sigchld fuel po) (\<lambda>_. throw e)"

section \<open>Is it alive, and its exit status\<close>

definition processx_is_alive :: "nat \<Rightarrow> 'w proc_os \<Rightarrow> nat \<Rightarrow> ('w ps, bool) operation" where
  "processx_is_alive fuel po status =
     andthen (processx__block_sigchld fuel po) (\<lambda>_.
     andthen (gets (\<lambda>s. handle_of s status)) (\<lambda>handle.
     andthen (case handle of
         None \<Rightarrow> ret False
       | Some h \<Rightarrow>
           if collected h then ret False
           else andthen (waitpid fuel po (pid h) True) (\<lambda>r. case r of
                  Inl e \<Rightarrow>
                    if e = ECHILD
                    then andthen (processx__collect_exit_status po status (-1) 0) (\<lambda>_. ret False)
                    else unblock_and_throw fuel po (R_system_error ''processx_is_alive'' e)
                | Inr (wp, wstat) \<Rightarrow>
                    if wp = 0 then ret True
                    else andthen (processx__collect_exit_status po status wp wstat) (\<lambda>_. ret False)))
       (\<lambda>result. andthen (processx__unblock_sigchld fuel po) (\<lambda>_. ret result))))"

text \<open>The exit code in the handle; \<open>NULL\<close> is \<open>None\<close>.\<close>

definition stored_exitcode :: "nat \<Rightarrow> ('w ps, int option) operation" where
  "stored_exitcode status = gets (\<lambda>s. map_option exitcode (handle_of s status))"

definition processx_get_exit_status :: "nat \<Rightarrow> 'w proc_os \<Rightarrow> nat \<Rightarrow> ('w ps, int option) operation" where
  "processx_get_exit_status fuel po status =
     andthen (processx__block_sigchld fuel po) (\<lambda>_.
     andthen (gets (\<lambda>s. handle_of s status)) (\<lambda>handle.
     andthen (case handle of
         None \<Rightarrow> ret (Some NA_INTEGER)
       | Some h \<Rightarrow>
           if collected h then ret (Some (exitcode h))
           else andthen (waitpid fuel po (pid h) True) (\<lambda>r. case r of
                  Inl e \<Rightarrow>
                    if e = ECHILD
                    then andthen (processx__collect_exit_status po status (-1) 0) (\<lambda>_. stored_exitcode status)
                    else unblock_and_throw fuel po (R_system_error ''processx_get_exit_status error'' e)
                | Inr (wp, wstat) \<Rightarrow>
                    if wp = 0 then ret None
                    else andthen (processx__collect_exit_status po status wp wstat) (\<lambda>_. stored_exitcode status)))
       (\<lambda>result. andthen (processx__unblock_sigchld fuel po) (\<lambda>_. ret result))))"

section \<open>Signals\<close>

definition processx_signal :: "nat \<Rightarrow> 'w proc_os \<Rightarrow> nat \<Rightarrow> int \<Rightarrow> bool \<Rightarrow> ('w ps, bool) operation" where
  "processx_signal fuel po status signal to_group =
     andthen (processx__block_sigchld fuel po) (\<lambda>_.
     andthen (gets (\<lambda>s. handle_of s status)) (\<lambda>handle.
     andthen (case handle of
         None \<Rightarrow> ret False
       | Some h \<Rightarrow>
           if collected h then ret False
           else andthen (on_world (os_kill po (if to_group then - pid h else pid h) signal)) (\<lambda>r.
                andthen (case r of
                    Inr _ \<Rightarrow> ret True
                  | Inl e \<Rightarrow>
                      if e = ESRCH \<or> e = EPERM then ret False
                      else unblock_and_throw fuel po (R_system_error ''processx_signal'' e)) (\<lambda>result.
                andthen (waitpid fuel po (pid h) True) (\<lambda>r. case r of
                    Inl e \<Rightarrow>
                      if e = ECHILD
                      then andthen (processx__collect_exit_status po status (-1) 0) (\<lambda>_. ret result)
                      else unblock_and_throw fuel po (R_system_error ''processx_signal'' e)
                  | Inr _ \<Rightarrow> ret result))))
       (\<lambda>result. andthen (processx__unblock_sigchld fuel po) (\<lambda>_. ret result))))"

definition processx_interrupt :: "nat \<Rightarrow> 'w proc_os \<Rightarrow> nat \<Rightarrow> bool \<Rightarrow> ('w ps, bool) operation" where
  "processx_interrupt fuel po status to_group = processx_signal fuel po status SIGINT to_group"

section \<open>Waiting\<close>

text \<open>
  One call of \<open>poll\<close> on the self-pipe; the signal can be delivered during it. A call that was
  interrupted is repeated.
\<close>

fun poll_pipe :: "nat \<Rightarrow> 'w proc_os \<Rightarrow> int \<Rightarrow> int \<Rightarrow> ('w ps, errno + nat) operation" where
  "poll_pipe 0 po fd t = throw Out_of_fuel"
| "poll_pipe (Suc fuel) po fd t =
     andthen (on_world (os_poll po [(fd, POLLIN)] t)) (\<lambda>r.
     andthen (delivery fuel po) (\<lambda>_.
     if r = Inl EINTR then poll_pipe fuel po fd t
     else ret (map_sum id fst r)))"

text \<open>
  The loop and the last, shorter wait. The value is \<open>None\<close> after the jump to \<open>cleanup\<close> because the
  process is gone, and what the last \<open>poll\<close> returned otherwise.
\<close>

fun wait_loop :: "nat \<Rightarrow> nat \<Rightarrow> 'w proc_os \<Rightarrow> int \<Rightarrow> int \<Rightarrow> int \<Rightarrow> int \<Rightarrow> ('w ps, (errno + nat) option) operation" where
  "wait_loop 0 fuel po fd p timeout timeleft = throw Out_of_fuel"
| "wait_loop (Suc n) fuel po fd p timeout timeleft =
     (if timeout < 0 \<or> timeleft > PROCESSX_INTERRUPT_INTERVAL
      then andthen (poll_pipe fuel po fd PROCESSX_INTERRUPT_INTERVAL) (\<lambda>r.
           if r \<noteq> Inr 0 then ret (Some r)
           else andthen (on_world (os_interrupted po)) (\<lambda>interrupted.
                if interrupted then throw R_interrupt
                else andthen (on_world (os_kill po p 0)) (\<lambda>k.
                     if k \<noteq> Inr () then ret None
                     else wait_loop n fuel po fd p timeout
                            (if timeout \<ge> 0 then timeleft - PROCESSX_INTERRUPT_INTERVAL else timeleft))))
      else if timeleft \<ge> 0 then andthen (poll_pipe fuel po fd timeleft) (\<lambda>r. ret (Some r))
      else ret (Some (Inr 0)))"

definition nonblock_fd :: "nat \<Rightarrow> 'w proc_os \<Rightarrow> int \<Rightarrow> ('w ps, unit) operation" where
  "nonblock_fd fuel po fd = andthen (on_world_op (processx__nonblock_fcntl fuel (base po) fd True)) (\<lambda>_. ret ())"

text \<open>The part after the signal was blocked; \<open>old\<close> is the mask to restore.\<close>

definition wait_blocked :: "nat \<Rightarrow> nat \<Rightarrow> 'w proc_os \<Rightarrow> nat \<Rightarrow> int \<Rightarrow> bool \<Rightarrow> ('w ps, bool) operation" where
  "wait_blocked n fuel po status timeout old =
     andthen (gets (\<lambda>s. handle_of s status)) (\<lambda>handle.
     case handle of
       None \<Rightarrow> andthen (processx__procmask_set fuel po old) (\<lambda>_. ret True)
     | Some h \<Rightarrow>
         if collected h then andthen (processx__procmask_set fuel po old) (\<lambda>_. ret True)
         else
           andthen processx__setup_sigchld (\<lambda>_.
           andthen (processx__block_sigchld fuel po) (\<lambda>_.
           andthen (on_world (os_pipe (base po))) (\<lambda>p. case p of
             Inl e \<Rightarrow>
               andthen (processx__procmask_set fuel po old)
                 (\<lambda>_. throw (R_system_error ''processx error when waiting'' e))
           | Inr fds \<Rightarrow>
               andthen (set_handle status (\<lambda>h. h\<lparr>waitpipe := fds\<rparr>)) (\<lambda>_.
               andthen (modify (\<lambda>s. s\<lparr>on_exits := fds # tl (on_exits s)\<rparr>)) (\<lambda>_.
               andthen (nonblock_fd fuel po (fst fds)) (\<lambda>_.
               andthen (nonblock_fd fuel po (snd fds)) (\<lambda>_.
               andthen (processx__unblock_sigchld fuel po) (\<lambda>_.
               andthen (wait_loop n fuel po (fst fds) (pid h) timeout timeout) (\<lambda>r. case r of
                 Some (Inl e) \<Rightarrow> throw (R_system_error ''processx wait with timeout error'' e)
               | _ \<Rightarrow>
                   andthen (set_handle status (\<lambda>h. h\<lparr>waitpipe := (-1, -1)\<rparr>)) (\<lambda>_.
                   andthen (processx__procmask_set fuel po old) (\<lambda>_.
                   ret (r \<noteq> Some (Inr 0))))))))))))))"

definition c_processx_wait :: "nat \<Rightarrow> nat \<Rightarrow> 'w proc_os \<Rightarrow> nat \<Rightarrow> int \<Rightarrow> ('w ps, bool) operation" where
  "c_processx_wait n fuel po status timeout =
     andthen (on_world (os_malloc (base po) 8)) (\<lambda>ok.
     if \<not> ok then throw (R_system_error ''Allocating memory when waiting'' (EOTHER 12))
     else
       andthen (modify (\<lambda>s. s\<lparr>on_exits := (-1, -1) # on_exits s\<rparr>)) (\<lambda>_.
       andthen (processx__block_sigchld_save fuel po) (\<lambda>old.
       wait_blocked n fuel po status timeout old)))"

text \<open>\<open>processx__wait_cleanup\<close>, and the end of a call with exit handlers, normal or not.\<close>

definition processx__wait_cleanup :: "'w proc_os \<Rightarrow> int \<times> int \<Rightarrow> ('w ps, unit) operation" where
  "processx__wait_cleanup po fds =
     andthen (if fst fds \<ge> 0 then close_fd po (fst fds) else ret ()) (\<lambda>_.
     if snd fds \<ge> 0 then close_fd po (snd fds) else ret ())"

fun run_exits :: "'w proc_os \<Rightarrow> (int \<times> int) list \<Rightarrow> ('w ps, unit) operation" where
  "run_exits po [] = ret ()"
| "run_exits po (fds # rest) = andthen (processx__wait_cleanup po fds) (\<lambda>_. run_exits po rest)"

definition with_cleanup :: "'w proc_os \<Rightarrow> ('w ps, 'a) operation \<Rightarrow> ('w ps, 'a) operation" where
  "with_cleanup po f = (\<lambda>s. case f (s\<lparr>on_exits := []\<rparr>) of
     (r, s') \<Rightarrow> (r, (snd (run_exits po (on_exits s') s'))\<lparr>on_exits := on_exits s\<rparr>))"

definition processx_wait :: "nat \<Rightarrow> nat \<Rightarrow> 'w proc_os \<Rightarrow> nat \<Rightarrow> int \<Rightarrow> ('w ps, bool) operation" where
  "processx_wait n fuel po status timeout = with_cleanup po (c_processx_wait n fuel po status timeout)"

section \<open>Killing\<close>

text \<open>\<open>(int)(grace * 1000)\<close> cuts towards 0.\<close>

definition grace_ms :: "rat \<Rightarrow> int" where
  "grace_ms grace = (if grace \<ge> 0 then \<lfloor>grace * 1000\<rfloor> else \<lceil>grace * 1000\<rceil>)"

text \<open>The macro \<open>KILL_WITH\<close>: the value \<open>False\<close> is the jump to \<open>cleanup\<close>.\<close>

definition kill_with :: "nat \<Rightarrow> 'w proc_os \<Rightarrow> int \<Rightarrow> int \<Rightarrow> ('w ps, bool) operation" where
  "kill_with fuel po p sig =
     andthen (on_world (os_kill po (- p) sig)) (\<lambda>r. case r of
       Inr _ \<Rightarrow> ret True
     | Inl e \<Rightarrow>
         if e = ESRCH \<or> e = EPERM then ret False
         else unblock_and_throw fuel po (R_system_error ''process_kill'' e))"

definition has_exitcode :: "nat \<Rightarrow> int \<Rightarrow> ('w ps, bool) operation" where
  "has_exitcode status c = gets (\<lambda>s. case handle_of s status of None \<Rightarrow> False | Some h \<Rightarrow> exitcode h = c)"

definition kill_now :: "nat \<Rightarrow> 'w proc_os \<Rightarrow> nat \<Rightarrow> int \<Rightarrow> ('w ps, bool) operation" where
  "kill_now fuel po status p =
     andthen (kill_with fuel po p SIGKILL) (\<lambda>sent.
     if \<not> sent then ret False
     else andthen (waitpid fuel po p False) (\<lambda>r.
          let (wp, wstat) = (case r of Inl _ \<Rightarrow> (-1, 0) | Inr x \<Rightarrow> x)
          in andthen (processx__collect_exit_status po status wp wstat) (\<lambda>_. has_exitcode status (- SIGKILL))))"

definition c_processx_kill :: "nat \<Rightarrow> nat \<Rightarrow> 'w proc_os \<Rightarrow> nat \<Rightarrow> rat \<Rightarrow> ('w ps, bool) operation" where
  "c_processx_kill n fuel po status grace =
     andthen (processx__block_sigchld fuel po) (\<lambda>_.
     andthen (gets (\<lambda>s. handle_of s status)) (\<lambda>handle.
     andthen (case handle of
         None \<Rightarrow> ret False
       | Some h \<Rightarrow>
           if collected h then ret False
           else andthen (waitpid fuel po (pid h) True) (\<lambda>r. case r of
                  Inl e \<Rightarrow>
                    if e = ECHILD
                    then andthen (processx__collect_exit_status po status (-1) 0) (\<lambda>_. ret False)
                    else unblock_and_throw fuel po (R_system_error ''processx_kill'' e)
                | Inr (wp, wstat) \<Rightarrow>
                    if wp \<noteq> 0 then ret False
                    else if grace_ms grace = 0 then kill_now fuel po status (pid h)
                    else andthen (kill_with fuel po (pid h) SIGTERM) (\<lambda>sent.
                         if \<not> sent then ret False
                         else andthen (c_processx_wait n fuel po status (grace_ms grace)) (\<lambda>done.
                              if done then has_exitcode status (- SIGTERM)
                              else kill_now fuel po status (pid h)))))
       (\<lambda>result. andthen (processx__unblock_sigchld fuel po) (\<lambda>_. ret result))))"

definition processx_kill :: "nat \<Rightarrow> nat \<Rightarrow> 'w proc_os \<Rightarrow> nat \<Rightarrow> rat \<Rightarrow> ('w ps, bool) operation" where
  "processx_kill n fuel po status grace = with_cleanup po (c_processx_kill n fuel po status grace)"

section \<open>Pids\<close>

definition processx_get_pid :: "nat \<Rightarrow> ('w ps, int) operation" where
  "processx_get_pid status = gets (\<lambda>s. case handle_of s status of None \<Rightarrow> NA_INTEGER | Some h \<Rightarrow> pid h)"

definition processx__process_exists :: "'w proc_os \<Rightarrow> int \<Rightarrow> ('w ps, bool) operation" where
  "processx__process_exists po cpid =
     andthen (on_world (os_kill po cpid 0)) (\<lambda>r. case r of
       Inr _ \<Rightarrow> ret True
     | Inl e \<Rightarrow> if e = ESRCH then ret False else throw (R_system_error ''kill syscall error'' e))"

section \<open>Making and finalizing handles\<close>

text \<open>
  All fields but \<open>waitpipe\<close> are cleared by \<open>memset\<close>: the descriptors are 0, which is the standard
  input of R, until \<open>processx_exec\<close> sets them.
\<close>

definition zero_handle :: proc_handle where
  "zero_handle = \<lparr>exitcode = 0, collected = False, pid = 0, fd0 = 0, fd1 = 0, fd2 = 0, waitpipe = (-1, -1),
     cleanup = False, cleanup_grace = 0, create_time = Some 0, end_time = Some 0,
     pipes = [None, None, None], ptyfd = 0, pty_child_fd = 0\<rparr>"

definition sizeof_handle :: nat where "sizeof_handle = 96"

definition processx__make_handle :: "'w proc_os \<Rightarrow> nat \<Rightarrow> bool \<Rightarrow> rat \<Rightarrow> ('w ps, unit) operation" where
  "processx__make_handle po status do_cleanup grace =
     andthen (on_world (os_malloc (base po) sizeof_handle)) (\<lambda>ok.
     if \<not> ok then throw (R_error ''Cannot make processx handle, out of memory'')
     else modify (\<lambda>s. s\<lparr>handle_of := (handle_of s)(status \<mapsto>
            zero_handle\<lparr>cleanup := do_cleanup, cleanup_grace := grace\<rparr>)\<rparr>))"

definition processx__handle_destroy :: "'w proc_os \<Rightarrow> proc_handle \<Rightarrow> ('w ps, unit) operation" where
  "processx__handle_destroy po h =
     (if pty_child_fd h \<ge> 0 then close_fd po (pty_child_fd h) else ret ())"

text \<open>
  \<open>r_with_cleanup_context\<close> runs \<open>c_processx_kill\<close>; an error of it ends the finalizer.
\<close>

definition processx__finalizer :: "nat \<Rightarrow> nat \<Rightarrow> 'w proc_os \<Rightarrow> nat \<Rightarrow> ('w ps, unit) operation" where
  "processx__finalizer n fuel po status =
     andthen (gets (\<lambda>s. handle_of s status)) (\<lambda>handle.
     andthen (processx__block_sigchld fuel po) (\<lambda>_.
     andthen processx__freelist_free (\<lambda>_.
     andthen (processx__unblock_sigchld fuel po) (\<lambda>_.
     case handle of
       None \<Rightarrow> ret ()
     | Some h \<Rightarrow>
         andthen (if cleanup h
                  then andthen (with_cleanup po (c_processx_kill n fuel po status (cleanup_grace h))) (\<lambda>_. ret ())
                  else ret ()) (\<lambda>_.
         andthen (gets (\<lambda>s. handle_of s status)) (\<lambda>handle.
         andthen (modify (\<lambda>s. s\<lparr>handle_of := (handle_of s)(status := None)\<rparr>)) (\<lambda>_.
         case handle of None \<Rightarrow> ret () | Some h \<Rightarrow> processx__handle_destroy po h)))))))"

text \<open>Unloading the package: the value is the number of children that were killed.\<close>

fun unload_children :: "nat \<Rightarrow> 'w proc_os \<Rightarrow> (int \<times> nat) list \<Rightarrow> ('w ps, nat) operation" where
  "unload_children fuel po [] = ret 0"
| "unload_children fuel po ((p, status) # nodes) =
     andthen (gets (\<lambda>s. handle_of s status)) (\<lambda>handle.
     andthen (case handle of
         None \<Rightarrow> ret 0
       | Some h \<Rightarrow>
           if cleanup h
           then andthen (on_world (os_kill po p SIGKILL)) (\<lambda>r.
                andthen (waitpid fuel po p False) (\<lambda>_. ret (if r = Inr () then 1 else 0)))
           else ret 0) (\<lambda>k.
     andthen (modify (\<lambda>s. s\<lparr>handle_of := (handle_of s)(status := None)\<rparr>)) (\<lambda>_.
     andthen (unload_children fuel po nodes) (\<lambda>m. ret (k + m)))))"

definition processx__unload_cleanup :: "nat \<Rightarrow> 'w proc_os \<Rightarrow> ('w ps, nat) operation" where
  "processx__unload_cleanup fuel po =
     andthen (gets child_list) (\<lambda>nodes.
     andthen processx__remove_sigchld (\<lambda>_.
     andthen (unload_children fuel po nodes) (\<lambda>killed.
     andthen (modify (\<lambda>s. s\<lparr>child_list := []\<rparr>)) (\<lambda>_.
     andthen processx__freelist_free (\<lambda>_. ret killed)))))"

definition R_init_processx_unix :: "'w proc_os \<Rightarrow> ('w ps, unit) operation" where
  "R_init_processx_unix po = modify (\<lambda>s.
     let s = s\<lparr>child_list := [], child_free_list := []\<rparr>
     in if os_getenv (base po) ''PROCESSX_NOTIFY_OLD_SIGCHLD'' (world s) then s\<lparr>notify_old := True\<rparr> else s)"

end
