(* ===== verification/Life_Cycle.thy ===== *)
theory Life_Cycle
  imports Prelude
begin

text \<open>
  The contract of a process, on Unix and on Windows: for R it is running, has an exit code, or its
  handle is gone. An exit code, once known, does not change.
\<close>

datatype phase = Running | Exited int | Finalized

inductive phase_step :: "phase \<Rightarrow> phase \<Rightarrow> bool" where
  collect: "phase_step Running (Exited c)"
| finalize: "phase_step p Finalized"
| stay: "phase_step p p"

inductive_cases phase_step_Exited: "phase_step (Exited c) q"
inductive_cases phase_step_Finalized: "phase_step Finalized q"
inductive_simps phase_step_Running: "phase_step Running q"

lemma phase_step_trans: "phase_step p q \<Longrightarrow> phase_step q r \<Longrightarrow> phase_step p r"
  by (cases q) (auto elim!: phase_step_Exited phase_step_Finalized intro: phase_step.intros elim: phase_step.cases)

text \<open>A machine with many processes that never breaks the contract of one.\<close>

locale life_cycle =
  fixes step :: "'s \<Rightarrow> 'e \<Rightarrow> 's" and phase :: "'s \<Rightarrow> nat \<Rightarrow> phase"
  assumes step_advances: "phase_step (phase s a) (phase (step s e) a)"

sublocale life_cycle < follows: invariant_machine step "\<lambda>s. phase_step p (phase s a)" for p a
  by unfold_locales (meson phase_step_trans step_advances)

context life_cycle
begin

lemma run_advances: "phase_step (phase s a) (phase (fold (\<lambda>e s. step s e) es s) a)"
  by (rule follows.run_inv) (rule phase_step.stay)

lemma exit_code_final:
  "phase s a = Exited c \<Longrightarrow> phase (fold (\<lambda>e s. step s e) es s) a \<in> {Exited c, Finalized}"
  using run_advances [of s a es] by (auto elim!: phase_step_Exited)

end

end
