(* ===== verification/Unix_Process_Props.thy ===== *)
theory Unix_Process_Props
  imports Unix_Process Life_Cycle
begin

text \<open>
  The operations on processes: the life cycle of a process as R sees it, an abstract machine that
  every operation and the SIGCHLD handler refine, the signal mask at the end of every operation,
  and what the handler does to the list of children.
\<close>

section \<open>The life cycle\<close>

definition phase_of :: "'w ps \<Rightarrow> nat \<Rightarrow> phase" where
  "phase_of s a = (case handle_of s a of None \<Rightarrow> Finalized
     | Some h \<Rightarrow> if collected h then Exited (exitcode h) else Running)"

definition advances :: "'w ps \<Rightarrow> 'w ps \<Rightarrow> bool" where
  "advances s s' \<longleftrightarrow> (\<forall>a. phase_step (phase_of s a) (phase_of s' a))"

interpretation phases: state_relation advances
  by unfold_locales (auto simp: advances_def intro: phase_step.stay phase_step_trans)

text \<open>The signal mask is changed by \<open>change_mask\<close> only.\<close>

definition same_mask :: "'w ps \<Rightarrow> 'w ps \<Rightarrow> bool" where
  "same_mask s s' \<longleftrightarrow> sigchld_blocked s' = sigchld_blocked s"

interpretation masks: state_relation same_mask
  by unfold_locales (auto simp: same_mask_def)

subsection \<open>The building blocks\<close>

lemma advances_same_handles: "handle_of s' = handle_of s \<Longrightarrow> advances s s'"
  by (simp add: advances_def phase_of_def phase_step.stay)

lemma advances_gets: "obeys advances (gets f)"
  by (rule obeys_gets) (rule phases.R_refl)

lemma advances_on_world: "obeys advances (on_world f)"
  by (auto simp: obeys_def on_world_def split: prod.split intro: advances_same_handles)

lemma advances_on_world_op: "obeys advances (on_world_op f)"
  by (auto simp: obeys_def on_world_op_def split: prod.split intro: advances_same_handles)

lemma advances_modify: "(\<And>s. handle_of (f s) = handle_of s) \<Longrightarrow> obeys advances (modify f)"
  by (rule obeys_modify) (rule advances_same_handles)

lemma advances_set_handle:
  "(\<And>h. collected (f h) = collected h \<and> exitcode (f h) = exitcode h) \<Longrightarrow> obeys advances (set_handle a f)"
  unfolding set_handle_def
  by (rule obeys_modify) (auto simp: advances_def phase_of_def split: option.split intro: phase_step.stay)

lemma advances_clear: "obeys advances (modify (\<lambda>s. s\<lparr>handle_of := (handle_of s)(a := None)\<rparr>))"
  by (rule obeys_modify) (auto simp: advances_def phase_of_def intro: phase_step.intros)

lemmas advances_intros = phases.obeys_intros advances_gets advances_on_world advances_on_world_op

lemma advances_close_fd: "obeys advances (close_fd po fd)"
  unfolding close_fd_def by (intro advances_intros)

lemma advances_waitpid: "obeys advances (waitpid fuel po p nohang)"
  unfolding waitpid_def by (intro advances_intros)

text \<open>Collecting: the exit code is written before the process counts as exited.\<close>

lemma advances_collect: "obeys advances (processx__collect_exit_status po a retval wstat)"
  unfolding obeys_def
proof
  fix s :: "'a ps"
  show "advances s (snd (processx__collect_exit_status po a retval wstat s))"
  proof (cases "handle_of s a")
    case None
    then show ?thesis by (simp add: processx__collect_exit_status_def gets_def phases.R_refl)
  next
    case (Some h)
    show ?thesis
    proof (cases "collected h")
      case True
      with Some show ?thesis by (simp add: processx__collect_exit_status_def gets_def phases.R_refl)
    next
      case False
      with Some show ?thesis
        by (auto simp: processx__collect_exit_status_def gets_def set_handle_def modify_def on_world_def close_fd_def
            advances_def phase_of_def andthen_def split: prod.split intro: phase_step.intros)
    qed
  qed
qed

lemma advances_freelist_add: "obeys advances (processx__freelist_add node)"
  unfolding processx__freelist_add_def by (intro advances_modify) simp

lemma advances_freelist_free: "obeys advances processx__freelist_free"
  unfolding processx__freelist_free_def by (intro advances_modify) simp

lemma advances_child_gone: "obeys advances (child_gone po p a wp wstat)"
  unfolding child_gone_def
  by (intro advances_intros advances_collect advances_freelist_add advances_close_fd advances_set_handle) simp

lemma advances_reap: "obeys advances (reap fuel po nodes)"
proof (induction nodes)
  case (Cons node nodes)
  then show ?case
    by (cases node) (simp only: reap.simps, intro advances_intros advances_waitpid advances_child_gone)
qed (simp only: reap.simps phases.obeys_ret)

lemma advances_callback: "obeys advances (processx__sigchld_callback fuel po main_thread sig)"
  unfolding processx__sigchld_callback_def
  by (auto intro!: advances_intros advances_reap advances_modify split: chld_handler.split bool.split)

lemma advances_delivery: "obeys advances (delivery fuel po)"
  unfolding delivery_def by (intro advances_intros advances_callback)

lemma advances_setup_sigchld: "obeys advances processx__setup_sigchld"
  unfolding processx__setup_sigchld_def by (intro advances_modify) (simp add: Let_def)

lemma advances_remove_sigchld: "obeys advances processx__remove_sigchld"
  unfolding processx__remove_sigchld_def by (intro advances_modify) simp

lemma advances_change_mask: "obeys advances (change_mask fuel po b)"
  unfolding change_mask_def by (intro advances_intros advances_modify advances_delivery) simp

lemma advances_masks:
  "obeys advances (processx__block_sigchld_save fuel po)" "obeys advances (processx__block_sigchld fuel po)"
  "obeys advances (processx__unblock_sigchld fuel po)" "obeys advances (processx__procmask_set fuel po b)"
  "obeys advances (unblock_and_throw fuel po e)"
  unfolding processx__block_sigchld_save_def processx__block_sigchld_def processx__unblock_sigchld_def
    processx__procmask_set_def unblock_and_throw_def
  by (intro advances_intros advances_change_mask)+

lemmas advances_ops = advances_intros advances_waitpid advances_collect advances_masks advances_close_fd
  advances_delivery

section \<open>The operations refine the life cycle\<close>

lemma advances_is_alive: "obeys advances (processx_is_alive fuel po a)"
  unfolding processx_is_alive_def by (intro advances_ops)

lemma advances_get_exit_status: "obeys advances (processx_get_exit_status fuel po a)"
  unfolding processx_get_exit_status_def stored_exitcode_def by (intro advances_ops)

lemma advances_signal: "obeys advances (processx_signal fuel po a sig g)"
  unfolding processx_signal_def by (intro advances_ops)

lemma advances_poll_pipe: "obeys advances (poll_pipe fuel po fd t)"
proof (induction fuel)
  case (Suc fuel)
  then show ?case unfolding poll_pipe.simps by (intro advances_ops)
qed (simp only: poll_pipe.simps phases.obeys_throw)

lemma advances_wait_loop: "obeys advances (wait_loop n fuel po fd p timeout timeleft)"
proof (induction n arbitrary: timeleft)
  case (Suc n)
  then show ?case unfolding wait_loop.simps by (intro advances_ops advances_poll_pipe)
qed (simp only: wait_loop.simps phases.obeys_throw)

lemma advances_nonblock_fd: "obeys advances (nonblock_fd fuel po fd)"
  unfolding nonblock_fd_def by (intro advances_ops)

lemma advances_wait: "obeys advances (c_processx_wait n fuel po a timeout)"
  unfolding c_processx_wait_def wait_blocked_def
  by (intro advances_ops advances_setup_sigchld advances_wait_loop advances_nonblock_fd advances_modify
      advances_set_handle) simp_all

lemma advances_with_cleanup: "obeys advances f \<Longrightarrow> obeys advances (with_cleanup po f)"
proof -
  assume f: "obeys advances f"
  have exits: "obeys advances (run_exits po fds)" for fds
  proof (induction fds)
    case (Cons x fds)
    then show ?case unfolding run_exits.simps processx__wait_cleanup_def by (intro advances_ops)
  qed (simp only: run_exits.simps phases.obeys_ret)
  show ?thesis
    unfolding obeys_def
  proof
    fix s :: "'a ps"
    obtain r s' where run: "f (s\<lparr>on_exits := []\<rparr>) = (r, s')" by (meson surj_pair)
    with f have "advances s s'" unfolding obeys_def
      by (metis advances_same_handles phases.R_trans ps.select_convs(1) ps.surjective ps.update_convs(8) snd_conv)
    moreover have "advances s' (snd (run_exits po (on_exits s') s'))"
      using exits unfolding obeys_def by blast
    ultimately have "advances s (snd (run_exits po (on_exits s') s'))" by (rule phases.R_trans)
    then show "advances s (snd (with_cleanup po f s))"
      by (simp add: with_cleanup_def run advances_def phase_of_def)
  qed
qed

lemma advances_kill_now: "obeys advances (kill_now fuel po a p)"
  unfolding kill_now_def kill_with_def has_exitcode_def by (intro advances_ops)

lemma advances_kill: "obeys advances (c_processx_kill n fuel po a grace)"
  unfolding c_processx_kill_def kill_with_def has_exitcode_def
  by (intro advances_ops advances_wait advances_kill_now)

lemma advances_finalizer: "obeys advances (processx__finalizer n fuel po a)"
  unfolding processx__finalizer_def processx__handle_destroy_def
  by (intro advances_ops advances_freelist_free advances_with_cleanup advances_kill advances_clear)

lemma advances_unload: "obeys advances (processx__unload_cleanup fuel po)"
proof -
  have children: "obeys advances (unload_children fuel po nodes)" for nodes
  proof (induction nodes)
    case (Cons node nodes)
    then show ?case
      by (cases node) (simp only: unload_children.simps, intro advances_ops advances_clear)
  qed (simp only: unload_children.simps phases.obeys_ret)
  show ?thesis
    unfolding processx__unload_cleanup_def
    by (intro advances_ops children advances_remove_sigchld advances_modify advances_freelist_free) simp
qed

text \<open>Everything that can happen to the processes of a session, in any order.\<close>

datatype proc_event =
    Is_alive nat | Get_exit_status nat | Signal nat int bool | Wait nat int | Kill nat rat | Get_pid nat
  | Child_signal | Finalize nat | Unload

fun run_event :: "nat \<Rightarrow> nat \<Rightarrow> 'w proc_os \<Rightarrow> proc_event \<Rightarrow> 'w ps \<Rightarrow> 'w ps" where
  "run_event n fuel po (Is_alive a) s = snd (processx_is_alive fuel po a s)"
| "run_event n fuel po (Get_exit_status a) s = snd (processx_get_exit_status fuel po a s)"
| "run_event n fuel po (Signal a sig g) s = snd (processx_signal fuel po a sig g s)"
| "run_event n fuel po (Wait a t) s = snd (processx_wait n fuel po a t s)"
| "run_event n fuel po (Kill a grace) s = snd (processx_kill n fuel po a grace s)"
| "run_event n fuel po (Get_pid a) s = snd (processx_get_pid a s)"
| "run_event n fuel po Child_signal s = snd (delivery fuel po s)"
| "run_event n fuel po (Finalize a) s = snd (processx__finalizer n fuel po a s)"
| "run_event n fuel po Unload s = snd (processx__unload_cleanup fuel po s)"

lemma run_event_advances: "advances s (run_event n fuel po e s)"
proof (cases e)
  case (Get_pid a)
  then show ?thesis by (simp add: processx_get_pid_def obeysD [OF advances_gets])
qed (simp_all add: processx_wait_def processx_kill_def
    obeysD [OF advances_is_alive] obeysD [OF advances_get_exit_status] obeysD [OF advances_signal]
    obeysD [OF advances_with_cleanup, OF advances_wait] obeysD [OF advances_with_cleanup, OF advances_kill]
    obeysD [OF advances_delivery] obeysD [OF advances_finalizer] obeysD [OF advances_unload])

interpretation lifecycle: life_cycle "\<lambda>s e. run_event n fuel po e s" phase_of
  by unfold_locales (rule run_event_advances [unfolded advances_def, rule_format])

section \<open>The signal mask\<close>

lemma mask_gets: "obeys same_mask (gets f)"
  by (rule obeys_gets) (rule masks.R_refl)

lemma mask_modify: "(\<And>s. sigchld_blocked (f s) = sigchld_blocked s) \<Longrightarrow> obeys same_mask (modify f)"
  by (rule obeys_modify) (simp add: same_mask_def)

lemma mask_on_world: "obeys same_mask (on_world f)"
  by (auto simp: obeys_def on_world_def same_mask_def split: prod.split)

lemma mask_on_world_op: "obeys same_mask (on_world_op f)"
  by (auto simp: obeys_def on_world_op_def same_mask_def split: prod.split)

lemma mask_set_handle: "obeys same_mask (set_handle a f)"
  unfolding set_handle_def by (rule mask_modify) simp

lemmas mask_intros = masks.obeys_intros mask_gets mask_on_world mask_on_world_op mask_set_handle

lemma mask_collect: "obeys same_mask (processx__collect_exit_status po a retval wstat)"
  unfolding processx__collect_exit_status_def close_fd_def by (intro mask_intros)

lemma mask_reap: "obeys same_mask (reap fuel po nodes)"
proof (induction nodes)
  case (Cons node nodes)
  then show ?case
    by (cases node) (simp only: reap.simps child_gone_def waitpid_def close_fd_def processx__freelist_add_def,
      intro mask_intros mask_collect mask_modify, simp_all)
qed (simp only: reap.simps masks.obeys_ret)

lemma mask_delivery: "obeys same_mask (delivery fuel po)"
proof -
  have "obeys same_mask (processx__sigchld_callback fuel po main sig)" for main sig
    unfolding processx__sigchld_callback_def
    by (auto intro!: mask_intros mask_reap mask_modify split: chld_handler.split bool.split)
  then show ?thesis unfolding delivery_def by (intro mask_intros)
qed

lemma change_mask_result:
  assumes "change_mask fuel po b s = (Inr old, s')"
  shows "sigchld_blocked s' = b \<and> old = sigchld_blocked s"
proof -
  obtain r w where m: "os_sigprocmask po (world s) = (r, w)" by (meson surj_pair)
  with assms obtain u where r: "r = Inr u" by (cases r) (auto simp: change_mask_def on_world_def andthen_def)
  let ?s = "s\<lparr>world := w, sigchld_blocked := b\<rparr>"
  from assms m r have "snd (delivery fuel po ?s) = s' \<and> old = sigchld_blocked s"
    by (auto simp: change_mask_def on_world_def andthen_def gets_def modify_def split: prod.splits sum.splits)
  with obeysD [OF mask_delivery [of fuel po], of ?s] show ?thesis by (auto simp: same_mask_def)
qed

lemma returning_ret_unblock:
  "returning (\<lambda>_ s. \<not> sigchld_blocked s) (andthen (processx__unblock_sigchld fuel po) (\<lambda>_. ret x))"
  by (auto simp: returning_def processx__unblock_sigchld_def elim!: andthen_InrE dest: change_mask_result)

text \<open>No system error leaves the signal blocked.\<close>

definition unblocked_on_error :: "r_error \<Rightarrow> 'w ps \<Rightarrow> bool" where
  "unblocked_on_error e s \<longleftrightarrow> (\<forall>msg errno. e = R_system_error msg errno \<longrightarrow> \<not> sigchld_blocked s)"

lemma throwing_set_handle [throws]: "throwing Q (set_handle a f)"
  by (simp add: set_handle_def throwing_modify)

lemma throwing_on_world [throws]: "throwing Q (on_world f)"
  by (auto simp: throwing_def on_world_def split: prod.splits)

lemma throwing_throw: "(\<And>s. Q e s) \<Longrightarrow> throwing Q (throw e)"
  by (auto simp: throwing_def)

lemma retry_error: "retry fuel call w = (Inl e, w') \<Longrightarrow> e = Out_of_fuel"
  by (induction fuel arbitrary: w) (auto split: prod.splits if_splits)

lemma throwing_waitpid: "throwing unblocked_on_error (waitpid fuel po p nohang)"
  by (auto simp: throwing_def waitpid_def on_world_op_def unblocked_on_error_def split: prod.splits
      dest: retry_error)

lemma throwing_collect: "throwing unblocked_on_error (processx__collect_exit_status po a retval wstat)"
  unfolding processx__collect_exit_status_def close_fd_def
  by (intro throws throwing_throw) (simp add: unblocked_on_error_def)

lemma throwing_delivery: "throwing unblocked_on_error (delivery fuel po)"
proof -
  have reap: "throwing unblocked_on_error (reap fuel po nodes)" for nodes
  proof (induction nodes)
    case (Cons node nodes)
    then show ?case
      by (cases node) (simp only: reap.simps child_gone_def close_fd_def processx__freelist_add_def,
        intro throws throwing_collect throwing_waitpid)
  qed (simp only: reap.simps throwing_ret)
  have "throwing unblocked_on_error (processx__sigchld_callback fuel po main sig)" for main sig
    unfolding processx__sigchld_callback_def
    by (auto intro!: throws reap throwing_throw simp: unblocked_on_error_def
        split: chld_handler.split bool.split)
  then show ?thesis unfolding delivery_def by (intro throws)
qed

lemma throwing_change_mask: "throwing unblocked_on_error (change_mask fuel po b)"
  unfolding change_mask_def
  by (intro throws throwing_delivery throwing_throw) (simp add: unblocked_on_error_def sigmask_error_def)

lemma throwing_masks:
  "throwing unblocked_on_error (processx__block_sigchld fuel po)"
  "throwing unblocked_on_error (processx__unblock_sigchld fuel po)"
  unfolding processx__block_sigchld_def processx__block_sigchld_save_def processx__unblock_sigchld_def
  by (intro throws throwing_change_mask)+

lemma throwing_unblock_and_throw: "throwing unblocked_on_error (unblock_and_throw fuel po e)"
  unfolding throwing_def
proof (intro allI impI)
  fix s e' s' assume run: "unblock_and_throw fuel po e s = (Inl e', s')"
  obtain r t where u: "processx__unblock_sigchld fuel po s = (r, t)" by (meson surj_pair)
  show "unblocked_on_error e' s'"
  proof (cases r)
    case (Inl x)
    with u run have "processx__unblock_sigchld fuel po s = (Inl e', s')" by (simp add: unblock_and_throw_def)
    then show ?thesis by (rule throwing_masks(2) [unfolded throwing_def, rule_format])
  next
    case (Inr x)
    with u have "\<not> sigchld_blocked t"
      by (auto simp: processx__unblock_sigchld_def elim!: andthen_InrE dest: change_mask_result)
    with u run Inr show ?thesis by (auto simp: unblock_and_throw_def unblocked_on_error_def)
  qed
qed

lemmas throwing_ops = throws throwing_waitpid throwing_collect throwing_masks throwing_unblock_and_throw

lemma unblocked_at_end:
  "throwing unblocked_on_error (processx_is_alive fuel po a)"
  "throwing unblocked_on_error (processx_get_exit_status fuel po a)"
  "throwing unblocked_on_error (processx_signal fuel po a sig g)"
  "returning (\<lambda>_ s. \<not> sigchld_blocked s) (processx_is_alive fuel po a)"
  "returning (\<lambda>_ s. \<not> sigchld_blocked s) (processx_get_exit_status fuel po a)"
  "returning (\<lambda>_ s. \<not> sigchld_blocked s) (processx_signal fuel po a sig g)"
  "returning (\<lambda>_ s. \<not> sigchld_blocked s) (c_processx_kill n fuel po a grace)"
  unfolding processx_is_alive_def processx_get_exit_status_def stored_exitcode_def processx_signal_def
    c_processx_kill_def
  by (intro throwing_ops returning_andthen returning_ret_unblock)+

lemma returning_procmask: "returning (\<lambda>_ s. sigchld_blocked s = b) (andthen (processx__procmask_set fuel po b) (\<lambda>_. ret x))"
  by (auto simp: returning_def processx__procmask_set_def elim!: andthen_InrE dest: change_mask_result)

text \<open>\<open>c_processx_wait\<close> restores the mask it found when it returns.\<close>

lemma wait_restores_mask:
  assumes "c_processx_wait n fuel po a timeout s = (Inr r, s')"
  shows "sigchld_blocked s' = sigchld_blocked s"
proof -
  from assms [unfolded c_processx_wait_def] obtain ok s1
    where 1: "on_world (os_malloc (base po) 8) s = (Inr ok, s1)"
    and rest: "(if \<not> ok then throw (R_system_error ''Allocating memory when waiting'' (EOTHER 12))
     else
       andthen (modify (\<lambda>s. s\<lparr>on_exits := (-1, -1) # on_exits s\<rparr>)) (\<lambda>_.
       andthen (processx__block_sigchld_save fuel po) (\<lambda>old.
       wait_blocked n fuel po a timeout old))) s1 = (Inr r, s')"
    by (rule andthen_InrE)
  have s1: "sigchld_blocked s1 = sigchld_blocked s"
    using obeysD [OF mask_on_world, of s "os_malloc (base po) 8"] 1 by (simp add: same_mask_def)
  let ?s1 = "s1\<lparr>on_exits := (-1, -1) # on_exits s1\<rparr>"
  from rest obtain old s2 where 2: "processx__block_sigchld_save fuel po ?s1 = (Inr old, s2)"
    and 3: "wait_blocked n fuel po a timeout old s2 = (Inr r, s')"
    by (auto simp: modify_def elim!: andthen_InrE split: if_splits)
  from 2 have "old = sigchld_blocked s"
    using s1 by (auto simp: processx__block_sigchld_save_def dest: change_mask_result)
  moreover have "returning (\<lambda>_ s. sigchld_blocked s = old) (wait_blocked n fuel po a timeout old)"
    unfolding wait_blocked_def by (intro returning_intros returning_procmask)
  ultimately show ?thesis using 3 by (simp add: returning_def)
qed

end
