(* ===== verification/Sigchld_Props.thy ===== *)
theory Sigchld_Props
  imports Unix_Process_Props "HOL-Library.Multiset" "HOL-Library.Sublist"
begin

text \<open>
  The SIGCHLD handler and the table of child processes the kernel keeps: every child that is dead
  when the handler starts is taken off the list with its exit code, running ones stay in order,
  and no node of the list is lost.
\<close>

section \<open>The table of children\<close>

text \<open>
  A child is running, or dead with its status word until it is waited for. POSIX: \<open>waitpid\<close> without
  blocking returns 0 for a running child, the pid and the status of a dead one, which it removes
  from the table, and fails with \<open>ECHILD\<close> otherwise. A running child can die at any time.
\<close>

datatype kid = Kid_running | Kid_zombie "32 word"

definition evolves :: "(int \<rightharpoonup> kid) \<Rightarrow> (int \<rightharpoonup> kid) \<Rightarrow> bool" where
  "evolves t t' \<longleftrightarrow> (\<forall>q. t q \<noteq> Some Kid_running \<longrightarrow> t' q = t q)"

lemma evolves_refl: "evolves t t"
  by (simp add: evolves_def)

lemma evolves_trans: "evolves t t' \<Longrightarrow> evolves t' t'' \<Longrightarrow> evolves t t''"
  by (auto simp: evolves_def)

definition child_table :: "'w proc_os \<Rightarrow> ('w \<Rightarrow> int \<rightharpoonup> kid) \<Rightarrow> bool" where
  "child_table po kids \<longleftrightarrow>
     (\<forall>p w r w'. 0 < p \<longrightarrow> os_waitpid po p True w = (r, w') \<longrightarrow>
        (r = Inl EINTR \<and> evolves (kids w) (kids w')) \<or>
        (kids w p = None \<and> r = Inl ECHILD \<and> evolves (kids w) (kids w')) \<or>
        (kids w p = Some Kid_running \<and> (\<exists>st. r = Inr (0, st)) \<and> evolves (kids w) (kids w')) \<or>
        (\<exists>st. kids w p = Some (Kid_zombie st) \<and> r = Inr (p, st) \<and> evolves ((kids w)(p := None)) (kids w'))) \<and>
     (\<forall>fd w. evolves (kids w) (kids (snd (os_close (base po) fd w)))) \<and>
     (\<forall>w. evolves (kids w) (kids (snd (os_clock_gettime po w))))"

lemma child_table_waitpid:
  assumes "child_table po kids" and "0 < p" and "os_waitpid po p True w = (r, w')"
  shows "(r = Inl EINTR \<and> evolves (kids w) (kids w')) \<or>
    (kids w p = None \<and> r = Inl ECHILD \<and> evolves (kids w) (kids w')) \<or>
    (kids w p = Some Kid_running \<and> (\<exists>st. r = Inr (0, st)) \<and> evolves (kids w) (kids w')) \<or>
    (\<exists>st. kids w p = Some (Kid_zombie st) \<and> r = Inr (p, st) \<and> evolves ((kids w)(p := None)) (kids w'))"
  by (rule assms(1) [unfolded child_table_def, THEN conjunct1, rule_format, OF assms(2,3)])

lemma child_table_neutral:
  assumes "child_table po kids"
  shows "evolves (kids w) (kids (snd (os_close (base po) fd w)))"
    and "evolves (kids w) (kids (snd (os_clock_gettime po w)))"
  using assms by (auto simp: child_table_def)

definition exit_code_of :: "32 word \<Rightarrow> int" where
  "exit_code_of st = (if WIFEXITED st then WEXITSTATUS st else - WTERMSIG st)"

text \<open>What the loop around \<open>waitpid\<close> finds, in terms of the table before it.\<close>

lemma waitpid_outcome:
  assumes law: "child_table po kids" and "0 < p" and "waitpid fuel po p True s = (Inr r, s')"
  shows "\<exists>w. s' = s\<lparr>world := w\<rparr> \<and>
    (\<forall>q. q \<noteq> p \<longrightarrow> kids (world s) q \<noteq> Some Kid_running \<longrightarrow> kids w q = kids (world s) q) \<and>
    (kids (world s) p = None \<longrightarrow> r = Inl ECHILD) \<and>
    (\<forall>st. kids (world s) p = Some (Kid_zombie st) \<longrightarrow> r = Inr (p, st) \<and> kids w p = None) \<and>
    (r = Inl ECHILD \<or> (\<exists>st. r = Inr (0, st)) \<or> (\<exists>st. r = Inr (p, st)))"
proof -
  have *: "(\<forall>q. q \<noteq> p \<longrightarrow> kids w q \<noteq> Some Kid_running \<longrightarrow> kids w' q = kids w q) \<and>
    (kids w p = None \<longrightarrow> r = Inl ECHILD) \<and>
    (\<forall>st. kids w p = Some (Kid_zombie st) \<longrightarrow> r = Inr (p, st) \<and> kids w' p = None) \<and>
    (r = Inl ECHILD \<or> (\<exists>st. r = Inr (0, st)) \<or> (\<exists>st. r = Inr (p, st)))"
    if "retry fuel (os_waitpid po p True) w = (Inr r, w')" for w w'
    using that
  proof (induction fuel arbitrary: w)
    case (Suc fuel)
    obtain q v where call: "os_waitpid po p True w = (q, v)" by (meson surj_pair)
    note C = child_table_waitpid [OF law \<open>0 < p\<close> call]
    show ?case
    proof (cases "q = Inl EINTR")
      case True
      with C have "evolves (kids w) (kids v)" by auto
      moreover have "retry fuel (os_waitpid po p True) v = (Inr r, w')" using Suc.prems call True by simp
      note Suc.IH [OF this]
      ultimately show ?thesis unfolding evolves_def by (metis option.distinct(1) option.inject kid.distinct(1))
    next
      case False
      with Suc.prems call C show ?thesis by (auto simp: evolves_def)
    qed
  qed simp
  from assms(3) obtain w where "retry fuel (os_waitpid po p True) (world s) = (Inr r, w)" "s' = s\<lparr>world := w\<rparr>"
    by (auto simp: waitpid_def on_world_op_def split: prod.splits)
  with * [OF this(1)] show ?thesis by (intro exI [of _ w] conjI) auto
qed

section \<open>Collecting\<close>

lemma collect_step:
  assumes law: "child_table po kids" and h: "handle_of s a = Some h"
    and run: "processx__collect_exit_status po a wp st s = (Inr u, s')"
  shows "\<exists>h' w. s' = s\<lparr>handle_of := (handle_of s)(a \<mapsto> h'), world := w\<rparr> \<and> collected h' \<and>
    waitpipe h' = waitpipe h \<and> evolves (kids (world s)) (kids w) \<and>
    exitcode h' = (if collected h then exitcode h else if wp = -1 then NA_INTEGER else exit_code_of st)"
proof (cases "collected h")
  case True
  with run h have "s' = s" by (simp add: processx__collect_exit_status_def gets_def)
  with True h show ?thesis
    by (intro exI [of _ h] exI [of _ "world s"]) (simp add: evolves_refl fun_upd_idem)
next
  case False
  obtain et v where clock: "os_clock_gettime po (world s) = (et, v)" by (meson surj_pair)
  obtain c u where close: "os_close (base po) (pty_child_fd h) v = (c, u)" by (meson surj_pair)
  have e1: "evolves (kids (world s)) (kids v)" using child_table_neutral(2) [OF law, of "world s"] clock by simp
  have e2: "evolves (kids v) (kids u)" using child_table_neutral(1) [OF law, of v "pty_child_fd h"] close by simp
  let ?c = "if wp = -1 then NA_INTEGER else if WIFEXITED st then WEXITSTATUS st else - WTERMSIG st"
  let ?h = "h\<lparr>exitcode := ?c, end_time := (case et of Inl _ \<Rightarrow> None | Inr t \<Rightarrow> Some t), collected := True\<rparr>"
  show ?thesis
  proof (cases "pty_child_fd h \<ge> 0")
    case True
    with run h False clock close have "s' = s\<lparr>handle_of := (handle_of s)(a \<mapsto> ?h\<lparr>pty_child_fd := -1\<rparr>), world := u\<rparr>"
      by (auto simp: processx__collect_exit_status_def gets_def set_handle_def modify_def on_world_def close_fd_def)
    with evolves_trans [OF e1 e2] False show ?thesis
      by (intro exI [of _ "?h\<lparr>pty_child_fd := -1\<rparr>"] exI [of _ u]) (simp add: exit_code_of_def)
  next
    case nopty: False
    with run h False clock have "s' = s\<lparr>handle_of := (handle_of s)(a \<mapsto> ?h), world := v\<rparr>"
      by (auto simp: processx__collect_exit_status_def gets_def set_handle_def modify_def on_world_def)
    with e1 False show ?thesis
      by (intro exI [of _ ?h] exI [of _ v]) (simp add: exit_code_of_def)
  qed
qed

lemma child_gone_step:
  assumes law: "child_table po kids" and run: "child_gone po p a wp st s = (Inr u, s')"
  shows "child_free_list s' = (p, a) # child_free_list s \<and> child_list s' = child_list s \<and>
    evolves (kids (world s)) (kids (world s')) \<and> (\<forall>b. b \<noteq> a \<longrightarrow> handle_of s' b = handle_of s b) \<and>
    (\<forall>h. handle_of s a = Some h \<longrightarrow> (\<exists>h'. handle_of s' a = Some h' \<and> collected h' \<and>
       exitcode h' = (if collected h then exitcode h else if wp = -1 then NA_INTEGER else exit_code_of st) \<and>
       snd (waitpipe h') < 0))"
proof (cases "handle_of s a")
  case None
  with run show ?thesis
    by (auto simp: child_gone_def gets_def modify_def processx__freelist_add_def evolves_refl)
next
  case (Some h)
  with run obtain t where c: "processx__collect_exit_status po a wp st s = (Inr (), t)"
    and rest: "andthen (processx__freelist_add (p, a)) (\<lambda>_.
      if snd (waitpipe h) \<ge> 0
      then andthen (close_fd po (snd (waitpipe h)))
             (\<lambda>_. set_handle a (\<lambda>h. h\<lparr>waitpipe := (fst (waitpipe h), -1)\<rparr>))
      else ret ()) t = (Inr u, s')"
    by (auto simp: child_gone_def gets_def elim!: andthen_InrE)
  from collect_step [OF law Some c] obtain h' w where
    t: "t = s\<lparr>handle_of := (handle_of s)(a \<mapsto> h'), world := w\<rparr>" and h': "collected h'" "waitpipe h' = waitpipe h"
      "exitcode h' = (if collected h then exitcode h else if wp = -1 then NA_INTEGER else exit_code_of st)"
    and w: "evolves (kids (world s)) (kids w)" by blast
  show ?thesis
  proof (cases "snd (waitpipe h) \<ge> 0")
    case False
    with rest t h' w Some show ?thesis
      by (auto simp: modify_def processx__freelist_add_def)
  next
    case True
    obtain q v where close: "os_close (base po) (snd (waitpipe h)) w = (q, v)" by (meson surj_pair)
    have "evolves (kids w) (kids v)"
      using child_table_neutral(1) [OF law, of w "snd (waitpipe h)"] close by simp
    with evolves_trans [OF w this] True rest t h' Some close show ?thesis
      by (auto simp: modify_def processx__freelist_add_def close_fd_def on_world_def set_handle_def)
  qed
qed

section \<open>The loop over the children\<close>

lemma reap_step:
  assumes law: "child_table po kids"
    and "distinct (map fst nodes)" and "distinct (map snd nodes)" and "\<forall>p \<in> fst ` set nodes. 0 < p"
    and "reap fuel po nodes s = (Inr rest, s')"
  shows "subseq rest nodes \<and> child_list s' = child_list s \<and>
    mset rest + mset (child_free_list s') = mset nodes + mset (child_free_list s) \<and>
    (\<forall>b. b \<notin> snd ` set nodes \<longrightarrow> handle_of s' b = handle_of s b) \<and>
    (\<forall>p a. (p, a) \<in> set nodes \<longrightarrow> kids (world s) p \<noteq> Some Kid_running \<longrightarrow>
       (p, a) \<notin> set rest \<and>
       (\<forall>h. handle_of s a = Some h \<longrightarrow> \<not> collected h \<longrightarrow>
          (\<exists>h'. handle_of s' a = Some h' \<and> collected h' \<and> exitcode h' =
             (case kids (world s) p of Some (Kid_zombie st) \<Rightarrow> exit_code_of st | _ \<Rightarrow> NA_INTEGER))))"
  using assms(2-)
proof (induction nodes arbitrary: s rest)
  case (Cons node nodes)
  obtain p a where node: "node = (p, a)" by (cases node)
  have p: "0 < p" "p \<notin> fst ` set nodes" "a \<notin> snd ` set nodes" using Cons.prems node by auto
  from Cons.prems(4) node obtain r t where wait: "waitpid fuel po p True s = (Inr r, t)"
    and tl: "(let (wp, wstat, gone) = (case r of Inl e \<Rightarrow> (-1, 0, e = ECHILD) | Inr (wp, wstat) \<Rightarrow> (wp, wstat, wp \<noteq> 0))
       in if gone then andthen (child_gone po p a wp wstat) (\<lambda>_. reap fuel po nodes)
          else andthen (reap fuel po nodes) (\<lambda>rest. ret ((p, a) # rest))) t = (Inr rest, s')"
    by (auto elim!: andthen_InrE)
  note W = waitpid_outcome [OF law p(1) wait]
  then obtain w where t: "t = s\<lparr>world := w\<rparr>"
    and others: "\<forall>q. q \<noteq> p \<longrightarrow> kids (world s) q \<noteq> Some Kid_running \<longrightarrow> kids w q = kids (world s) q"
    by (elim exE conjE)
  from W have none: "kids (world s) p = None \<Longrightarrow> r = Inl ECHILD"
    and zombie: "\<And>st. kids (world s) p = Some (Kid_zombie st) \<Longrightarrow> r = Inr (p, st)"
    and r: "r = Inl ECHILD \<or> (\<exists>st. r = Inr (0, st)) \<or> (\<exists>st. r = Inr (p, st))"
    by (elim exE conjE, simp)+
  show ?case
  proof (cases "\<exists>st. r = Inr (0, st)")
    case True
    then obtain st where r0: "r = Inr (0, st)" by blast
    with p have run: "kids (world s) p = Some Kid_running"
      using none zombie by (cases "kids (world s) p"; cases "the (kids (world s) p)") auto
    from tl r0 obtain rest' where rec: "reap fuel po nodes t = (Inr rest', s')" and rest: "rest = (p, a) # rest'"
      by (auto elim!: andthen_InrE)
    have IH: "subseq rest' nodes \<and> child_list s' = child_list t \<and>
      mset rest' + mset (child_free_list s') = mset nodes + mset (child_free_list t) \<and>
      (\<forall>b. b \<notin> snd ` set nodes \<longrightarrow> handle_of s' b = handle_of t b) \<and>
      (\<forall>p a. (p, a) \<in> set nodes \<longrightarrow> kids (world t) p \<noteq> Some Kid_running \<longrightarrow>
         (p, a) \<notin> set rest' \<and>
         (\<forall>h. handle_of t a = Some h \<longrightarrow> \<not> collected h \<longrightarrow>
            (\<exists>h'. handle_of s' a = Some h' \<and> collected h' \<and> exitcode h' =
               (case kids (world t) p of Some (Kid_zombie st) \<Rightarrow> exit_code_of st | _ \<Rightarrow> NA_INTEGER))))"
      by (rule Cons.IH [OF _ _ _ rec]) (use Cons.prems in auto)
    have kt: "kids (world t) q = kids (world s) q" if "q \<noteq> p" "kids (world s) q \<noteq> Some Kid_running" for q
      using others that t by simp
    show ?thesis
      using IH run rest node t kt p by (auto simp: image_iff) metis+
  next
    case False
    define wp where "wp = (case r of Inl _ \<Rightarrow> -1 | Inr (wp, _) \<Rightarrow> wp)"
    define st where "st = (case r of Inl _ \<Rightarrow> 0 | Inr (_, st) \<Rightarrow> st)"
    from r False have r': "(r = Inl ECHILD \<and> wp = -1 \<and> st = 0) \<or> (r = Inr (wp, st) \<and> wp = p)"
      by (auto simp: wp_def st_def)
    with tl p(1) have "andthen (child_gone po p a wp st) (\<lambda>_. reap fuel po nodes) t = (Inr rest, s')"
      by auto
    then obtain u v where gone: "child_gone po p a wp st t = (Inr u, v)" and rec: "reap fuel po nodes v = (Inr rest, s')"
      by (auto elim!: andthen_InrE)
    note G = child_gone_step [OF law gone]
    have IH: "subseq rest nodes \<and> child_list s' = child_list v \<and>
      mset rest + mset (child_free_list s') = mset nodes + mset (child_free_list v) \<and>
      (\<forall>b. b \<notin> snd ` set nodes \<longrightarrow> handle_of s' b = handle_of v b) \<and>
      (\<forall>p a. (p, a) \<in> set nodes \<longrightarrow> kids (world v) p \<noteq> Some Kid_running \<longrightarrow>
         (p, a) \<notin> set rest \<and>
         (\<forall>h. handle_of v a = Some h \<longrightarrow> \<not> collected h \<longrightarrow>
            (\<exists>h'. handle_of s' a = Some h' \<and> collected h' \<and> exitcode h' =
               (case kids (world v) p of Some (Kid_zombie st) \<Rightarrow> exit_code_of st | _ \<Rightarrow> NA_INTEGER))))"
      by (rule Cons.IH [OF _ _ _ rec]) (use Cons.prems in auto)
    have kv: "kids (world v) q = kids (world s) q" if "q \<noteq> p" "kids (world s) q \<noteq> Some Kid_running" for q
      using others that G t by (auto simp: evolves_def)
    have hv: "handle_of v b = handle_of s b" if "b \<noteq> a" for b using G t that by simp
    have sa: "handle_of s' a = handle_of v a" using IH p(3) by blast
    have notin: "(p, a) \<notin> set rest"
    proof
      assume "(p, a) \<in> set rest"
      with IH [THEN conjunct1] have "(p, a) \<in> set nodes" by (auto elim: list_emb_set)
      with p(2) show False by force
    qed
    have code: "exitcode h' = (case kids (world s) p of Some (Kid_zombie st) \<Rightarrow> exit_code_of st | _ \<Rightarrow> NA_INTEGER)"
      if "exitcode h' = (if wp = -1 then NA_INTEGER else exit_code_of st)"
        and "kids (world s) p \<noteq> Some Kid_running" for h' :: proc_handle
    proof (cases "kids (world s) p")
      case None
      then have "r = Inl ECHILD" by (rule none)
      then have "wp = -1" by (simp add: wp_def)
      with that(1) None show ?thesis by simp
    next
      case (Some k)
      with that(2) obtain st' where k: "k = Kid_zombie st'" by (cases k) auto
      with Some have "r = Inr (p, st')" by (intro zombie) simp
      then have "wp = p" "st = st'" by (simp_all add: wp_def st_def)
      with that(1) Some k p(1) show ?thesis by simp
    qed
    have head: "\<exists>h'. handle_of s' a = Some h' \<and> collected h' \<and> exitcode h' =
        (case kids (world s) p of Some (Kid_zombie st) \<Rightarrow> exit_code_of st | _ \<Rightarrow> NA_INTEGER)"
      if "handle_of s a = Some h" "\<not> collected h" "kids (world s) p \<noteq> Some Kid_running" for h
      using G t that sa code by auto
    have tail: "(q, b) \<notin> set rest \<and> (\<forall>h. handle_of s b = Some h \<longrightarrow> \<not> collected h \<longrightarrow>
        (\<exists>h'. handle_of s' b = Some h' \<and> collected h' \<and> exitcode h' =
           (case kids (world s) q of Some (Kid_zombie st) \<Rightarrow> exit_code_of st | _ \<Rightarrow> NA_INTEGER)))"
      if qb: "(q, b) \<in> set nodes" "kids (world s) q \<noteq> Some Kid_running" for q b
    proof -
      have "q \<noteq> p" "b \<noteq> a" using qb(1) p by force+
      with kv [OF this(1) qb(2)] hv [OF this(2)] IH qb show ?thesis by metis
    qed
    have "subseq rest (node # nodes)" "child_list s' = child_list s"
      "mset rest + mset (child_free_list s') = mset (node # nodes) + mset (child_free_list s)"
      using IH G t node by (auto intro: list_emb_Cons)
    moreover have "handle_of s' b = handle_of s b" if "b \<notin> snd ` set (node # nodes)" for b
      using that IH hv node by auto
    ultimately show ?thesis using head tail notin node by auto
  qed
qed simp

end
