(* ===== verification/Process_Props.thy ===== *)
theory Process_Props
  imports Sigchld_Props
begin

text \<open>
  The properties of processes on Unix, and a small system to run the operations on: a table of
  children and a log of the calls that matter.
\<close>

section \<open>A system to run on\<close>

datatype call = Closed int | Killed int int

record table_world =
  kids :: "int \<Rightarrow> kid option"
  log :: "call list"

text \<open>
  A child that gets SIGKILL dies at once; waiting for a running one is interrupted again and again.
  Signals are delivered only when \<open>deliver\<close> says so.
\<close>

definition table_kill :: "int \<Rightarrow> int \<Rightarrow> (table_world, unit) syscall" where
  "table_kill p sig w =
     (let w = w\<lparr>log := log w @ [Killed p sig]\<rparr>
      in (Inr (), if sig = SIGKILL \<and> kids w (abs p) = Some Kid_running
           then w\<lparr>kids := (kids w)(abs p \<mapsto> Kid_zombie 9)\<rparr> else w))"

definition table_waitpid :: "int \<Rightarrow> bool \<Rightarrow> (table_world, int \<times> 32 word) syscall" where
  "table_waitpid p nohang w =
     (if kids w p = None then (Inl ECHILD, w)
      else if kids w p = Some Kid_running then (if nohang then (Inr (0, 0), w) else (Inl EINTR, w))
      else (Inr (p, (case the (kids w p) of Kid_zombie st \<Rightarrow> st | Kid_running \<Rightarrow> 0)),
            w\<lparr>kids := (kids w)(p := None)\<rparr>))"

definition table_os :: "(table_world \<Rightarrow> bool) \<Rightarrow> table_world proc_os" where
  "table_os deliver = \<lparr>
     base = refusing_os\<lparr>os_close := \<lambda>fd w. (Inr (), w\<lparr>log := log w @ [Closed fd]\<rparr>),
                        os_pipe := \<lambda>w. (Inr (10, 11), w)\<rparr>,
     os_waitpid = table_waitpid, os_kill = table_kill,
     os_poll = \<lambda>fds t w. (if Closed 11 \<in> set (log w) then (Inr (1, [POLLHUP]), w) else (Inr (0, [0]), w)),
     os_sigprocmask = \<lambda>w. (Inr (), w), os_clock_gettime = \<lambda>w. (Inr 1, w),
     os_interrupted = \<lambda>w. (False, w),
     os_deliver = \<lambda>w. (if deliver w then Some True else None, w),
     os_forward = \<lambda>w. w, os_run_handler = \<lambda>h siginfo w. w\<rparr>"

definition one_child :: "kid \<Rightarrow> table_world ps" where
  "one_child k = \<lparr>handle_of = [1 \<mapsto> zero_handle\<lparr>pid := 77, pty_child_fd := -1\<rparr>],
     child_list = [(77, 1)], child_free_list = [], sigchld_blocked = False,
     sigchld_handler = Chld_processx, old_sig_handler = Chld_default, notify_old = False, on_exits = [],
     world = \<lparr>kids = [77 \<mapsto> k], log = []\<rparr>\<rparr>"

lemma table_os_simps [simp]:
  "os_waitpid (table_os d) = table_waitpid" "os_kill (table_os d) = table_kill"
  "os_close (base (table_os d)) fd w = (Inr (), w\<lparr>log := log w @ [Closed fd]\<rparr>)"
  "os_pipe (base (table_os d)) w = (Inr (10, 11), w)"
  "os_malloc (base (table_os d)) n w = (True, w)"
  "os_fcntl_get (base (table_os d)) k fd w = (Inl EBADF, w)"
  "os_poll (table_os d) fds t w =
     (if Closed 11 \<in> set (log w) then (Inr (1, [POLLHUP]), w) else (Inr (0, [0]), w))"
  "os_sigprocmask (table_os d) w = (Inr (), w)" "os_clock_gettime (table_os d) w = (Inr 1, w)"
  "os_interrupted (table_os d) w = (False, w)"
  "os_deliver (table_os d) w = (if d w then Some True else None, w)"
  by (simp_all add: table_os_def refusing_os_def)

lemma table_os_children: "child_table (table_os d) kids"
  by (auto simp: child_table_def table_waitpid_def evolves_def split: kid.splits if_splits)

lemma one_child_simps [simp]:
  "handle_of (one_child k) = [1 \<mapsto> zero_handle\<lparr>pid := 77, pty_child_fd := -1\<rparr>]"
  "child_list (one_child k) = [(77, 1)]" "child_free_list (one_child k) = []"
  "\<not> sigchld_blocked (one_child k)" "sigchld_handler (one_child k) = Chld_processx"
  "notify_old (one_child k) = False" "world (one_child k) = \<lparr>kids = [77 \<mapsto> k], log = []\<rparr>"
  by (simp_all add: one_child_def)

lemmas run_basic = andthen_def gets_def modify_def on_world_def on_world_op_def set_handle_def close_fd_def waitpid_def
  change_mask_def delivery_def processx__block_sigchld_def processx__block_sigchld_save_def
  processx__unblock_sigchld_def processx__procmask_set_def unblock_and_throw_def processx__sigchld_callback_def
  child_gone_def processx__collect_exit_status_def processx__freelist_add_def processx__setup_sigchld_def

section \<open>The life cycle\<close>

text \<open>C2: whatever is done to the processes of a session, in any order and with any outcome of the
  system calls, each process follows its life cycle: it is running, then has an exit code that
  never changes, and at last is finalized; it does not come back.\<close>

theorem process_lifecycle:
  "phase_step (phase_of s a) (phase_of (fold (\<lambda>e s. run_event n fuel po e s) events s) a)"
  by (rule lifecycle.run_advances)

lemma unblocked_ends:
  assumes "throwing unblocked_on_error f" and "returning (\<lambda>_ s. \<not> sigchld_blocked s) f" and "f s = (r, s')"
  shows "case r of Inr _ \<Rightarrow> \<not> sigchld_blocked s' | Inl e \<Rightarrow> unblocked_on_error e s'"
  using assms by (cases r) (auto simp: throwing_def returning_def)

text \<open>C13: SIGCHLD is not left blocked: \<open>processx_is_alive\<close>, \<open>processx_get_exit_status\<close>,
  \<open>processx_signal\<close> and \<open>processx_kill\<close> unblock it before they return a value, the first three also
  before they raise a system error; \<open>processx_wait\<close> restores the mask it was called with.\<close>

theorem sigchld_mask_restored:
  "(\<forall>r s'. processx_is_alive fuel po a s = (r, s') \<longrightarrow>
      (case r of Inr _ \<Rightarrow> \<not> sigchld_blocked s' | Inl e \<Rightarrow> unblocked_on_error e s')) \<and>
   (\<forall>r s'. processx_get_exit_status fuel po a s = (r, s') \<longrightarrow>
      (case r of Inr _ \<Rightarrow> \<not> sigchld_blocked s' | Inl e \<Rightarrow> unblocked_on_error e s')) \<and>
   (\<forall>r s'. processx_signal fuel po a sig g s = (r, s') \<longrightarrow>
      (case r of Inr _ \<Rightarrow> \<not> sigchld_blocked s' | Inl e \<Rightarrow> unblocked_on_error e s')) \<and>
   (\<forall>b s'. processx_kill n fuel po a grace s = (Inr b, s') \<longrightarrow> \<not> sigchld_blocked s') \<and>
   (\<forall>b s'. processx_wait n fuel po a timeout s = (Inr b, s') \<longrightarrow> sigchld_blocked s' = sigchld_blocked s)"
proof -
  have exits: "sigchld_blocked (snd (run_exits po fds t)) = sigchld_blocked t" for fds t
  proof (induction fds arbitrary: t)
    case (Cons x fds)
    have "obeys same_mask (processx__wait_cleanup po x)"
      unfolding processx__wait_cleanup_def close_fd_def by (intro mask_intros)
    note M = obeysD [OF this, of t, unfolded same_mask_def]
    show ?case
      using Cons.IH [of "snd (processx__wait_cleanup po x t)"] M
      by (auto simp: andthen_def split: prod.splits sum.splits)
  qed simp
  have cleanup: "\<exists>t. f (s\<lparr>on_exits := []\<rparr>) = (Inr b, t) \<and> sigchld_blocked s' = sigchld_blocked t"
    if "with_cleanup po f s = (Inr b, s')" for f :: "('a ps, bool) operation" and b s'
    using that exits by (auto simp: with_cleanup_def split: prod.splits)
  have 1: "\<forall>b s'. processx_kill n fuel po a grace s = (Inr b, s') \<longrightarrow> \<not> sigchld_blocked s'"
    using unblocked_at_end(7) [of n fuel po a grace] cleanup by (fastforce simp: processx_kill_def returning_def)
  have 2: "sigchld_blocked s' = sigchld_blocked s" if "processx_wait n fuel po a timeout s = (Inr b, s')" for b s'
    using cleanup [OF that [unfolded processx_wait_def]] wait_restores_mask by fastforce
  show ?thesis
    by (intro conjI allI impI)
      (erule unblocked_ends [OF unblocked_at_end(1,4)], erule unblocked_ends [OF unblocked_at_end(2,5)],
        erule unblocked_ends [OF unblocked_at_end(3,6)], erule 1 [rule_format], erule 2)
qed

theorem sigchld_mask_restored_witness:
  "fst (processx_is_alive 1 (table_os (\<lambda>_. False)) 1 (one_child Kid_running)) = Inr True \<and>
   \<not> sigchld_blocked (snd (processx_is_alive 1 (table_os (\<lambda>_. False)) 1 (one_child Kid_running)))"
proof -
  let ?run = "processx_is_alive 1 (table_os (\<lambda>_. False)) 1 (one_child Kid_running)"
  have r: "fst ?run = Inr True"
    by (simp add: processx_is_alive_def run_basic table_waitpid_def zero_handle_def)
  obtain s' where "?run = (Inr True, s')" using fst_eqD [OF r] by blast
  with sigchld_mask_restored [of 1 "table_os (\<lambda>_. False)" 1 "one_child Kid_running"] show ?thesis by auto
qed

section \<open>The handler\<close>



section \<open>Exit codes\<close>

lemma status_word_mod: "WTERMSIG st = uint st mod 128" "WEXITSTATUS st = uint st div 256 mod 256"
proof -
  have a: "st AND 0x7f = take_bit 7 st" by (simp add: take_bit_eq_mask mask_eq_exp_minus_1)
  show "WTERMSIG st = uint st mod 128"
    unfolding WTERMSIG_def a unsigned_take_bit_eq by (simp add: take_bit_eq_mod)
  have b: "drop_bit 8 (st AND 0xff00) = take_bit 8 (drop_bit 8 st)"
  proof -
    have m: "(0xff00 :: 32 word) = push_bit 8 (mask 8)" by (simp add: mask_eq_exp_minus_1 push_bit_eq_mult)
    show ?thesis unfolding m by (rule bit_word_eqI) (auto simp: bit_simps)
  qed
  have u: "uint st mod 4294967296 = uint st"
    using uint_lt2p [of st] by simp
  show "WEXITSTATUS st = uint st div 256 mod 256"
    unfolding WEXITSTATUS_def b unsigned_take_bit_eq unsigned_drop_bit_eq
    by (simp add: take_bit_eq_mod drop_bit_eq_div u)
qed

lemma exit_code_of_exit:
  assumes "0 \<le> e" and "e < 256"
  shows "exit_code_of (word_of_int (256 * e)) = e"
proof -
  have "uint (word_of_int (256 * e) :: 32 word) = 256 * e" by (subst uint_word_of_int) (use assms in simp)
  with assms show ?thesis by (simp only: exit_code_of_def WIFEXITED_def status_word_mod) simp
qed

lemma exit_code_of_signal:
  assumes "0 < sig" and "sig < 128"
  shows "exit_code_of (word_of_int sig) = - sig"
proof -
  have "uint (word_of_int sig :: 32 word) = sig" by (subst uint_word_of_int) (use assms in simp)
  with assms show ?thesis by (simp only: exit_code_of_def WIFEXITED_def status_word_mod) simp
qed

lemma block_step:
  assumes "processx__block_sigchld fuel po s = (Inr u, s')"
  shows "s' = s\<lparr>world := snd (os_sigprocmask po (world s)), sigchld_blocked := True\<rparr>"
  using assms
  by (auto simp: processx__block_sigchld_def processx__block_sigchld_save_def change_mask_def delivery_def
      on_world_def andthen_def gets_def modify_def split: prod.splits sum.splits)

text \<open>The part of \<open>processx_get_exit_status\<close> between blocking and unblocking the signal.\<close>

lemma get_exit_status_core:
  assumes run: "processx_get_exit_status fuel po a s = (Inr x, s')" and h: "handle_of s a = Some h" "\<not> collected h"
  obtains t r u v where "t = s\<lparr>world := snd (os_sigprocmask po (world s)), sigchld_blocked := True\<rparr>"
    and "waitpid fuel po (pid h) True t = (Inr r, u)"
    and "r = Inl ECHILD \<and> andthen (processx__collect_exit_status po a (-1) 0) (\<lambda>_. stored_exitcode a) u = (Inr x, v) \<or>
      (\<exists>wp st. r = Inr (wp, st) \<and> (if wp = 0 then x = None \<and> v = u
        else andthen (processx__collect_exit_status po a wp st) (\<lambda>_. stored_exitcode a) u = (Inr x, v)))"
    and "processx__unblock_sigchld fuel po v = (Inr (), s')"
proof -
  from run [unfolded processx_get_exit_status_def] obtain u0 t where b: "processx__block_sigchld fuel po s = (Inr u0, t)"
    and rest: "andthen (gets (\<lambda>s. handle_of s a)) (\<lambda>handle.
     andthen (case handle of
         None \<Rightarrow> ret (Some NA_INTEGER)
       | Some h \<Rightarrow>
           if collected h then ret (Some (exitcode h))
           else andthen (waitpid fuel po (pid h) True) (\<lambda>r. case r of
                  Inl e \<Rightarrow>
                    if e = ECHILD
                    then andthen (processx__collect_exit_status po a (-1) 0) (\<lambda>_. stored_exitcode a)
                    else unblock_and_throw fuel po (R_system_error ''processx_get_exit_status error'' e)
                | Inr (wp, wstat) \<Rightarrow>
                    if wp = 0 then ret None
                    else andthen (processx__collect_exit_status po a wp wstat) (\<lambda>_. stored_exitcode a)))
       (\<lambda>result. andthen (processx__unblock_sigchld fuel po) (\<lambda>_. ret result))) t = (Inr x, s')"
    by (rule andthen_InrE)
  note t = block_step [OF b]
  have no: "unblock_and_throw fuel po e q \<noteq> (Inr z, q')" for e q q' and z :: "int option"
    by (auto simp: unblock_and_throw_def elim!: andthen_InrE)
  from rest t h show thesis
    by (auto simp: gets_def elim!: andthen_InrE split: sum.splits prod.splits if_splits intro: that simp: no)
qed

lemma collect_then_stored:
  assumes "child_table po kids" and "handle_of u a = Some h" and "\<not> collected h"
    and "andthen (processx__collect_exit_status po a wp st) (\<lambda>_. stored_exitcode a) u = (Inr x, v)"
  shows "x = Some (if wp = -1 then NA_INTEGER else exit_code_of st) \<and> phase_of v a = Exited (the x)"
proof -
  from assms(4) obtain c v' where c: "processx__collect_exit_status po a wp st u = (Inr c, v')"
    and x: "v = v'" "x = map_option exitcode (handle_of v a)"
    by (auto simp: stored_exitcode_def gets_def elim!: andthen_InrE)
  from collect_step [OF assms(1,2) c] x assms(3) show ?thesis by (auto simp: phase_of_def)
qed



section \<open>Waiting\<close>

lemma wait_loop_returns:
  assumes poll: "\<And>fd t s. fst (poll_pipe fuel po fd t s) \<noteq> Inl Out_of_fuel"
    and "0 \<le> timeout" and "timeleft < 200 * int n"
  shows "fst (wait_loop n fuel po fd p timeout timeleft s) \<noteq> Inl Out_of_fuel \<or> timeleft < 0"
  using assms(3)
proof (induction n arbitrary: timeleft s)
  case (Suc n)
  show ?case
  proof (cases "timeleft > 200")
    case False
    obtain r t where "poll_pipe fuel po fd timeleft s = (r, t)" by (meson surj_pair)
    with False poll [of fd timeleft s] \<open>0 \<le> timeout\<close> show ?thesis
      by (cases r) (auto simp: PROCESSX_INTERRUPT_INTERVAL_def)
  next
    case True
    have IH: "fst (wait_loop n fuel po fd p timeout (timeleft - 200) t) \<noteq> Inl Out_of_fuel" for t
      using Suc.IH [of "timeleft - 200" t] Suc.prems True by simp
    obtain r t where "poll_pipe fuel po fd 200 s = (r, t)" by (meson surj_pair)
    with True poll [of fd 200 s] IH \<open>0 \<le> timeout\<close> show ?thesis
      by (cases r) (auto simp: PROCESSX_INTERRUPT_INTERVAL_def on_world_def andthen_def split: prod.split sum.split)
  qed
qed simp

text \<open>C27: waiting with a timeout ends: for a timeout of \<open>t\<close> milliseconds, \<open>t / 200 + 1\<close> slices are
  enough, whatever the process does and whichever signals arrive, as long as the single calls of
  \<open>poll\<close> return.\<close>

theorem wait_with_timeout_ends:
  assumes "\<And>fd t s. fst (poll_pipe fuel po fd t s) \<noteq> Inl Out_of_fuel"
    and "\<And>b s. fst (change_mask fuel po b s) \<noteq> Inl Out_of_fuel"
    and "\<And>fd s. fst (nonblock_fd fuel po fd s) \<noteq> Inl Out_of_fuel"
    and "0 \<le> timeout" and "timeout < 200 * int n"
  shows "fst (processx_wait n fuel po a timeout s) \<noteq> Inl Out_of_fuel"
proof -
  let ?Q = "\<lambda>e (s :: 'a ps). e \<noteq> Out_of_fuel"
  have basic: "throwing ?Q (change_mask fuel po b)" "throwing ?Q (nonblock_fd fuel po fd)" for b fd
    using assms(2,3) unfolding throwing_def by (metis fst_conv)+
  have loop: "throwing ?Q (wait_loop n fuel po fd p timeout timeout)" for fd p
    using wait_loop_returns [OF assms(1,4,5)] assms(4) unfolding throwing_def by (metis fst_conv linorder_not_less)
  have "throwing ?Q (c_processx_wait n fuel po a timeout)"
    unfolding c_processx_wait_def wait_blocked_def processx__block_sigchld_save_def processx__block_sigchld_def
      processx__procmask_set_def processx__unblock_sigchld_def processx__setup_sigchld_def
    by (intro throws basic loop throwing_throw) simp_all
  then show ?thesis
    by (auto simp: processx_wait_def with_cleanup_def throwing_def split: prod.split)
qed

theorem wait_with_timeout_ends_witness:
  "fst (processx_wait 6 1 (table_os (\<lambda>_. False)) 1 1000 (one_child Kid_running)) \<noteq> Inl Out_of_fuel"
proof (rule wait_with_timeout_ends)
  fix fd t and s :: "table_world ps"
  show "fst (poll_pipe 1 (table_os (\<lambda>_. False)) fd t s) \<noteq> Inl Out_of_fuel"
    by (simp add: run_basic split: if_split)
next
  fix b and s :: "table_world ps"
  show "fst (change_mask 1 (table_os (\<lambda>_. False)) b s) \<noteq> Inl Out_of_fuel"
    by (simp add: run_basic)
next
  fix fd and s :: "table_world ps"
  show "fst (nonblock_fd 1 (table_os (\<lambda>_. False)) fd s) \<noteq> Inl Out_of_fuel"
    by (simp add: run_basic nonblock_fd_def processx__nonblock_fcntl_def switch_flag_def)
qed auto


definition ending_os :: "table_world proc_os" where
  "ending_os = (table_os (\<lambda>_. False))\<lparr>os_poll := \<lambda>fds t w.
     if kids w 77 = Some Kid_running then (Inr (0, [0]), w\<lparr>kids := [77 \<mapsto> Kid_zombie 0]\<rparr>)
     else (Inr (1, [POLLHUP]), w)\<rparr>"


section \<open>What goes wrong\<close>


text \<open>When the pipe of the waiting call cannot be made during a kill with a grace period, the error
  leaves SIGCHLD blocked in R: the mask that is restored is the one of \<open>processx_kill\<close>, which had
  blocked it, and nothing unblocks it.\<close>

definition no_pipe_os :: "table_world proc_os" where
  "no_pipe_os = (table_os (\<lambda>_. False))\<lparr>base := (base (table_os (\<lambda>_. False)))\<lparr>os_pipe := \<lambda>w. (Inl (EOTHER 24), w)\<rparr>\<rparr>"

theorem failed_kill_leaves_sigchld_blocked:
  "(case processx_kill 1 1 no_pipe_os 1 1 (one_child Kid_running) of
      (r, s) \<Rightarrow> r = Inl (R_system_error ''processx error when waiting'' (EOTHER 24)) \<and> sigchld_blocked s)"
  by (simp add: no_pipe_os_def processx_kill_def c_processx_kill_def with_cleanup_def run_basic table_waitpid_def
      table_kill_def zero_handle_def kill_with_def grace_ms_def c_processx_wait_def wait_blocked_def
      processx__wait_cleanup_def SIGKILL_def SIGTERM_def Let_def)

text \<open>When the process ends during \<open>processx_wait\<close>, the write end of the pipe is closed twice, by the
  SIGCHLD handler and by the exit handler of the call, which kept the number; in between another
  file can get it.\<close>

definition dying_os :: "table_world proc_os" where
  "dying_os = (table_os (\<lambda>w. kids w 77 = Some (Kid_zombie 0)))\<lparr>os_poll := \<lambda>fds t w.
     if Closed 11 \<in> set (log w) then (Inr (1, [POLLHUP]), w)
     else (Inr (0, [0]), w\<lparr>kids := [77 \<mapsto> Kid_zombie 0]\<rparr>)\<rparr>"

theorem wait_closes_pipe_twice:
  "(case processx_wait 3 3 dying_os 1 300 (one_child Kid_running) of
      (r, s) \<Rightarrow> r = Inr True \<and> phase_of s 1 = Exited 0 \<and>
        filter (\<lambda>c. c = Closed 11) (log (world s)) = [Closed 11, Closed 11])"
proof -
  have 3: "(3 :: nat) = Suc (Suc (Suc 0))" by simp
  show ?thesis
    unfolding 3
    by (simp add: dying_os_def processx_wait_def with_cleanup_def run_basic table_waitpid_def nonblock_fd_def
        processx__nonblock_fcntl_def switch_flag_def table_kill_def zero_handle_def c_processx_wait_def wait_blocked_def
        processx__wait_cleanup_def PROCESSX_INTERRUPT_INTERVAL_def SIGKILL_def SIGCHLD_def phase_of_def Let_def
        WIFEXITED_def WTERMSIG_def WEXITSTATUS_def)
qed

end
