(* ===== verification/Child_Init.thy ===== *)
theory Child_Init
  imports Unix_Process
begin

text \<open>
  What runs in the child between \<open>fork\<close> and \<open>execvp\<close> (\<open>processx__child_init\<close> in
  src/src/unix/processx.c): the session, the terminal, the descriptors 0, 1, 2 and the extra ones,
  the working directory and the environment. A failing step writes minus its \<open>errno\<close> to the error
  pipe and kills the process.
\<close>

section \<open>Data\<close>

text \<open>
  What R passes for one descriptor: nothing, a string ("|" for a pipe, "" for the one inherited
  from R, "2>&1", or the name of a file), or a connection, of which the descriptor matters.
\<close>

datatype connection_spec = Spec_null | Spec_string string | Spec_connection int

text \<open>\<open>processx_options_t\<close> without the fields of Windows.\<close>

record processx_options =
  opt_wd :: "string option"
  pty_echo :: bool
  pty_rows :: int
  pty_cols :: int
  linux_pdeathsig :: int

text \<open>
  The calls of the child, beside those of \<open>os\<close>. \<open>os_dupfd fd n\<close> is \<open>fcntl(fd, F_DUPFD, n)\<close>;
  \<open>os_execvp\<close> returns only when it fails.
\<close>

record 'w child_os =
  cbase :: "'w os"
  os_setsid :: "'w \<Rightarrow> 'w"
  os_set_pdeathsig :: "int \<Rightarrow> ('w, unit) syscall"
  os_unblock_signal :: "int \<Rightarrow> 'w \<Rightarrow> 'w"
  os_set_ctty :: "int \<Rightarrow> ('w, unit) syscall"
  os_set_winsize :: "int \<Rightarrow> int \<Rightarrow> int \<Rightarrow> ('w, unit) syscall"
  os_dupfd :: "int \<Rightarrow> int \<Rightarrow> ('w, int) syscall"
  os_chdir :: "string \<Rightarrow> ('w, unit) syscall"
  os_set_environ :: "string list \<Rightarrow> 'w \<Rightarrow> 'w"
  os_putenv :: "string \<Rightarrow> ('w, unit) syscall"
  os_execvp :: "string \<Rightarrow> string list \<Rightarrow> 'w \<Rightarrow> errno option \<times> 'w"

section \<open>The error pipe\<close>

text \<open>The values of Linux, and the four bytes of an \<open>int\<close> in memory, the lowest first.\<close>

fun errno_code :: "errno \<Rightarrow> int" where
  "errno_code EPERM = 1"
| "errno_code ESRCH = 3"
| "errno_code EINTR = 4"
| "errno_code EIO = 5"
| "errno_code EBADF = 9"
| "errno_code ECHILD = 10"
| "errno_code EAGAIN = 11"
| "errno_code EWOULDBLOCK = 11"
| "errno_code EINVAL = 22"
| "errno_code EPIPE = 32"
| "errno_code ERANGE = 34"
| "errno_code E2BIG = 7"
| "errno_code EILSEQ = 84"
| "errno_code EOVERFLOW = 75"
| "errno_code (EOTHER n) = n"

definition int_bytes :: "int \<Rightarrow> byte list" where
  "int_bytes i = map (\<lambda>k. word_of_int (drop_bit (8 * k) i)) [0, 1, 2, 3]"

definition bytes_int :: "byte list \<Rightarrow> int" where
  "bytes_int bs = signed_take_bit 31 (horner_sum uint 256 bs)"

definition sys_call :: "('w, 'a) syscall \<Rightarrow> ('w, errno + 'a) operation" where
  "sys_call call = (\<lambda>w. case call w of (r, w') \<Rightarrow> (Inr r, w'))"

definition processx__write_int :: "'w child_os \<Rightarrow> int \<Rightarrow> int \<Rightarrow> ('w, unit) operation" where
  "processx__write_int co fd err = andthen (sys_call (os_write (cbase co) fd (int_bytes err))) (\<lambda>_. ret ())"

definition die :: "'w child_os \<Rightarrow> int \<Rightarrow> errno \<Rightarrow> ('w, 'a) operation" where
  "die co error_fd errno = andthen (processx__write_int co error_fd (- errno_code errno)) (\<lambda>_. throw Process_killed)"

definition or_die :: "'w child_os \<Rightarrow> int \<Rightarrow> ('w, 'a) syscall \<Rightarrow> ('w, 'a) operation" where
  "or_die co error_fd call = andthen (sys_call call) (\<lambda>r. case r of Inl e \<Rightarrow> die co error_fd e | Inr x \<Rightarrow> ret x)"

definition child_close :: "'w child_os \<Rightarrow> int \<Rightarrow> ('w, unit) operation" where
  "child_close co fd = andthen (sys_call (os_close (cbase co) fd)) (\<lambda>_. ret ())"

section \<open>The terminal\<close>

text \<open>
  \<open>dup2(sub_fd, fd) != fd\<close> tests for failure, since \<open>dup2\<close> returns its second argument.
\<close>

definition child_terminal :: "'w child_os \<Rightarrow> int \<Rightarrow> string \<Rightarrow> processx_options \<Rightarrow> ('w, unit) operation" where
  "child_terminal co error_fd pty_name options =
     andthen (or_die co error_fd (os_open (cbase co) pty_name O_RDWR)) (\<lambda>sub_fd.
     andthen (or_die co error_fd (os_set_ctty co sub_fd)) (\<lambda>_.
     andthen (or_die co error_fd (os_set_winsize co sub_fd (pty_rows options) (pty_cols options))) (\<lambda>_.
     andthen (or_die co error_fd (os_tcgetattr (cbase co) sub_fd)) (\<lambda>c_lflag.
     andthen (or_die co error_fd (os_tcsetattr (cbase co) sub_fd
                (if pty_echo options then c_lflag OR ECHO else c_lflag AND NOT ECHO))) (\<lambda>_.
     andthen (or_die co error_fd (os_dup2 (cbase co) sub_fd 0)) (\<lambda>_.
     andthen (or_die co error_fd (os_dup2 (cbase co) sub_fd 1)) (\<lambda>_.
     andthen (or_die co error_fd (os_dup2 (cbase co) sub_fd 2)) (\<lambda>_.
     if sub_fd > 2 then child_close co sub_fd else ret ()))))))))"

section \<open>The descriptors\<close>

text \<open>
  The first loop: a descriptor that would be overwritten before it is used gets a number from
  \<open>stdio_count\<close> on. \<open>ends\<close> pairs the end of the parent with the one of the child.
\<close>

fun raise_low_fds :: "'w child_os \<Rightarrow> int \<Rightarrow> nat list \<Rightarrow> (int \<times> int) list \<Rightarrow> ('w, (int \<times> int) list) operation" where
  "raise_low_fds co error_fd [] ends = ret ends"
| "raise_low_fds co error_fd (fd # fds) ends =
     (let use_fd = snd (ends ! fd)
      in if use_fd < 0 \<or> use_fd \<ge> int fd then raise_low_fds co error_fd fds ends
         else andthen (or_die co error_fd (os_dupfd co use_fd (int (length ends)))) (\<lambda>new_fd.
              raise_low_fds co error_fd fds (ends[fd := (fst (ends ! fd), new_fd)])))"

text \<open>The file for a standard stream without a pipe.\<close>

definition open_for :: "nat \<Rightarrow> connection_spec \<Rightarrow> string \<times> 32 word" where
  "open_for fd output =
     (case output of
        Spec_string s \<Rightarrow>
          if fd = 0 then (s, O_RDONLY)
          else if take 2 s = ''>>'' then (drop 2 s, O_CREAT OR O_APPEND OR O_RDWR)
          else (s, O_CREAT OR O_TRUNC OR O_RDWR)
      | _ \<Rightarrow> (''/dev/null'', if fd = 0 then O_RDONLY else O_RDWR))"

text \<open>
  The second loop. The value of \<open>os_dup2\<close> is its second argument, or it fails; the results of the
  two \<open>fcntl\<close> helpers are ignored.
\<close>

fun set_up_fds :: "nat \<Rightarrow> 'w child_os \<Rightarrow> int \<Rightarrow> connection_spec list \<Rightarrow> (int \<times> int) list \<Rightarrow> nat list \<Rightarrow>
    ('w, unit) operation" where
  "set_up_fds fuel co error_fd connections ends [] = ret ()"
| "set_up_fds fuel co error_fd connections ends (fd # fds) =
     (let output = connections ! fd;
          (close_fd, use_fd) = ends ! fd
      in if use_fd < 0 \<and> \<not> (fd = 2 \<and> output = Spec_string ''2>&1'') \<and> fd \<ge> 3
         then set_up_fds fuel co error_fd connections ends fds
         else
           andthen (if use_fd \<ge> 0 then ret (close_fd, use_fd)
                    else if fd = 2 \<and> output = Spec_string ''2>&1'' then ret (close_fd, 1)
                    else andthen (or_die co error_fd
                                    (os_open (cbase co) (fst (open_for fd output)) (snd (open_for fd output))))
                           (\<lambda>new_fd. ret (new_fd, new_fd))) (\<lambda>(close_fd, use_fd).
           andthen (if int fd = use_fd
                    then andthen (processx__cloexec_fcntl fuel (cbase co) use_fd False) (\<lambda>_. ret ())
                    else andthen (or_die co error_fd (os_dup2 (cbase co) use_fd (int fd))) (\<lambda>_. ret ())) (\<lambda>_.
           andthen (if fd \<le> 2 then andthen (processx__nonblock_fcntl fuel (cbase co) (int fd) False) (\<lambda>_. ret ())
                    else ret ()) (\<lambda>_.
           andthen (if close_fd \<ge> int (length ends) then child_close co close_fd else ret ()) (\<lambda>_.
           set_up_fds fuel co error_fd connections ends fds)))))"

text \<open>The loops that close what is left; the last one is over all numbers, here at most \<open>n\<close>.\<close>

fun close_all :: "'w child_os \<Rightarrow> int list \<Rightarrow> ('w, unit) operation" where
  "close_all co [] = ret ()"
| "close_all co (fd # fds) = andthen (child_close co fd) (\<lambda>_. close_all co fds)"

fun close_from :: "nat \<Rightarrow> 'w child_os \<Rightarrow> int \<Rightarrow> ('w, unit) operation" where
  "close_from 0 co i = throw Out_of_fuel"
| "close_from (Suc n) co i =
     andthen (sys_call (os_close (cbase co) i)) (\<lambda>r.
       if (\<exists>e. r = Inl e) \<and> i > 200 then ret () else close_from n co (i + 1))"

definition child_descriptors :: "nat \<Rightarrow> nat \<Rightarrow> 'w child_os \<Rightarrow> int \<Rightarrow> connection_spec list \<Rightarrow> (int \<times> int) list \<Rightarrow>
    nat \<Rightarrow> ('w, unit) operation" where
  "child_descriptors n fuel co error_fd connections ends min_fd =
     (let fds = [min_fd..<length ends]
      in andthen (raise_low_fds co error_fd fds ends) (\<lambda>ends.
         andthen (set_up_fds fuel co error_fd connections ends fds) (\<lambda>_.
         andthen (close_all co (filter (\<lambda>fd. fd \<ge> int (length ends)) (map (\<lambda>fd. snd (ends ! fd)) fds))) (\<lambda>_.
         andthen (close_all co [int (length ends)..error_fd - 1]) (\<lambda>_.
         close_from n co (error_fd + 1))))))"

section \<open>The whole function\<close>

definition processx__child_init :: "nat \<Rightarrow> nat \<Rightarrow> 'w child_os \<Rightarrow> connection_spec list \<Rightarrow> (int \<times> int) list \<Rightarrow>
    string \<Rightarrow> string list \<Rightarrow> int \<Rightarrow> string option \<Rightarrow> string list option \<Rightarrow> processx_options \<Rightarrow> string \<Rightarrow>
    ('w, unit) operation" where
  "processx__child_init n fuel co connections ends command args error_fd pty_name env options tree_id =
     andthen (modify (os_setsid co)) (\<lambda>_.
     andthen (if linux_pdeathsig options > 0
              then andthen (or_die co error_fd (os_set_pdeathsig co (linux_pdeathsig options)))
                     (\<lambda>_. modify (os_unblock_signal co (linux_pdeathsig options)))
              else ret ()) (\<lambda>_.
     andthen (case pty_name of None \<Rightarrow> ret () | Some name \<Rightarrow> child_terminal co error_fd name options) (\<lambda>_.
     andthen (child_descriptors n fuel co error_fd connections ends (if pty_name = None then 0 else 3)) (\<lambda>_.
     andthen (case opt_wd options of None \<Rightarrow> ret () | Some wd \<Rightarrow> or_die co error_fd (os_chdir co wd)) (\<lambda>_.
     andthen (case env of None \<Rightarrow> ret () | Some env \<Rightarrow> modify (os_set_environ co env)) (\<lambda>_.
     andthen (or_die co error_fd (os_putenv co tree_id)) (\<lambda>_.
     andthen (\<lambda>w. case os_execvp co command args w of (r, w) \<Rightarrow> (Inr r, w)) (\<lambda>r.
     case r of None \<Rightarrow> throw Process_replaced | Some e \<Rightarrow> die co error_fd e))))))))"

end
