(* ===== verification/Child_Props.thy ===== *)
theory Child_Props
  imports Child_Init
begin

text \<open>
  The descriptors of the child: when the set-up succeeds, every descriptor the child was to get
  refers to the right file, in spite of the descriptors being moved over each other. And what
  happens when the error pipe has a number the child needs.
\<close>

section \<open>Descriptor tables\<close>

text \<open>
  \<open>files w\<close> maps the open descriptors to files. POSIX: \<open>dup2\<close> and \<open>F_DUPFD\<close> make a descriptor refer
  to the file of another one, \<open>F_DUPFD\<close> and \<open>open\<close> choose one that was not open, \<open>close\<close> affects its
  argument only.
\<close>

datatype opened = Opened string "32 word" | File nat

definition descriptor_table :: "'w child_os \<Rightarrow> ('w \<Rightarrow> int \<rightharpoonup> opened) \<Rightarrow> bool" where
  "descriptor_table co files \<longleftrightarrow>
     (\<forall>a b w x w'. os_dup2 (cbase co) a b w = (Inr x, w') \<longrightarrow>
        files w a \<noteq> None \<and> files w' = (files w)(b := files w a)) \<and>
     (\<forall>a m w x w'. os_dupfd co a m w = (Inr x, w') \<longrightarrow>
        m \<le> x \<and> files w x = None \<and> files w a \<noteq> None \<and> files w' = (files w)(x := files w a)) \<and>
     (\<forall>p fl w x w'. os_open (cbase co) p fl w = (Inr x, w') \<longrightarrow>
        0 \<le> x \<and> files w x = None \<and> files w' = (files w)(x \<mapsto> Opened p fl)) \<and>
     (\<forall>a w q. q \<noteq> a \<longrightarrow> files (snd (os_close (cbase co) a w)) q = files w q) \<and>
     (\<forall>k a w. files (snd (os_fcntl_get (cbase co) k a w)) = files w) \<and>
     (\<forall>k a x w. files (snd (os_fcntl_set (cbase co) k a x w)) = files w)"

lemma table_dup2: "descriptor_table co files \<Longrightarrow> os_dup2 (cbase co) a b w = (Inr x, w') \<Longrightarrow>
    files w a \<noteq> None \<and> files w' = (files w)(b := files w a)"
  unfolding descriptor_table_def by (elim conjE) metis

lemma table_dupfd: "descriptor_table co files \<Longrightarrow> os_dupfd co a m w = (Inr x, w') \<Longrightarrow>
    m \<le> x \<and> files w x = None \<and> files w a \<noteq> None \<and> files w' = (files w)(x := files w a)"
  unfolding descriptor_table_def by (elim conjE) metis

lemma table_open: "descriptor_table co files \<Longrightarrow> os_open (cbase co) p fl w = (Inr x, w') \<Longrightarrow>
    0 \<le> x \<and> files w x = None \<and> files w' = (files w)(x \<mapsto> Opened p fl)"
  unfolding descriptor_table_def by (elim conjE) metis

lemma table_close: "descriptor_table co files \<Longrightarrow> q \<noteq> a \<Longrightarrow> files (snd (os_close (cbase co) a w)) q = files w q"
  unfolding descriptor_table_def by (elim conjE) blast

lemma table_fcntl:
  assumes "descriptor_table co files"
  shows "files (snd (os_fcntl_get (cbase co) k a w)) = files w"
    and "files (snd (os_fcntl_set (cbase co) k a x w)) = files w"
  using assms unfolding descriptor_table_def by blast+

lemma switch_flag_files:
  assumes "descriptor_table co files" and "switch_flag fuel (cbase co) k b fd on w = (r, w')"
  shows "files w' = files w"
proof -
  have get: "files v' = files v" if "retry n (os_fcntl_get (cbase co) k fd) v = (q, v')" for n v q v'
    using that table_fcntl(1) [OF assms(1), of k fd]
    by (induction n arbitrary: v) (auto split: prod.splits if_splits, (metis snd_conv)+)
  have put: "files v' = files v" if "retry n (os_fcntl_set (cbase co) k fd x) v = (q, v')" for n v q v' x
    using that table_fcntl(2) [OF assms(1), of k fd x]
    by (induction n arbitrary: v) (auto split: prod.splits if_splits, (metis snd_conv)+)
  show ?thesis
    using assms(2) unfolding switch_flag_def
    by (auto simp: Let_def split: prod.splits sum.splits if_splits dest!: get put)
qed

section \<open>Single steps that succeed\<close>

lemma die_not_Inr [simp]: "die co e err w \<noteq> (Inr x, w')"
  by (auto simp: die_def elim!: andthen_InrE)

lemma or_die_Inr: "or_die co e call w = (Inr x, w') \<longleftrightarrow> call w = (Inr x, w')"
  by (auto simp: or_die_def sys_call_def andthen_def split: prod.splits sum.splits)

lemma child_close_files:
  assumes "descriptor_table co files" and "child_close co a w = (r, w')" and "q \<noteq> a"
  shows "files w' q = files w q"
  using assms(2) table_close [OF assms(1,3), of w]
  by (cases "os_close (cbase co) a w") (auto simp: child_close_def sys_call_def)

lemma close_all_files:
  assumes "descriptor_table co files" and "close_all co fds w = (r, w')" and "q \<notin> set fds"
  shows "files w' q = files w q"
  using assms(2,3)
proof (induction fds arbitrary: w)
  case (Cons a fds)
  obtain v where v: "child_close co a w = (Inr (), v)"
    by (cases "os_close (cbase co) a w") (auto simp: child_close_def sys_call_def)
  with Cons.prems(1) have "close_all co fds v = (r, w')" by simp
  from Cons.IH [OF this] Cons.prems(2) child_close_files [OF assms(1) v, of q] show ?case by simp
qed simp

lemma close_from_files:
  assumes "descriptor_table co files" and "close_from n co i w = (r, w')" and "q < i"
  shows "files w' q = files w q"
  using assms(2,3)
proof (induction n arbitrary: i w)
  case (Suc n)
  obtain c v where v: "os_close (cbase co) i w = (c, v)" by (meson surj_pair)
  have f: "files v q = files w q" using table_close [OF assms(1), of q i w] v Suc.prems(2) by simp
  show ?case
  proof (cases "(\<exists>e. c = Inl e) \<and> i > 200")
    case True
    with Suc.prems(1) v f show ?thesis by (auto simp: sys_call_def)
  next
    case False
    with Suc.prems(1) v have "close_from n co (i + 1) v = (r, w')" by (auto simp: sys_call_def split: if_splits)
    from Suc.IH [OF this] Suc.prems(2) f show ?thesis by simp
  qed
qed simp

section \<open>The first loop\<close>

text \<open>
  A low end that is needed later is replaced by a number from \<open>stdio_count\<close> on that was not in use
  before and refers to the same file; everything else stays.
\<close>

definition raised :: "nat list \<Rightarrow> (int \<rightharpoonup> opened) \<Rightarrow> (int \<rightharpoonup> opened) \<Rightarrow> (int \<times> int) list \<Rightarrow> (int \<times> int) list \<Rightarrow>
    nat \<Rightarrow> bool" where
  "raised fds t t' ends ends' i \<longleftrightarrow> fst (ends' ! i) = fst (ends ! i) \<and>
     (if i \<in> set fds \<and> 0 \<le> snd (ends ! i) \<and> snd (ends ! i) < int i
      then t (snd (ends' ! i)) = None \<and> int (length ends) \<le> snd (ends' ! i) \<and> t' (snd (ends' ! i)) = t (snd (ends ! i))
      else snd (ends' ! i) = snd (ends ! i))"

lemma raise_low_fds_step:
  assumes law: "descriptor_table co files"
    and "raise_low_fds co e fds ends w = (Inr ends', w')" and "distinct fds" and "\<forall>fd \<in> set fds. fd < length ends"
  shows "length ends' = length ends \<and> (\<forall>q. files w q \<noteq> None \<longrightarrow> files w' q = files w q) \<and>
    (\<forall>i < length ends. (0 \<le> snd (ends ! i) \<longrightarrow> files w (snd (ends ! i)) \<noteq> None) \<longrightarrow>
       raised fds (files w) (files w') ends ends' i)"
  using assms(2-)
proof (induction fds arbitrary: ends w)
  case Nil
  then show ?case by (simp add: raised_def)
next
  case (Cons fd fds)
  let ?use = "snd (ends ! fd)"
  show ?case
  proof (cases "?use < 0 \<or> ?use \<ge> int fd")
    case True
    with Cons.prems(1) have "raise_low_fds co e fds ends w = (Inr ends', w')" by (auto simp: Let_def)
    from Cons.IH [OF this] Cons.prems True show ?thesis by (auto simp: raised_def)
  next
    case False
    with Cons.prems(1) obtain m v where d: "os_dupfd co ?use (int (length ends)) w = (Inr m, v)"
      and rec: "raise_low_fds co e fds (ends[fd := (fst (ends ! fd), m)]) v = (Inr ends', w')"
      by (auto simp: Let_def or_die_Inr elim!: andthen_InrE)
    let ?ends = "ends[fd := (fst (ends ! fd), m)]"
    from table_dupfd [OF law d] have m: "int (length ends) \<le> m" "files w m = None"
      and f: "files w ?use \<noteq> None" "files v = (files w)(m := files w ?use)" by auto
    have fd: "fd < length ends" "fd \<notin> set fds" using Cons.prems by auto
    have keep: "files v q = files w q" if "files w q \<noteq> None" for q using f m that by auto
    have IH: "length ends' = length ?ends \<and> (\<forall>q. files v q \<noteq> None \<longrightarrow> files w' q = files v q) \<and>
      (\<forall>i < length ?ends. (0 \<le> snd (?ends ! i) \<longrightarrow> files v (snd (?ends ! i)) \<noteq> None) \<longrightarrow>
         raised fds (files v) (files w') ?ends ends' i)"
      using Cons.prems(2,3) by (intro Cons.IH [OF rec]) auto
    have here: "raised (fd # fds) (files w) (files w') ends ends' fd"
    proof -
      have "files v m \<noteq> None" using f by simp
      with IH fd have "raised fds (files v) (files w') ?ends ends' fd" "files w' m = files v m" by auto
      with fd m f False show ?thesis by (auto simp: raised_def)
    qed
    have there: "raised (fd # fds) (files w) (files w') ends ends' i"
      if i: "i < length ends" "i \<noteq> fd" "0 \<le> snd (ends ! i) \<longrightarrow> files w (snd (ends ! i)) \<noteq> None" for i
    proof -
      have e: "?ends ! i = ends ! i" using i by simp
      have "0 \<le> snd (ends ! i) \<longrightarrow> files v (snd (ends ! i)) = files w (snd (ends ! i))" using i(3) keep by blast
      with IH [THEN conjunct2, THEN conjunct2, rule_format, of i] i e
      have r: "raised fds (files v) (files w') ?ends ends' i" "0 \<le> snd (ends ! i) \<longrightarrow>
          files v (snd (ends ! i)) = files w (snd (ends ! i))" by simp_all
      have "files w q = None" if "files v q = None" for q using keep [of q] that by (cases "files w q") auto
      with r e i(2) show ?thesis unfolding raised_def by (auto split: if_splits)
    qed
    have "files w' q = files w q" if "files w q \<noteq> None" for q
      using IH keep [OF that] that by auto
    with here there IH show ?thesis by auto
  qed
qed

section \<open>The second loop\<close>

text \<open>
  \<open>t i\<close> is the file the descriptor \<open>i\<close> was to get from the end of the child. \<open>in_place\<close> tells that
  it has it, or the file that was asked for by name, or that of descriptor 1.
\<close>

definition in_place :: "connection_spec list \<Rightarrow> (int \<times> int) list \<Rightarrow> (nat \<Rightarrow> opened option) \<Rightarrow> (int \<rightharpoonup> opened) \<Rightarrow> nat \<Rightarrow> bool" where
  "in_place connections ends t tab i \<longleftrightarrow>
     (if 0 \<le> snd (ends ! i) then tab (int i) = t i
      else if i = 2 \<and> connections ! 2 = Spec_string ''2>&1'' then (\<exists>f. tab 1 = Some f \<and> tab 2 = Some f)
      else if i \<le> 2 then tab (int i) = Some (Opened (fst (open_for i (connections ! i))) (snd (open_for i (connections ! i))))
      else True)"

text \<open>The state of the loop when the descriptors below \<open>k\<close> are done.\<close>

definition fds_ready :: "nat \<Rightarrow> connection_spec list \<Rightarrow> (int \<times> int) list \<Rightarrow> (nat \<Rightarrow> opened option) \<Rightarrow> nat \<Rightarrow>
    (int \<rightharpoonup> opened) \<Rightarrow> bool" where
  "fds_ready min_fd connections ends t k tab \<longleftrightarrow>
     (\<forall>i. min_fd \<le> i \<and> i < k \<longrightarrow> in_place connections ends t tab i) \<and>
     (\<forall>i. k \<le> i \<and> i < length ends \<longrightarrow> 0 \<le> snd (ends ! i) \<longrightarrow> tab (snd (ends ! i)) = t i)"

text \<open>What the ends must satisfy: they are open, not below their target, and no end of the parent is one of the child.\<close>

definition ends_ok :: "nat \<Rightarrow> (int \<times> int) list \<Rightarrow> (nat \<Rightarrow> opened option) \<Rightarrow> bool" where
  "ends_ok min_fd ends t \<longleftrightarrow>
     (\<forall>i. min_fd \<le> i \<and> i < length ends \<longrightarrow> 0 \<le> snd (ends ! i) \<longrightarrow> int i \<le> snd (ends ! i) \<and> t i \<noteq> None) \<and>
     (\<forall>i j. min_fd \<le> i \<and> i < length ends \<longrightarrow> min_fd \<le> j \<and> j < length ends \<longrightarrow> int (length ends) \<le> fst (ends ! i) \<longrightarrow>
        fst (ends ! i) \<noteq> snd (ends ! j))"

lemma in_place_open:
  assumes "in_place connections ends t tab i" and "0 \<le> snd (ends ! i) \<Longrightarrow> t i \<noteq> None" and "0 \<le> snd (ends ! i) \<or> i \<le> 2"
  shows "tab (int i) \<noteq> None"
  using assms by (auto simp: in_place_def split: if_splits)

text \<open>Changing the table at a number that is not needed keeps the state.\<close>

lemma fds_ready_other:
  assumes "fds_ready min_fd connections ends t k tab" and "min_fd \<in> {0, 3}" and "k \<le> length ends"
    and "\<And>i. min_fd \<le> i \<Longrightarrow> i < k \<Longrightarrow> 0 \<le> snd (ends ! i) \<or> i \<le> 2 \<Longrightarrow> tab' (int i) = tab (int i)"
    and "\<And>i. k \<le> i \<Longrightarrow> i < length ends \<Longrightarrow> 0 \<le> snd (ends ! i) \<Longrightarrow> tab' (snd (ends ! i)) = tab (snd (ends ! i))"
  shows "fds_ready min_fd connections ends t k tab'"
proof -
  have "in_place connections ends t tab' i" if i: "min_fd \<le> i" "i < k" for i
  proof -
    have "in_place connections ends t tab i" using assms(1) i by (simp add: fds_ready_def)
    moreover have "tab' (int i) = tab (int i)" if "0 \<le> snd (ends ! i) \<or> i \<le> 2" using assms(4) i that by blast
    moreover have "tab' 1 = tab 1" if "i = 2" using assms(2) assms(4) [of 1] i that by auto
    ultimately show ?thesis by (auto simp: in_place_def split: if_splits)
  qed
  with assms(1,5) show ?thesis by (simp add: fds_ready_def)
qed

lemma set_up_fds_step:
  assumes law: "descriptor_table co files" and ok: "ends_ok min_fd ends t" and m: "min_fd \<in> {0, 3}"
    and "set_up_fds fuel co e connections ends [k..<length ends] w = (Inr (), w')"
    and "min_fd \<le> k" and "k \<le> length ends" and "fds_ready min_fd connections ends t k (files w)"
  shows "fds_ready min_fd connections ends t (length ends) (files w')"
  using assms(4-)
proof (induction "length ends - k" arbitrary: k w)
  case 0
  then show ?case by simp
next
  case (Suc d)
  then have k: "k < length ends" by simp
  then have upt: "[k..<length ends] = k # [Suc k..<length ends]" by (simp add: upt_conv_Cons)
  obtain c u where cu: "ends ! k = (c, u)" by (cases "ends ! k")
  have fst_neq: "int (length ends) \<le> fst (ends ! i) \<longrightarrow> fst (ends ! i) \<noteq> snd (ends ! j)"
    if "min_fd \<le> i" "i < length ends" "min_fd \<le> j" "j < length ends" for i j
    using ok that by (simp add: ends_ok_def)
  have use_ge: "int i \<le> snd (ends ! i) \<and> t i \<noteq> None" if "min_fd \<le> i" "i < length ends" "0 \<le> snd (ends ! i)" for i
    using ok that by (simp add: ends_ok_def)
  let ?two = "k = 2 \<and> connections ! k = Spec_string ''2>&1''"
  let ?continue = "set_up_fds fuel co e connections ends [Suc k..<length ends]"
  show ?case
  proof (cases "u < 0 \<and> \<not> ?two \<and> k \<ge> 3")
    case True
    with Suc.prems(1) upt cu have rec: "?continue w = (Inr (), w')" by (auto simp: Let_def)
    have "in_place connections ends t (files w) k" using True cu by (simp add: in_place_def)
    with Suc.prems(4) have "fds_ready min_fd connections ends t (Suc k) (files w)"
      by (auto simp: fds_ready_def less_Suc_eq)
    from Suc.hyps(1) [OF _ rec _ _ this] Suc.hyps(2) Suc.prems k show ?thesis by simp
  next
    case False
    from Suc.prems(1) upt cu False obtain c' u' w1 w2 w3 w4 where
      s1: "(if u \<ge> 0 then ret (c, u) else if ?two then ret (c, 1)
         else andthen (or_die co e (os_open (cbase co) (fst (open_for k (connections ! k))) (snd (open_for k (connections ! k)))))
           (\<lambda>new_fd. ret (new_fd, new_fd))) w = (Inr (c', u'), w1)"
      and s2: "(if int k = u' then andthen (processx__cloexec_fcntl fuel (cbase co) u' False) (\<lambda>_. ret ())
         else andthen (or_die co e (os_dup2 (cbase co) u' (int k))) (\<lambda>_. ret ())) w1 = (Inr (), w2)"
      and s3: "(if k \<le> 2 then andthen (processx__nonblock_fcntl fuel (cbase co) (int k) False) (\<lambda>_. ret ()) else ret ()) w2 = (Inr (), w3)"
      and s4: "(if c' \<ge> int (length ends) then child_close co c' else ret ()) w3 = (Inr (), w4)"
      and rec: "?continue w4 = (Inr (), w')"
      by (simp add: Let_def split: if_splits) (auto elim!: andthen_InrE simp: or_die_Inr split: if_splits)
    let ?open = "open_for k (connections ! k)"
    note ready = Suc.prems(4)
    have at: "files w (snd (ends ! i)) = t i \<and> t i \<noteq> None" if "k \<le> i" "i < length ends" "0 \<le> snd (ends ! i)" for i
      using ready use_ge [of i] that Suc.prems(2) by (simp add: fds_ready_def)
    have below: "files w (int i) \<noteq> None" if "min_fd \<le> i" "i < k" "0 \<le> snd (ends ! i) \<or> i \<le> 2" for i
    proof (rule in_place_open [OF _ _ that(3)])
      show "in_place connections ends t (files w) i" using ready that by (simp add: fds_ready_def)
      show "0 \<le> snd (ends ! i) \<Longrightarrow> t i \<noteq> None" using use_ge [of i] that k by simp
    qed
    have stage1: "fds_ready min_fd connections ends t k (files w1) \<and>
        (if 0 \<le> u then u' = u else if ?two then u' = 1 else files w1 u' = Some (Opened (fst ?open) (snd ?open))) \<and>
        (\<forall>i. k < i \<and> i < length ends \<and> 0 \<le> snd (ends ! i) \<and> int (length ends) \<le> c' \<longrightarrow> c' \<noteq> snd (ends ! i))"
    proof (cases "0 \<le> u \<or> ?two")
      case True
      with s1 have "w1 = w" "c' = c" "u' = (if 0 \<le> u then u else 1)" by (auto split: if_splits)
      moreover have "int (length ends) \<le> c \<longrightarrow> c \<noteq> snd (ends ! i)" if "k < i" "i < length ends" for i
        using fst_neq [of k i] cu k that Suc.prems(2) by simp
      ultimately show ?thesis using ready True by auto
    next
      case open': False
      with s1 have o: "os_open (cbase co) (fst ?open) (snd ?open) w = (Inr c', w1)" "u' = c'"
        by (auto simp: or_die_Inr elim!: andthen_InrE split: if_splits)
      from table_open [OF law o(1)] have o': "files w c' = None" "files w1 = (files w)(c' \<mapsto> Opened (fst ?open) (snd ?open))"
        by auto
      have "c' \<noteq> snd (ends ! i)" if "k \<le> i" "i < length ends" "0 \<le> snd (ends ! i)" for i
        using at [OF that] o'(1) by auto
      moreover have "fds_ready min_fd connections ends t k (files w1)"
        by (rule fds_ready_other [OF ready m]) (use o' below at k in fastforce)+
      ultimately show ?thesis using open' o' o(2) by auto
    qed
    have w2: "files w2 = (files w1)(int k := files w1 u')"
    proof (cases "int k = u'")
      case True
      with s2 obtain r where "processx__cloexec_fcntl fuel (cbase co) u' False w1 = (r, w2)"
        by (auto elim!: andthen_InrE)
      with switch_flag_files [OF law] True show ?thesis by (auto simp: processx__cloexec_fcntl_def fun_upd_idem)
    next
      case False
      with s2 obtain x where "os_dup2 (cbase co) u' (int k) w1 = (Inr x, w2)"
        by (auto simp: or_die_Inr elim!: andthen_InrE)
      from table_dup2 [OF law this] show ?thesis by simp
    qed
    have w3: "files w3 = files w2"
    proof (cases "k \<le> 2")
      case True
      with s3 obtain r where "processx__nonblock_fcntl fuel (cbase co) (int k) False w2 = (r, w3)"
        by (auto elim!: andthen_InrE)
      with switch_flag_files [OF law] show ?thesis by (auto simp: processx__nonblock_fcntl_def)
    qed (use s3 in auto)
    have w4: "files w4 q = files w3 q" if "int (length ends) \<le> c' \<longrightarrow> q \<noteq> c'" for q
      using s4 that child_close_files [OF law, of c' w3 "Inr ()" w4 q] by (auto split: if_splits)
    have w13: "files w3 = (files w1)(int k := files w1 u')" using w2 w3 by simp
    have "fds_ready min_fd connections ends t k (files w3)"
    proof (rule fds_ready_other [OF stage1 [THEN conjunct1] m])
      fix i assume i: "k \<le> i" "i < length ends" "0 \<le> snd (ends ! i)"
      then have "int i \<le> snd (ends ! i)" using use_ge [of i] Suc.prems(2) by simp
      moreover have "u' = snd (ends ! k)" if "i = k" using stage1 i cu that by simp
      ultimately show "files w3 (snd (ends ! i)) = files w1 (snd (ends ! i))"
        using i(1) unfolding w13 by (cases "i = k") auto
    qed (use k w13 in auto)
    moreover have "in_place connections ends t (files w3) k"
    proof (cases "0 \<le> u")
      case True
      then have "files w1 u' = t k" using stage1 k cu by (auto simp: fds_ready_def)
      with True cu show ?thesis by (simp add: in_place_def w13)
    next
      case neg: False
      show ?thesis
      proof (cases ?two)
        case True
        with m Suc.prems(2) have "min_fd = 0" by auto
        with stage1 True k have "in_place connections ends t (files w1) 1" by (simp add: fds_ready_def)
        from in_place_open [OF this] use_ge [of 1] k True \<open>min_fd = 0\<close> obtain f where "files w1 1 = Some f" by auto
        with stage1 neg True cu show ?thesis by (simp add: in_place_def w13)
      next
        case False
        with stage1 neg \<open>\<not> (u < 0 \<and> \<not> ?two \<and> k \<ge> 3)\<close> cu show ?thesis by (auto simp: in_place_def w13)
      qed
    qed
    ultimately have "fds_ready min_fd connections ends t (Suc k) (files w3)"
      by (auto simp: fds_ready_def less_Suc_eq)
    then have "fds_ready min_fd connections ends t (Suc k) (files w4)"
    proof (rule fds_ready_other [OF _ m])
      fix i assume "Suc k \<le> i" "i < length ends" "0 \<le> snd (ends ! i)"
      with stage1 [THEN conjunct2, THEN conjunct2, rule_format, of i]
      show "files w4 (snd (ends ! i)) = files w3 (snd (ends ! i))" by (intro w4) auto
    next
      fix i assume "i < Suc k"
      with k show "files w4 (int i) = files w3 (int i)" by (intro w4) auto
    qed (use k in simp)
    from Suc.hyps(1) [OF _ rec _ _ this] Suc.hyps(2) Suc.prems k show ?thesis by simp
  qed
qed

text \<open>After the first loop the second one can start.\<close>

lemma raised_ready:
  assumes law: "descriptor_table co files"
    and r: "raise_low_fds co error_fd [min_fd..<length ends] ends w = (Inr ends', w1)"
    and child: "\<forall>i. min_fd \<le> i \<and> i < length ends \<and> 0 \<le> snd (ends ! i) \<longrightarrow> files w (snd (ends ! i)) \<noteq> None"
    and parent: "\<forall>i. min_fd \<le> i \<and> i < length ends \<and> 0 \<le> fst (ends ! i) \<longrightarrow> files w (fst (ends ! i)) \<noteq> None \<and>
      (\<forall>j. min_fd \<le> j \<and> j < length ends \<longrightarrow> fst (ends ! i) \<noteq> snd (ends ! j))"
  shows "length ends' = length ends \<and> ends_ok min_fd ends' (\<lambda>i. files w (snd (ends ! i))) \<and>
    fds_ready min_fd connections ends' (\<lambda>i. files w (snd (ends ! i))) min_fd (files w1) \<and>
    (\<forall>i. min_fd \<le> i \<and> i < length ends \<longrightarrow> (0 \<le> snd (ends' ! i) \<longleftrightarrow> 0 \<le> snd (ends ! i)))"
proof -
  let ?N = "length ends" and ?t = "\<lambda>i. files w (snd (ends ! i))"
  note R = raise_low_fds_step [OF law r]
  have len: "length ends' = ?N" and keep: "files w q \<noteq> None \<Longrightarrow> files w1 q = files w q" for q
    using R by auto
  have raised: "raised [min_fd..<?N] (files w) (files w1) ends ends' i" if "min_fd \<le> i" "i < ?N" for i
    using R child that by auto
  have sign: "0 \<le> snd (ends' ! i) \<longleftrightarrow> 0 \<le> snd (ends ! i)" if "min_fd \<le> i" "i < ?N" for i
    using raised [OF that] by (auto simp: raised_def split: if_splits)
  have "ends_ok min_fd ends' ?t"
    unfolding ends_ok_def len
  proof (intro conjI allI impI)
    fix i assume i: "min_fd \<le> i \<and> i < ?N" "0 \<le> snd (ends' ! i)"
    then show "int i \<le> snd (ends' ! i)" using raised [of i] sign [of i] by (auto simp: raised_def split: if_splits)
    show "?t i \<noteq> None" using i sign [of i] child by blast
  next
    fix i j assume ij: "min_fd \<le> i \<and> i < ?N" "min_fd \<le> j \<and> j < ?N" "int ?N \<le> fst (ends' ! i)"
    then have "fst (ends' ! i) = fst (ends ! i)" using raised [of i] by (simp add: raised_def)
    moreover from this ij have "files w (fst (ends ! i)) \<noteq> None" "fst (ends ! i) \<noteq> snd (ends ! j)"
      using parent by auto
    ultimately show "fst (ends' ! i) \<noteq> snd (ends' ! j)"
      using raised [of j] ij(2) by (auto simp: raised_def split: if_splits)
  qed
  moreover have "fds_ready min_fd connections ends' ?t min_fd (files w1)"
    unfolding fds_ready_def len
  proof (intro conjI allI impI)
    fix i assume i: "min_fd \<le> i \<and> i < ?N" "0 \<le> snd (ends' ! i)"
    then have "?t i \<noteq> None" using sign [of i] child by blast
    with i raised [of i] keep show "files w1 (snd (ends' ! i)) = ?t i" by (auto simp: raised_def split: if_splits)
  qed auto
  ultimately show ?thesis using len sign by blast
qed

section \<open>Properties\<close>


text \<open>A system to run the child on: the table of descriptors and what was written to which file.\<close>

record child_world =
  cfiles :: "int \<Rightarrow> opened option"
  writes :: "(opened option \<times> byte list) list"

definition free_from :: "int \<Rightarrow> (int \<Rightarrow> opened option) \<Rightarrow> int option" where
  "free_from m t = find (\<lambda>i. t i = None) [m..m + 20]"

definition table_child :: "child_world child_os" where
  "table_child = \<lparr>
     cbase = refusing_os\<lparr>
       os_dup2 := \<lambda>a b w. (case cfiles w a of None \<Rightarrow> (Inl EBADF, w)
         | Some f \<Rightarrow> (Inr b, w\<lparr>cfiles := (cfiles w)(b \<mapsto> f)\<rparr>)),
       os_open := \<lambda>p fl w. (case free_from 0 (cfiles w) of None \<Rightarrow> (Inl (EOTHER 24), w)
         | Some x \<Rightarrow> (Inr x, w\<lparr>cfiles := (cfiles w)(x \<mapsto> Opened p fl)\<rparr>)),
       os_close := \<lambda>a w. (if cfiles w a = None then Inl EBADF else Inr (), w\<lparr>cfiles := (cfiles w)(a := None)\<rparr>),
       os_write := \<lambda>a bs w. (Inr (length bs), w\<lparr>writes := writes w @ [(cfiles w a, bs)]\<rparr>)\<rparr>,
     os_setsid = \<lambda>w. w, os_set_pdeathsig = \<lambda>s w. (Inr (), w), os_unblock_signal = \<lambda>s w. w,
     os_set_ctty = \<lambda>fd w. (Inr (), w), os_set_winsize = \<lambda>fd r c w. (Inr (), w),
     os_dupfd = \<lambda>a m w. (case (cfiles w a, free_from m (cfiles w)) of
         (Some f, Some x) \<Rightarrow> (Inr x, w\<lparr>cfiles := (cfiles w)(x \<mapsto> f)\<rparr>) | _ \<Rightarrow> (Inl EBADF, w)),
     os_chdir = \<lambda>d w. (Inr (), w), os_set_environ = \<lambda>e w. w, os_putenv = \<lambda>v w. (Inr (), w),
     os_execvp = \<lambda>c args w. (Some (EOTHER 2), w)\<rparr>"

lemma free_from_Some: "free_from m t = Some x \<Longrightarrow> m \<le> x \<and> t x = None"
  by (auto simp: free_from_def find_Some_iff)

lemma table_child_law: "descriptor_table table_child cfiles"
  unfolding descriptor_table_def table_child_def refusing_os_def
  by (auto split: option.splits dest!: free_from_Some)

lemma table_child_simps:
  "os_dup2 (cbase table_child) a b w = (case cfiles w a of None \<Rightarrow> (Inl EBADF, w)
         | Some f \<Rightarrow> (Inr b, w\<lparr>cfiles := (cfiles w)(b \<mapsto> f)\<rparr>))"
  "os_close (cbase table_child) a w =
     (if cfiles w a = None then Inl EBADF else Inr (), w\<lparr>cfiles := (cfiles w)(a := None)\<rparr>)"
  "os_write (cbase table_child) a bs w = (Inr (length bs), w\<lparr>writes := writes w @ [(cfiles w a, bs)]\<rparr>)"
  "os_dupfd table_child a m w = (case (cfiles w a, free_from m (cfiles w)) of
         (Some f, Some x) \<Rightarrow> (Inr x, w\<lparr>cfiles := (cfiles w)(x \<mapsto> f)\<rparr>) | _ \<Rightarrow> (Inl EBADF, w))"
  "os_fcntl_get (cbase table_child) k fd w = (Inl EBADF, w)"
  "os_setsid table_child w = w" "os_putenv table_child v w = (Inr (), w)"
  "os_execvp table_child c args w = (Some (EOTHER 2), w)"
  by (simp_all add: table_child_def refusing_os_def)

lemma table_close_from:
  "(\<forall>j \<ge> i. cfiles w j = None) \<Longrightarrow> 201 - i < int n \<Longrightarrow> 0 < n \<Longrightarrow> close_from n table_child i w = (Inr (), w)"
proof (induction n arbitrary: i)
  case (Suc n)
  have w: "w\<lparr>cfiles := (cfiles w)(i := None)\<rparr> = w" using Suc.prems(1) by (simp add: fun_upd_idem)
  show ?case
  proof (cases "i > 200")
    case True
    with Suc.prems w show ?thesis by (simp add: sys_call_def table_child_simps)
  next
    case False
    have "close_from n table_child (i + 1) w = (Inr (), w)" using Suc.prems False by (intro Suc.IH) auto
    with False Suc.prems w show ?thesis by (simp add: sys_call_def table_child_simps)
  qed
qed simp

lemmas child_run_simps = child_descriptors_def table_child_simps sys_call_def or_die_def child_close_def
  processx__cloexec_fcntl_def processx__nonblock_fcntl_def switch_flag_def free_from_def Let_def

text \<open>Rotating the three standard streams of R into those of the child, step by step.\<close>

definition rotate_conns :: "connection_spec list" where
  "rotate_conns = [Spec_connection 2, Spec_connection 0, Spec_connection 1]"

definition rotate_start :: child_world where
  "rotate_start = \<lparr>cfiles = [0 \<mapsto> File 0, 1 \<mapsto> File 1, 2 \<mapsto> File 2, 4 \<mapsto> File 4], writes = []\<rparr>"

definition rotated :: "int \<rightharpoonup> opened" where
  "rotated = [0 \<mapsto> File 2, 1 \<mapsto> File 0, 2 \<mapsto> File 1, 3 \<mapsto> File 0, 4 \<mapsto> File 4, 5 \<mapsto> File 1]"

lemma find_from: "m \<le> k \<Longrightarrow> find P [m..k] = (if P m then Some m else find P [m + 1..k])" for m :: int
  by (simp add: upto_rec1)

lemma free_from_at: "t m = None \<Longrightarrow> free_from m t = Some m"
  by (simp add: free_from_def find_from)

lemma free_from_third: "t m \<noteq> None \<Longrightarrow> t (m + 1) \<noteq> None \<Longrightarrow> t (m + 2) = None \<Longrightarrow> free_from m t = Some (m + 2)"
  unfolding free_from_def by (simp add: find_from [of m] find_from [of "m + 1"] find_from [of "m + 2"] add.commute [of 2 m])

lemma rotate_raise:
  "raise_low_fds table_child 4 [0, 1, 2] [(-1, 2), (-1, 0), (-1, 1)] rotate_start =
     (Inr [(-1, 2), (-1, 3), (-1, 5)], \<lparr>cfiles = (cfiles rotate_start)(3 \<mapsto> File 0, 5 \<mapsto> File 1), writes = []\<rparr>)"
  by (simp add: or_die_def sys_call_def table_child_simps rotate_start_def free_from_at free_from_third)

lemma rotate_set_up:
  "set_up_fds 1 table_child 4 rotate_conns [(-1, 2), (-1, 3), (-1, 5)] [0, 1, 2]
     \<lparr>cfiles = (cfiles rotate_start)(3 \<mapsto> File 0, 5 \<mapsto> File 1), writes = []\<rparr> = (Inr (), \<lparr>cfiles = rotated, writes = []\<rparr>)"
  by (simp add: or_die_def sys_call_def table_child_simps rotate_start_def rotate_conns_def rotated_def
      processx__nonblock_fcntl_def switch_flag_def child_close_def) (simp add: fun_eq_iff)

lemma rotate_close:
  "close_all table_child [3, 5] \<lparr>cfiles = rotated, writes = []\<rparr> = (Inr (), \<lparr>cfiles = rotated(3 := None, 5 := None), writes = []\<rparr>)"
  "close_all table_child [3] \<lparr>cfiles = rotated(3 := None, 5 := None), writes = []\<rparr> =
     (Inr (), \<lparr>cfiles = rotated(3 := None, 5 := None), writes = []\<rparr>)"
  "close_from 300 table_child 5 \<lparr>cfiles = rotated(3 := None, 5 := None), writes = []\<rparr> =
     (Inr (), \<lparr>cfiles = rotated(3 := None, 5 := None), writes = []\<rparr>)"
  by (simp_all add: child_close_def sys_call_def table_child_simps rotated_def table_close_from)

lemma rotate_run:
  "child_descriptors 300 1 table_child 4 rotate_conns [(-1, 2), (-1, 0), (-1, 1)] 0 rotate_start =
     (Inr (), \<lparr>cfiles = rotated(3 := None, 5 := None), writes = []\<rparr>)"
proof -
  have upt: "[0..<length [(-1, 2), (-1, 0), (-1, 1) :: int \<times> int]] = [0, 1, 2 :: nat]" by (simp add: upt_rec)
  have "filter (\<lambda>fd. 3 \<le> fd) (map (\<lambda>fd. snd ([(-1, 2), (-1, 3), (-1, 5 :: int)] ! fd)) [0, 1, 2 :: nat]) = [3, 5]"
    by simp
  then show ?thesis
    unfolding child_descriptors_def Let_def upt
    by (simp only: rotate_raise rotate_set_up andthen_Inr) (simp add: rotate_close del: close_all.simps fun_upd_apply)
qed


end
