(* ===== verification/Unix_Exec.thy ===== *)
theory Unix_Exec
  imports Child_Init
begin

text \<open>
  Starting a process on Unix: \<open>processx_exec\<close> and \<open>processx__pty_main_open\<close> of
  src/src/unix/processx.c, and src/src/unix/connection.c, which makes the connections of the
  parent. The child runs \<open>processx__child_init\<close> of the theory \<open>Child_Init\<close>.
\<close>

section \<open>Data\<close>

text \<open>
  The calls of starting a process. \<open>os_fork\<close> returns 0 in the child and the pid in the parent;
  \<open>os_create_time\<close> stands for \<open>processx__create_time\<close>, \<open>None\<close> for \<open>NA\<close>.
\<close>

record 'w exec_os =
  proc :: "'w proc_os"
  kid_os :: "'w child_os"
  os_fork :: "('w, int) syscall"
  os_create_time :: "int \<Rightarrow> 'w \<Rightarrow> rat option \<times> 'w"
  os_posix_openpt :: "('w, int) syscall"
  os_grantpt :: "int \<Rightarrow> ('w, unit) syscall"
  os_unlockpt :: "int \<Rightarrow> ('w, unit) syscall"
  os_ptsname :: "int \<Rightarrow> ('w, string) syscall"

definition O_NOCTTY :: "32 word" where "O_NOCTTY = 0x100"

text \<open>
  \<open>R_THROW_SYSTEM_ERROR_CODE\<close> takes a number; \<open>errno_of\<close> is the \<open>errno\<close> with that number.
\<close>

definition errno_of :: "int \<Rightarrow> errno" where
  "errno_of c = (case find (\<lambda>e. errno_code e = c)
     [EPERM, ESRCH, EINTR, EIO, EBADF, ECHILD, EAGAIN, EINVAL, EPIPE, ERANGE, E2BIG, EILSEQ, EOVERFLOW] of
       None \<Rightarrow> EOTHER c | Some e \<Rightarrow> e)"

text \<open>
  The connections made for a process: the objects, in the order they were made, and the variables
  of the R object's private environment that refer to them.
\<close>

type_synonym 'cd made = "'cd conn list \<times> (string \<rightharpoonup> nat)"

text \<open>The static \<open>no_cloexec\<close> of \<open>processx__make_socketpair\<close> is beside the state of the package.\<close>

type_synonym 'w exec_state = "bool \<times> 'w ps"

definition on_sockets :: "(bool \<times> 'w, 'a) operation \<Rightarrow> ('w exec_state, 'a) operation" where
  "on_sockets f = (\<lambda>(c, s). case f (c, world s) of (r, c, w) \<Rightarrow> (r, c, s\<lparr>world := w\<rparr>))"

section \<open>The terminal\<close>

text \<open>The descriptor of the main side and the name of the other one, or an \<open>errno\<close>.\<close>

definition pty_step :: "'w exec_os \<Rightarrow> int \<Rightarrow> ('w, 'a) syscall \<Rightarrow> ('a \<Rightarrow> ('w, errno + 'b) operation) \<Rightarrow>
    ('w, errno + 'b) operation" where
  "pty_step eo main_fd call f =
     andthen (sys_call call) (\<lambda>r. case r of
       Inl e \<Rightarrow> andthen (sys_call (os_close (base (proc eo)) main_fd)) (\<lambda>_. ret (Inl e))
     | Inr x \<Rightarrow> f x)"

definition processx__pty_main_open :: "'w exec_os \<Rightarrow> nat \<Rightarrow> ('w, errno + int \<times> string) operation" where
  "processx__pty_main_open eo sn_len =
     andthen (sys_call (os_posix_openpt eo)) (\<lambda>r. case r of
       Inl e \<Rightarrow> ret (Inl e)
     | Inr main_fd \<Rightarrow>
         pty_step eo main_fd (os_grantpt eo main_fd) (\<lambda>_.
         pty_step eo main_fd (os_unlockpt eo main_fd) (\<lambda>_.
         pty_step eo main_fd (os_ptsname eo main_fd) (\<lambda>p.
         if length p < sn_len then ret (Inr (main_fd, p))
         else andthen (sys_call (os_close (base (proc eo)) main_fd)) (\<lambda>_. ret (Inl EOVERFLOW))))))"

definition R_PROCESSX_PTY_NAME_LEN :: nat where "R_PROCESSX_PTY_NAME_LEN = 2014"

section \<open>Connections of the parent\<close>

definition processx__create_connection :: "'w proc_os \<Rightarrow> nat \<Rightarrow> nat \<Rightarrow> int \<Rightarrow> string \<Rightarrow> string \<Rightarrow> 'cd made \<Rightarrow>
    ('w ps, 'cd made) operation" where
  "processx__create_connection po status slot fd membername enc made =
     andthen (on_world_op (processx_c_connection_create (base po) fd PROCESSX_FILE_TYPE_ASYNCPIPE (Some enc) None)) (\<lambda>con.
     let a = length (fst made)
     in andthen (set_handle status (\<lambda>h. h\<lparr>pipes := (pipes h)[slot := Some a]\<rparr>)) (\<lambda>_.
        ret (fst made @ [con], (snd made)(membername \<mapsto> a))))"

definition std_connection :: "'w proc_os \<Rightarrow> nat \<Rightarrow> nat \<Rightarrow> (proc_handle \<Rightarrow> int) \<Rightarrow> string \<Rightarrow> string \<Rightarrow> 'cd made \<Rightarrow>
    ('w ps, 'cd made) operation" where
  "std_connection po status slot end membername enc made =
     andthen (gets (\<lambda>s. handle_of s status)) (\<lambda>handle. case handle of
       None \<Rightarrow> throw (Undefined_behaviour ''handle is NULL'')
     | Some h \<Rightarrow> if end h \<ge> 0 then processx__create_connection po status slot (end h) membername enc made
               else ret made)"

definition processx__create_connections :: "'w proc_os \<Rightarrow> nat \<Rightarrow> string \<Rightarrow> ('w ps, 'cd made) operation" where
  "processx__create_connections po status enc =
     andthen (set_handle status (\<lambda>h. h\<lparr>pipes := [None, None, None]\<rparr>)) (\<lambda>_.
     andthen (std_connection po status 0 fd0 ''stdin_pipe'' enc ([], Map.empty)) (\<lambda>made.
     andthen (std_connection po status 1 fd1 ''stdout_pipe'' enc made) (\<lambda>made.
     andthen (std_connection po status 2 fd2 ''stderr_pipe'' enc made) (\<lambda>made.
     andthen (set_handle status (\<lambda>h. if ptyfd h \<ge> 0 then h\<lparr>fd0 := ptyfd h\<rparr> else h)) (\<lambda>_.
     andthen (std_connection po status 0 ptyfd ''stdin_pipe'' enc made) (\<lambda>made.
     andthen (set_handle status (\<lambda>h. if ptyfd h \<ge> 0 then h\<lparr>fd1 := ptyfd h\<rparr> else h)) (\<lambda>_.
     std_connection po status 1 ptyfd ''stdout_pipe'' enc made)))))))"

section \<open>Pipes\<close>

text \<open>The step of the loop over the connections: the two ends for one descriptor, -1 for none.\<close>

definition exec_pipe :: "nat \<Rightarrow> 'w exec_os \<Rightarrow> nat \<Rightarrow> string \<Rightarrow> nat \<Rightarrow> connection_spec \<Rightarrow>
    ('w exec_state, int \<times> int) operation" where
  "exec_pipe fuel eo status ccommand i output =
     (case output of
        Spec_null \<Rightarrow> ret (-1, -1)
      | Spec_connection fd \<Rightarrow> ret (-1, fd)
      | Spec_string s \<Rightarrow>
          if s = ''|''
          then andthen (on_sockets (processx__make_socketpair fuel (base (proc eo)) (Some ccommand))) (\<lambda>(p0, p1).
               andthen (on_system (set_handle status (\<lambda>h.
                   if i = 0 then h\<lparr>fd0 := p0\<rparr> else if i = 1 then h\<lparr>fd1 := p0\<rparr> else if i = 2 then h\<lparr>fd2 := p0\<rparr> else h))) (\<lambda>_.
               andthen (on_system (nonblock_fd fuel (proc eo) p0)) (\<lambda>_. ret (p0, p1))))
          else if i = 2 \<and> s = ''2>&1'' then ret (-1, -1)
          else if s = '''' then ret (-1, int i)
          else ret (-1, -1))"

fun exec_pipes :: "nat \<Rightarrow> 'w exec_os \<Rightarrow> nat \<Rightarrow> string \<Rightarrow> nat \<Rightarrow> connection_spec list \<Rightarrow>
    ('w exec_state, (int \<times> int) list) operation" where
  "exec_pipes fuel eo status ccommand i [] = ret []"
| "exec_pipes fuel eo status ccommand i (output # outputs) =
     andthen (exec_pipe fuel eo status ccommand i output) (\<lambda>p.
     andthen (exec_pipes fuel eo status ccommand (Suc i) outputs) (\<lambda>ps. ret (p # ps)))"

text \<open>Closing the ends of the child, of the first three pipes only.\<close>

fun close_unused :: "'w proc_os \<Rightarrow> (int \<times> int) list \<Rightarrow> ('w ps, unit) operation" where
  "close_unused po [] = ret ()"
| "close_unused po ((p0, p1) # ps) =
     andthen (if p1 \<ge> 0 \<and> p0 \<ge> 0 then close_fd po p1 else ret ()) (\<lambda>_. close_unused po ps)"

definition close_if_open :: "'w proc_os \<Rightarrow> int \<Rightarrow> ('w ps, unit) operation" where
  "close_if_open po fd = (if fd \<ge> 0 then close_fd po fd else ret ())"

section \<open>The parent after the fork\<close>

text \<open>
  Reading the \<open>errno\<close> of the child; the signal can be delivered during the call. A short read
  leaves the other bytes of \<open>exec_errorno\<close> zero.
\<close>

fun read_exec_errno :: "nat \<Rightarrow> 'w proc_os \<Rightarrow> int \<Rightarrow> ('w ps, errno + byte list) operation" where
  "read_exec_errno 0 po fd = throw Out_of_fuel"
| "read_exec_errno (Suc fuel) po fd =
     andthen (on_world (os_read (base po) fd 4)) (\<lambda>r.
     andthen (delivery fuel po) (\<lambda>_.
     if r = Inl EINTR then read_exec_errno fuel po fd else ret r))"

definition exec_errorno :: "nat \<Rightarrow> 'w proc_os \<Rightarrow> int \<Rightarrow> int \<Rightarrow> ('w ps, int) operation" where
  "exec_errorno fuel po p fd =
     andthen (read_exec_errno fuel po fd) (\<lambda>r. case r of
       Inr bs \<Rightarrow>
         if bs = [] then ret 0
         else if length bs = 4 then andthen (waitpid fuel po p False) (\<lambda>_. ret (bytes_int bs))
         else throw (R_system_error ''Child process failed to start'' (errno_of (- bytes_int bs)))
     | Inl e \<Rightarrow>
         if e = EPIPE then andthen (waitpid fuel po p False) (\<lambda>_. ret 0)
         else throw (R_system_error ''Child process failed to start'' (errno_of 0)))"

definition exec_pty :: "nat \<Rightarrow> 'w proc_os \<Rightarrow> nat \<Rightarrow> (int \<times> string) option \<Rightarrow> ('w ps, unit) operation" where
  "exec_pty fuel po status pty =
     andthen (set_handle status (\<lambda>h. h\<lparr>ptyfd := -1, pty_child_fd := -1\<rparr>)) (\<lambda>_.
     case pty of
       None \<Rightarrow> ret ()
     | Some (main_fd, name) \<Rightarrow>
         andthen (set_handle status (\<lambda>h. h\<lparr>ptyfd := main_fd\<rparr>)) (\<lambda>_.
         andthen (on_world (os_open (base po) name (O_RDWR OR O_NOCTTY))) (\<lambda>r.
         andthen (set_handle status (\<lambda>h. h\<lparr>pty_child_fd := (case r of Inl _ \<Rightarrow> -1 | Inr fd \<Rightarrow> fd)\<rparr>)) (\<lambda>_.
         nonblock_fd fuel po main_fd))))"

definition exec_parent :: "nat \<Rightarrow> 'w exec_os \<Rightarrow> nat \<Rightarrow> int \<times> int \<Rightarrow> (int \<times> int) list \<Rightarrow> (int \<times> string) option \<Rightarrow>
    string \<Rightarrow> int \<Rightarrow> ('w ps, 'cd made) operation" where
  "exec_parent fuel eo status signal_pipe ends pty enc p =
     (let po = proc eo
      in andthen (on_world (os_create_time eo p)) (\<lambda>ct.
         andthen (set_handle status (\<lambda>h. h\<lparr>create_time := ct\<rparr>)) (\<lambda>_.
         andthen (exec_pty fuel po status pty) (\<lambda>_.
         andthen (processx__child_add po p status) (\<lambda>failed.
         if failed
         then andthen (close_if_open po (fst signal_pipe)) (\<lambda>_.
              andthen (close_if_open po (snd signal_pipe)) (\<lambda>_.
              unblock_and_throw fuel po (R_error ''Cannot create child process, out of memory'')))
         else
           andthen (processx__unblock_sigchld fuel po) (\<lambda>_.
           andthen (close_if_open po (snd signal_pipe)) (\<lambda>_.
           andthen (exec_errorno fuel po p (fst signal_pipe)) (\<lambda>errorno.
           andthen (close_if_open po (fst signal_pipe)) (\<lambda>_.
           andthen (if length ends < 3 then throw (Undefined_behaviour ''pipes out of bounds'')
                    else close_unused po (take 3 ends)) (\<lambda>_.
           andthen (processx__create_connections po status enc) (\<lambda>made.
           if errorno = 0
           then andthen (set_handle status (\<lambda>h. h\<lparr>pid := p\<rparr>)) (\<lambda>_. ret made)
           else throw (R_system_error ''cannot start processx process'' (errno_of (- errorno))))))))))))))"

section \<open>The whole function\<close>

text \<open>The child: the R error after \<open>processx__child_init\<close> is not reached.\<close>

definition exec_child :: "nat \<Rightarrow> nat \<Rightarrow> 'w exec_os \<Rightarrow> connection_spec list \<Rightarrow> (int \<times> int) list \<Rightarrow> string \<Rightarrow> string list \<Rightarrow>
    int \<Rightarrow> (int \<times> string) option \<Rightarrow> string list option \<Rightarrow> processx_options \<Rightarrow> string \<Rightarrow> ('w ps, 'a) operation" where
  "exec_child n fuel eo connections ends command args error_fd pty env options tree_id =
     andthen (case pty of None \<Rightarrow> ret () | Some (main_fd, _) \<Rightarrow> close_fd (proc eo) main_fd) (\<lambda>_.
     andthen (processx__unblock_sigchld fuel (proc eo)) (\<lambda>_.
     andthen (on_world_op (processx__child_init n fuel (kid_os eo) connections ends command args error_fd
         (map_option snd pty) env options tree_id)) (\<lambda>_.
     throw (R_error ''Cannot start child process''))))"

text \<open>
  \<open>status\<close> is the address of the new external pointer. \<open>pty_options\<close> are the echo flag, the rows
  and the columns. A fork that fails is reported with \<open>err = -errno\<close>.
\<close>

definition processx_exec :: "nat \<Rightarrow> nat \<Rightarrow> 'w exec_os \<Rightarrow> nat \<Rightarrow> string \<Rightarrow> string list \<Rightarrow> bool \<Rightarrow> bool \<times> int \<times> int \<Rightarrow>
    connection_spec list \<Rightarrow> string list option \<Rightarrow> bool \<Rightarrow> rat \<Rightarrow> string option \<Rightarrow> string \<Rightarrow> string \<Rightarrow> int \<Rightarrow>
    ('w exec_state, 'cd made) operation" where
  "processx_exec n fuel eo status command args pty pty_options connections env do_cleanup grace wd enc tree_id pdeathsig =
     (let po = proc eo;
          options = \<lparr>opt_wd = wd, pty_echo = False, pty_rows = 0, pty_cols = 0, linux_pdeathsig = pdeathsig\<rparr>
      in andthen (on_system (on_world (os_pipe (base po)))) (\<lambda>r. case r of
           Inl e \<Rightarrow> throw (R_system_error ''Cannot create pipe when running'' e)
         | Inr (sp0, sp1) \<Rightarrow>
             andthen (on_system (on_world_op (processx__cloexec_fcntl fuel (base po) sp0 True))) (\<lambda>_.
             andthen (on_system (on_world_op (processx__cloexec_fcntl fuel (base po) sp1 True))) (\<lambda>_.
             andthen (on_system processx__setup_sigchld) (\<lambda>_.
             andthen (on_system (processx__make_handle po status do_cleanup grace)) (\<lambda>_.
             andthen (if \<not> pty then ret None
                      else andthen (on_system (on_world_op (processx__pty_main_open eo R_PROCESSX_PTY_NAME_LEN))) (\<lambda>r.
                           case r of Inl e \<Rightarrow> throw (R_system_error ''Cannot open pty when running'' e)
                           | Inr p \<Rightarrow> ret (Some p))) (\<lambda>main.
             andthen (on_system (set_handle status (\<lambda>h. h\<lparr>fd0 := -1, fd1 := -1, fd2 := -1\<rparr>))) (\<lambda>_.
             andthen (exec_pipes fuel eo status command 0 connections) (\<lambda>ends.
             andthen (on_system (processx__block_sigchld fuel po)) (\<lambda>_.
             andthen (on_system (on_world (os_fork eo))) (\<lambda>r. case r of
               Inl e \<Rightarrow>
                 andthen (on_system (close_if_open po sp0)) (\<lambda>_.
                 andthen (on_system (close_if_open po sp1)) (\<lambda>_.
                 andthen (on_system (case main of None \<Rightarrow> ret () | Some (main_fd, _) \<Rightarrow> close_fd po main_fd)) (\<lambda>_.
                 on_system (unblock_and_throw fuel po (R_system_error ''Cannot fork'' (errno_of (- errno_code e)))))))
             | Inr p \<Rightarrow>
                 on_system
                   (if p = 0
                    then exec_child n fuel eo connections ends command args sp1 main env
                           (if pty then options\<lparr>pty_echo := fst pty_options, pty_rows := fst (snd pty_options),
                                                pty_cols := snd (snd pty_options)\<rparr> else options) tree_id
                    else exec_parent fuel eo status (sp0, sp1) ends main enc p))))))))))))"

end
