(* ===== verification/Exec_Props.thy ===== *)
theory Exec_Props
  imports Unix_Exec Process_Props
begin

text \<open>
  Starting processes: what a successful \<open>processx_exec\<close> leaves behind, the signal mask after it,
  the way an error of the child reaches R, and what a start that fails early does when its handle
  is finalized.
\<close>

section \<open>The errno of the child\<close>

lemma horner_4: "horner_sum uint (256 :: int) [a, b, c, d :: byte] = uint a + 256 * (uint b + 256 * (uint c + 256 * uint d))"
  by simp

lemma bytes_int_bytes:
  assumes "- (2 ^ 31) \<le> i" and "i < 2 ^ 31"
  shows "bytes_int (int_bytes i) = i"
proof -
  have b: "uint (word_of_int (drop_bit k i) :: byte) = i div 2 ^ k mod 256" for k
    by (simp add: uint_word_of_int drop_bit_eq_div)
  have d: "i div 65536 = i div 256 div 256" "i div 16777216 = i div 256 div 256 div 256"
    by (simp_all add: zdiv_zmult2_eq [symmetric])
  have "horner_sum uint 256 (int_bytes i) = i mod 2 ^ 32"
  proof -
    let ?a = "i div 256" let ?b = "?a div 256" let ?c = "?b div 256"
    have e1: "i mod 2 ^ 32 = i mod 256 + 256 * (?a mod (256 * (256 * 256)))"
      using zmod_zmult2_eq [of "256 * (256 * 256)" i 256] by simp
    have e2: "?a mod (256 * (256 * 256)) = ?a mod 256 + 256 * (?b mod (256 * 256))"
      using zmod_zmult2_eq [of "256 * 256" ?a 256] by simp
    have e3: "?b mod (256 * 256) = ?b mod 256 + 256 * (?c mod 256)"
      using zmod_zmult2_eq [of 256 ?b 256] by simp
    have e4: "horner_sum uint 256 (int_bytes i) = i mod 256 + 256 * (?a mod 256 + 256 * (?b mod 256 + 256 * (?c mod 256)))"
      unfolding int_bytes_def list.map mult_0_right mult_1_right horner_4 by (simp add: b b [of 0, simplified] d)
    show ?thesis by (simp only: e1 e2 e3 e4)
  qed
  then have "bytes_int (int_bytes i) = signed_take_bit 31 (take_bit 32 i)"
    by (simp add: bytes_int_def take_bit_eq_mod)
  also have "\<dots> = signed_take_bit 31 i"
    by (simp add: signed_take_bit_take_bit)
  also have "\<dots> = i" using assms by (simp add: signed_take_bit_int_eq_self)
  finally show ?thesis .
qed

lemma errno_code_of: "errno_code (errno_of c) = c"
  by (auto simp: errno_of_def find_Some_iff split: option.split)

section \<open>The signal mask\<close>

definition same_mask2 :: "'w exec_state \<Rightarrow> 'w exec_state \<Rightarrow> bool" where
  "same_mask2 x y \<longleftrightarrow> same_mask (snd x) (snd y)"

interpretation exec_masks: state_relation same_mask2
  by unfold_locales (auto simp: same_mask2_def same_mask_def)

lemma on_system_obeys: "obeys same_mask f \<Longrightarrow> obeys same_mask2 (on_system f)"
  by (auto simp: obeys_def on_system_def same_mask2_def split: prod.split) (metis snd_conv)

lemma on_sockets_obeys: "obeys same_mask2 (on_sockets f)"
  by (auto simp: obeys_def on_sockets_def same_mask2_def same_mask_def split: prod.split)

lemma mask_setup: "obeys same_mask processx__setup_sigchld"
  unfolding processx__setup_sigchld_def by (rule mask_modify) (simp add: Let_def)

lemma mask_make_handle: "obeys same_mask (processx__make_handle po a c g)"
  unfolding processx__make_handle_def by (intro mask_intros mask_modify) simp

lemma mask_nonblock: "obeys same_mask (nonblock_fd fuel po fd)"
  unfolding nonblock_fd_def by (intro mask_intros)

lemma mask_exec_pipes: "obeys same_mask2 (exec_pipes fuel eo a c i outputs)"
proof (induction outputs arbitrary: i)
  case (Cons out outputs)
  show ?case
    unfolding exec_pipes.simps
    by (intro exec_masks.obeys_intros Cons.IH)
      (cases out; simp add: exec_pipe_def exec_masks.obeys_ret;
        intro conjI impI exec_masks.obeys_intros on_system_obeys on_sockets_obeys mask_set_handle mask_nonblock)
qed (simp add: exec_masks.obeys_ret)

lemma mask_close: "obeys same_mask (close_fd po fd)" "obeys same_mask (close_if_open po fd)"
  unfolding close_if_open_def close_fd_def by (intro mask_intros)+

lemma mask_close_unused: "obeys same_mask (close_unused po ends)"
  by (induction ends rule: close_unused.induct) (simp_all only: close_unused.simps, (intro mask_intros mask_close)+)

lemma mask_read_errno: "obeys same_mask (read_exec_errno fuel po fd)"
proof (induction fuel)
  case (Suc fuel)
  then show ?case unfolding read_exec_errno.simps by (intro mask_intros mask_delivery)
qed (simp only: read_exec_errno.simps masks.obeys_throw)

lemma mask_errorno: "obeys same_mask (exec_errorno fuel po p fd)"
  unfolding exec_errorno_def waitpid_def by (intro mask_intros mask_read_errno)

lemma mask_create: "obeys same_mask (processx__create_connections po a enc)"
  unfolding processx__create_connections_def std_connection_def processx__create_connection_def Let_def
  by (intro mask_intros)

text \<open>Unblocking, and then only what keeps the mask.\<close>

lemma after_unblock:
  assumes "\<And>x. obeys same_mask (g x)"
  shows "throwing unblocked_on_error (andthen (processx__unblock_sigchld fuel po) g)"
    and "returning (\<lambda>_ s. \<not> sigchld_blocked s) (andthen (processx__unblock_sigchld fuel po) g)"
proof -
  have mid: "\<not> sigchld_blocked s'" if "g () s = (r, s')" "processx__unblock_sigchld fuel po s0 = (Inr (), s)" for s0 s r s'
    using obeysD [OF assms, of s "()"] that
    by (auto simp: same_mask_def processx__unblock_sigchld_def elim!: andthen_InrE dest: change_mask_result)
  show "returning (\<lambda>_ s. \<not> sigchld_blocked s) (andthen (processx__unblock_sigchld fuel po) g)"
    unfolding returning_def by (auto elim!: andthen_InrE dest: mid)
  show "throwing unblocked_on_error (andthen (processx__unblock_sigchld fuel po) g)"
    unfolding throwing_def
  proof (intro allI impI)
    fix s e s' assume run: "andthen (processx__unblock_sigchld fuel po) g s = (Inl e, s')"
    obtain r t where u: "processx__unblock_sigchld fuel po s = (r, t)" by (meson surj_pair)
    show "unblocked_on_error e s'"
    proof (cases r)
      case (Inl x)
      with u run throwing_masks(2) [of fuel po] show ?thesis by (auto simp: throwing_def)
    next
      case (Inr x)
      with u run have "\<not> sigchld_blocked s'" using mid [of t "Inl e" s' s] by simp
      then show ?thesis by (simp add: unblocked_on_error_def)
    qed
  qed
qed

text \<open>\<open>settled f\<close>: whatever the mask was, the signal is not blocked when \<open>f\<close> returns or raises a system error.\<close>

definition settled :: "('w ps, 'a) operation \<Rightarrow> bool" where
  "settled f \<longleftrightarrow> throwing unblocked_on_error f \<and> returning (\<lambda>_ s. \<not> sigchld_blocked s) f"

lemma settled_unblock: "(\<And>x. obeys same_mask (g x)) \<Longrightarrow> settled (andthen (processx__unblock_sigchld fuel po) g)"
  by (simp add: settled_def after_unblock)

lemma settled_andthen: "throwing unblocked_on_error f \<Longrightarrow> (\<And>x. settled (g x)) \<Longrightarrow> settled (andthen f g)"
  by (simp add: settled_def throwing_andthen returning_andthen)

lemma settled_if: "(b \<Longrightarrow> settled f) \<Longrightarrow> (\<not> b \<Longrightarrow> settled g) \<Longrightarrow> settled (if b then f else g)"
  by simp

lemma settled_unblock_and_throw: "settled (unblock_and_throw fuel po e)"
  unfolding unblock_and_throw_def by (intro settled_unblock masks.obeys_throw)

lemma throwing_fcntl: "throwing unblocked_on_error (on_world_op (switch_flag fuel os k b fd on))"
proof -
  have "e = Out_of_fuel" if "switch_flag fuel os k b fd on w = (Inl e, w')" for e w w'
    using that by (auto simp: switch_flag_def split: prod.splits sum.splits if_splits dest: retry_error)
  then show ?thesis
    by (auto simp: throwing_def on_world_op_def unblocked_on_error_def split: prod.splits)
qed

lemma throwing_exec_pty: "throwing unblocked_on_error (exec_pty fuel po a pty)"
  unfolding exec_pty_def nonblock_fd_def processx__nonblock_fcntl_def
  by (intro throws throwing_fcntl)

lemma throwing_close: "throwing unblocked_on_error (close_fd po fd)" "throwing unblocked_on_error (close_if_open po fd)"
  unfolding close_if_open_def close_fd_def by (intro throws)+

lemma throwing_child_add: "throwing unblocked_on_error (processx__child_add po p a)"
  unfolding processx__child_add_def by (intro throws)

lemma settled_parent: "settled (exec_parent fuel eo a sp ends pty enc p)"
  unfolding exec_parent_def Let_def
  by (intro settled_andthen settled_if settled_unblock settled_unblock_and_throw throws throwing_exec_pty
      throwing_close throwing_child_add mask_intros mask_close mask_errorno mask_close_unused mask_create)

lemma settled_child: "settled (exec_child n fuel eo conns ends cmd args fd pty env options tree)"
  unfolding exec_child_def
  by (intro settled_andthen settled_unblock throws throwing_close mask_intros)

text \<open>The whole function, started with the signal unblocked.\<close>

definition mask_safe :: "('w exec_state, 'a) operation \<Rightarrow> bool" where
  "mask_safe f \<longleftrightarrow> (\<forall>c s. \<not> sigchld_blocked s \<longrightarrow> (case f (c, s) of
     (Inl e, _, s') \<Rightarrow> unblocked_on_error e s' | (Inr x, _, s') \<Rightarrow> \<not> sigchld_blocked s'))"

lemma mask_safeD:
  assumes "mask_safe f" and "\<not> sigchld_blocked s" and "f (c, s) = (r, c', s')"
  shows "case r of Inl e \<Rightarrow> unblocked_on_error e s' | Inr _ \<Rightarrow> \<not> sigchld_blocked s'"
  using assms(1) [unfolded mask_safe_def, rule_format, OF assms(2), of c] assms(3) by (cases r) simp_all

lemma mask_safe_obeys: "obeys same_mask2 f \<Longrightarrow> mask_safe f"
  unfolding mask_safe_def obeys_def same_mask2_def same_mask_def unblocked_on_error_def
  by (auto split: prod.split sum.split) (metis snd_conv)+

lemma mask_safe_andthen:
  assumes f: "mask_safe f" and g: "\<And>x. mask_safe (g x)"
  shows "mask_safe (andthen f g)"
  unfolding mask_safe_def
proof (intro allI impI)
  fix c and s :: "'a ps" assume s: "\<not> sigchld_blocked s"
  obtain r c' s' where run: "f (c, s) = (r, c', s')" by (metis prod_cases3)
  show "case andthen f g (c, s) of
      (Inl e, _, s') \<Rightarrow> unblocked_on_error e s' | (Inr x, _, s') \<Rightarrow> \<not> sigchld_blocked s'"
  proof (cases r)
    case (Inl e)
    with f s run show ?thesis by (auto simp: mask_safe_def dest!: spec [of _ c])
  next
    case (Inr x)
    with f s run have "\<not> sigchld_blocked s'" by (auto simp: mask_safe_def dest!: spec [of _ c])
    with g [of x] run Inr show ?thesis by (simp add: mask_safe_def)
  qed
qed

lemma mask_safe_settled: "settled f \<Longrightarrow> mask_safe (on_system f)"
  unfolding settled_def mask_safe_def throwing_def returning_def on_system_def
  by (auto split: prod.split sum.split)

lemma mask_safe_sum: "(\<And>x. mask_safe (f x)) \<Longrightarrow> (\<And>y. mask_safe (g y)) \<Longrightarrow>
    mask_safe (case v of Inl x \<Rightarrow> f x | Inr y \<Rightarrow> g y)"
  by (cases v) auto

lemma on_system_andthen: "andthen (on_system f) (\<lambda>x. on_system (g x)) = on_system (andthen f g)"
  by (auto simp: on_system_def andthen_def fun_eq_iff split: prod.split sum.split)

lemma on_system_sum: "(case r of Inl e \<Rightarrow> on_system (f e) | Inr x \<Rightarrow> on_system (g x)) =
    on_system (case r of Inl e \<Rightarrow> f e | Inr x \<Rightarrow> g x)"
  by (cases r) auto

lemmas on_system_join = on_system_andthen on_system_sum

lemma mask_safe_prod: "(\<And>x y. mask_safe (f x y)) \<Longrightarrow> mask_safe (case v of (x, y) \<Rightarrow> f x y)"
  by (cases v) auto

lemma mask_safe_forked:
  assumes "\<And>r. settled (f r)"
  shows "mask_safe (on_system (andthen (processx__block_sigchld fuel po) (\<lambda>_. andthen (on_world call) f)))"
  by (intro mask_safe_settled settled_andthen throwing_masks throwing_on_world assms)

lemma settled_sum: "(\<And>x. settled (f x)) \<Longrightarrow> (\<And>y. settled (g y)) \<Longrightarrow> settled (case v of Inl x \<Rightarrow> f x | Inr y \<Rightarrow> g y)"
  by (cases v) auto

lemma throwing_close_main: "throwing unblocked_on_error (case main of None \<Rightarrow> ret () | Some (fd, name) \<Rightarrow> close_fd po fd)"
  by (intro throws throwing_close)

lemma exec_mask_safe:
  "mask_safe (processx_exec n fuel eo a cmd args pty opts conns env cl grace wd enc tree sig)"
  unfolding processx_exec_def Let_def on_system_join
  by (intro mask_safe_andthen mask_safe_sum mask_safe_prod mask_safe_forked settled_sum settled_andthen settled_if
      settled_parent settled_child settled_unblock_and_throw throwing_close throwing_close_main;
    intro mask_safe_obeys exec_masks.obeys_intros on_system_obeys on_sockets_obeys mask_intros mask_setup
      mask_make_handle mask_exec_pipes)

section \<open>The handle and the child list\<close>

text \<open>
  What everything that happens to a process keeps: its handle with the cleanup flags, and its
  place in the child list until its exit code is collected.
\<close>

definition follows :: "nat \<Rightarrow> 'w ps \<Rightarrow> 'w ps \<Rightarrow> bool" where
  "follows a s s' \<longleftrightarrow> (\<forall>h. handle_of s a = Some h \<longrightarrow> (\<exists>h'. handle_of s' a = Some h' \<and>
     cleanup h' = cleanup h \<and> cleanup_grace h' = cleanup_grace h \<and> (collected h \<longrightarrow> collected h') \<and>
     (\<forall>p. (p, a) \<in> set (child_list s) \<longrightarrow> (p, a) \<in> set (child_list s') \<or> collected h')))"

lemma followsD:
  assumes "follows a s s'" and "handle_of s a = Some h"
  obtains h' where "handle_of s' a = Some h'" and "cleanup h' = cleanup h" and "cleanup_grace h' = cleanup_grace h"
    and "collected h \<longrightarrow> collected h'"
    and "\<forall>p. (p, a) \<in> set (child_list s) \<longrightarrow> (p, a) \<in> set (child_list s') \<or> collected h'"
  using assms unfolding follows_def by blast

lemma follows_trans:
  assumes "follows a s t" and "follows a t u"
  shows "follows a s u"
  unfolding follows_def
proof (intro allI impI)
  fix h assume "handle_of s a = Some h"
  from followsD [OF assms(1) this] obtain h' where 1: "handle_of t a = Some h'" "cleanup h' = cleanup h"
    "cleanup_grace h' = cleanup_grace h" "collected h \<longrightarrow> collected h'"
    "\<forall>p. (p, a) \<in> set (child_list s) \<longrightarrow> (p, a) \<in> set (child_list t) \<or> collected h'" by metis
  from followsD [OF assms(2) 1(1)] obtain h'' where "handle_of u a = Some h''" "cleanup h'' = cleanup h'"
    "cleanup_grace h'' = cleanup_grace h'" "collected h' \<longrightarrow> collected h''"
    "\<forall>p. (p, a) \<in> set (child_list t) \<longrightarrow> (p, a) \<in> set (child_list u) \<or> collected h''" by metis
  with 1 show "\<exists>h'. handle_of u a = Some h' \<and> cleanup h' = cleanup h \<and> cleanup_grace h' = cleanup_grace h \<and>
      (collected h \<longrightarrow> collected h') \<and> (\<forall>p. (p, a) \<in> set (child_list s) \<longrightarrow> (p, a) \<in> set (child_list u) \<or> collected h')"
    by auto
qed

interpretation follow: state_relation "follows a" for a
  by unfold_locales (simp add: follows_def, rule follows_trans)

lemma follows_same: "handle_of s' = handle_of s \<Longrightarrow> child_list s' = child_list s \<Longrightarrow> follows a s s'"
  by (auto simp: follows_def)

lemma follow_gets: "obeys (follows a) (gets f)"
  by (rule obeys_gets) (rule follow.R_refl)

lemma follow_on_world: "obeys (follows a) (on_world f)"
  by (auto simp: obeys_def on_world_def split: prod.split intro: follows_same)

lemma follow_on_world_op: "obeys (follows a) (on_world_op f)"
  by (auto simp: obeys_def on_world_op_def split: prod.split intro: follows_same)

lemma follow_modify: "(\<And>s. handle_of (f s) = handle_of s \<and> child_list (f s) = child_list s) \<Longrightarrow> obeys (follows a) (modify f)"
  by (rule obeys_modify) (auto intro: follows_same)

lemma follow_set_handle:
  "(\<And>h. cleanup (f h) = cleanup h \<and> cleanup_grace (f h) = cleanup_grace h \<and> (collected h \<longrightarrow> collected (f h))) \<Longrightarrow>
   obeys (follows a) (set_handle b f)"
  unfolding set_handle_def by (rule obeys_modify) (auto simp: follows_def)

lemmas follow_intros = follow.obeys_intros follow_gets follow_on_world follow_on_world_op

lemma follow_close_fd: "obeys (follows a) (close_fd po fd)"
  unfolding close_fd_def by (intro follow_intros)

lemma follow_collect: "obeys (follows a) (processx__collect_exit_status po b retval wstat)"
  unfolding processx__collect_exit_status_def by (intro follow_intros follow_set_handle follow_close_fd) simp_all

lemma follow_freelist_add: "obeys (follows a) (processx__freelist_add node)"
  unfolding processx__freelist_add_def by (intro follow_modify) simp

lemma follow_child_gone: "obeys (follows a) (child_gone po p b wp wstat)"
  unfolding child_gone_def
  by (intro follow_intros follow_collect follow_freelist_add follow_close_fd follow_set_handle) simp

lemma follow_waitpid: "obeys (follows a) (waitpid fuel po p nohang)"
  unfolding waitpid_def by (intro follow_intros)

lemma follow_reap: "obeys (follows a) (reap fuel po nodes)"
proof (induction nodes)
  case (Cons node nodes)
  then show ?case
    by (cases node) (simp only: reap.simps, intro follow_intros follow_waitpid follow_child_gone)
qed (simp only: reap.simps follow.obeys_ret)

lemma collect_collects:
  assumes "processx__collect_exit_status po a retval wstat s = (Inr u, s')" and "handle_of s a = Some h"
  shows "\<exists>h'. handle_of s' a = Some h' \<and> collected h'"
  using assms
  by (auto simp: processx__collect_exit_status_def gets_def set_handle_def modify_def on_world_def close_fd_def
      andthen_def split: if_splits prod.splits)

text \<open>The handler: a child leaves the list only with its exit code collected.\<close>

lemma reap_collects:
  assumes "reap fuel po nodes s = (Inr rest, s')" and "handle_of s a = Some h" and "(p, a) \<in> set nodes"
  shows "(p, a) \<in> set rest \<or> (\<exists>h'. handle_of s' a = Some h' \<and> collected h')"
  using assms
proof (induction nodes arbitrary: s h rest)
  case (Cons node nodes)
  obtain q b where node: "node = (q, b)" by (cases node)
  from Cons.prems(1) [unfolded node reap.simps] obtain r s1 where w: "waitpid fuel po q True s = (Inr r, s1)"
    and step: "(let (wp, wstat, gone) = (case r of Inl e \<Rightarrow> (-1, 0, e = ECHILD) | Inr (wp, wstat) \<Rightarrow> (wp, wstat, wp \<noteq> 0))
       in if gone then andthen (child_gone po q b wp wstat) (\<lambda>_. reap fuel po nodes)
          else andthen (reap fuel po nodes) (\<lambda>rest. ret ((q, b) # rest))) s1 = (Inr rest, s')"
    by (rule andthen_InrE)
  from obeysD [OF follow_waitpid [of a fuel po q True], of s] w Cons.prems(2)
  obtain h1 where h1: "handle_of s1 a = Some h1" by (auto elim: followsD)
  obtain wp wstat gone where
    g: "(case r of Inl e \<Rightarrow> (-1, 0, e = ECHILD) | Inr (wp, wstat) \<Rightarrow> (wp, wstat, wp \<noteq> 0)) = (wp, wstat, gone)"
    by (rule prod_cases3)
  show ?case
  proof (cases gone)
    case False
    with step g obtain rest' where "reap fuel po nodes s1 = (Inr rest', s')" "rest = (q, b) # rest'"
      by (auto elim!: andthen_InrE)
    with Cons.IH [OF _ h1] Cons.prems(3) node show ?thesis by auto
  next
    case True
    with step g obtain u s2 where c: "child_gone po q b wp wstat s1 = (Inr u, s2)"
      and rest: "reap fuel po nodes s2 = (Inr rest, s')" by (auto elim!: andthen_InrE)
    from obeysD [OF follow_child_gone [of a po q b wp wstat], of s1] c h1
    obtain h2 where h2: "handle_of s2 a = Some h2" by (auto elim: followsD)
    show ?thesis
    proof (cases "(p, a) = (q, b)")
      case False
      with Cons.IH [OF rest h2] Cons.prems(3) node show ?thesis by auto
    next
      case True
      from c h1 True obtain s3 where col: "processx__collect_exit_status po a wp wstat s1 = (Inr (), s3)"
        and later: "andthen (processx__freelist_add (q, b)) (\<lambda>_. case Some h1 of
           None \<Rightarrow> ret ()
         | Some h \<Rightarrow> if snd (waitpipe h) \<ge> 0
             then andthen (close_fd po (snd (waitpipe h)))
                (\<lambda>_. set_handle b (\<lambda>h. h\<lparr>waitpipe := (fst (waitpipe h), -1)\<rparr>))
             else ret ()) s3 = (Inr u, s2)"
        by (auto simp: child_gone_def gets_def elim!: andthen_InrE)
      from collect_collects [OF col h1] obtain h3 where h3: "handle_of s3 a = Some h3" "collected h3" by blast
      have "obeys (follows a) (andthen (processx__freelist_add (q, b)) (\<lambda>_. case Some h1 of
           None \<Rightarrow> ret ()
         | Some h \<Rightarrow> if snd (waitpipe h) \<ge> 0
             then andthen (close_fd po (snd (waitpipe h)))
                (\<lambda>_. set_handle b (\<lambda>h. h\<lparr>waitpipe := (fst (waitpipe h), -1)\<rparr>))
             else ret ()))"
        by (intro follow_intros follow_freelist_add follow_close_fd follow_set_handle) simp
      from obeysD [OF this, of s3] later have "follows a s3 s2" by simp
      moreover have "follows a s2 s'" using obeysD [OF follow_reap [of a fuel po nodes], of s2] rest by simp
      ultimately have "follows a s3 s'" by (rule follows_trans)
      from followsD [OF this h3(1)] h3(2) show ?thesis by metis
    qed
  qed
qed simp

definition same_list :: "'w ps \<Rightarrow> 'w ps \<Rightarrow> bool" where
  "same_list s s' \<longleftrightarrow> child_list s' = child_list s"

interpretation lists: state_relation same_list
  by unfold_locales (auto simp: same_list_def)

lemma list_basic:
  "obeys same_list (gets f)" "obeys same_list (on_world g)" "obeys same_list (on_world_op k)"
  "obeys same_list (set_handle a h)" "obeys same_list (processx__freelist_add node)"
  by (auto simp: obeys_def gets_def on_world_def on_world_op_def set_handle_def modify_def same_list_def
      processx__freelist_add_def split: prod.split)

lemma list_reap: "obeys same_list (reap fuel po nodes)"
proof (induction nodes)
  case (Cons node nodes)
  then show ?case
    by (cases node) (simp only: reap.simps child_gone_def waitpid_def close_fd_def processx__collect_exit_status_def,
      intro lists.obeys_intros list_basic)
qed (simp only: reap.simps lists.obeys_ret)

lemma follow_reaped:
  assumes "reap fuel po nodes s = (Inr rest, t)" and "child_list s = nodes"
  shows "follows a s (t\<lparr>child_list := rest\<rparr>)"
  unfolding follows_def
proof (intro allI impI)
  fix h assume h: "handle_of s a = Some h"
  have "follows a s t" using obeysD [OF follow_reap [of a fuel po nodes], of s] assms(1) by simp
  from followsD [OF this h] obtain h' where h': "handle_of t a = Some h'" "cleanup h' = cleanup h"
    "cleanup_grace h' = cleanup_grace h" "collected h \<longrightarrow> collected h'" by metis
  moreover have "(p, a) \<in> set rest \<or> collected h'" if "(p, a) \<in> set (child_list s)" for p
    using reap_collects [OF assms(1) h] that assms(2) h'(1) by auto
  ultimately show "\<exists>h'. handle_of (t\<lparr>child_list := rest\<rparr>) a = Some h' \<and> cleanup h' = cleanup h \<and>
      cleanup_grace h' = cleanup_grace h \<and> (collected h \<longrightarrow> collected h') \<and>
      (\<forall>p. (p, a) \<in> set (child_list s) \<longrightarrow> (p, a) \<in> set (child_list (t\<lparr>child_list := rest\<rparr>)) \<or> collected h')"
    by auto
qed

lemma follow_callback: "obeys (follows a) (processx__sigchld_callback fuel po main_thread sig)"
proof -
  have "obeys (follows a) (andthen (gets child_list) (\<lambda>nodes.
           andthen (reap fuel po nodes) (\<lambda>rest. andthen (modify (\<lambda>s. s\<lparr>child_list := rest\<rparr>)) g)))"
    if g: "\<And>u. obeys (follows a) (g u)" for g :: "unit \<Rightarrow> ('a ps, unit) operation"
    unfolding obeys_def
  proof
    fix s :: "'a ps"
    obtain r t where run: "reap fuel po (child_list s) s = (r, t)" by (meson surj_pair)
    show "follows a s (snd (andthen (gets child_list) (\<lambda>nodes.
           andthen (reap fuel po nodes) (\<lambda>rest. andthen (modify (\<lambda>s. s\<lparr>child_list := rest\<rparr>)) g)) s))"
    proof (cases r)
      case (Inl e)
      with run obeysD [OF follow_reap [of a fuel po "child_list s"], of s] show ?thesis by (simp add: gets_def)
    next
      case (Inr rest)
      with run have "follows a s (t\<lparr>child_list := rest\<rparr>)" by (intro follow_reaped) auto
      from follows_trans [OF this obeysD [OF g [of "()"], of "t\<lparr>child_list := rest\<rparr>"]] run Inr
      show ?thesis by (simp add: gets_def modify_def)
    qed
  qed
  note core = this
  show ?thesis
    unfolding processx__sigchld_callback_def
    by (intro follow.obeys_if follow_on_world follow.obeys_ret core follow.obeys_andthen follow_gets)
      (auto intro: follow_on_world follow.obeys_ret follow.obeys_throw split: chld_handler.split bool.split)
qed

lemma follow_delivery: "obeys (follows a) (delivery fuel po)"
  unfolding delivery_def by (intro follow_intros follow_callback)

lemma follow_change_mask: "obeys (follows a) (change_mask fuel po b)"
  unfolding change_mask_def by (intro follow_intros follow_delivery follow_modify) simp

lemma follow_masks:
  "obeys (follows a) (processx__block_sigchld fuel po)" "obeys (follows a) (processx__unblock_sigchld fuel po)"
  "obeys (follows a) (unblock_and_throw fuel po e)"
  unfolding processx__block_sigchld_save_def processx__block_sigchld_def processx__unblock_sigchld_def
    unblock_and_throw_def
  by (intro follow_intros follow_change_mask)+

lemma follow_read_errno: "obeys (follows a) (read_exec_errno fuel po fd)"
proof (induction fuel)
  case (Suc fuel)
  then show ?case unfolding read_exec_errno.simps by (intro follow_intros follow_delivery)
qed (simp only: read_exec_errno.simps follow.obeys_throw)

lemma follow_errorno: "obeys (follows a) (exec_errorno fuel po p fd)"
  unfolding exec_errorno_def by (intro follow_intros follow_waitpid follow_read_errno)

lemma follow_close: "obeys (follows a) (close_if_open po fd)"
  unfolding close_if_open_def by (intro follow_intros follow_close_fd)

lemma follow_close_unused: "obeys (follows a) (close_unused po ends)"
  by (induction ends rule: close_unused.induct)
    (simp_all only: close_unused.simps, (intro follow_intros follow_close_fd)+)

lemma follow_create: "obeys (follows a) (processx__create_connections po b enc)"
  unfolding processx__create_connections_def std_connection_def processx__create_connection_def Let_def
  by (intro follow_intros follow_set_handle) simp_all

lemma follow_exec_pty: "obeys (follows a) (exec_pty fuel po b pty)"
  unfolding exec_pty_def nonblock_fd_def by (intro follow_intros follow_set_handle) simp_all

section \<open>A started process\<close>

text \<open>\<open>made_for\<close>: the handle is there with its flags; \<open>tracked\<close>: its process is in the list or collected.\<close>

definition made_for :: "nat \<Rightarrow> bool \<Rightarrow> rat \<Rightarrow> 'w ps \<Rightarrow> bool" where
  "made_for a cl grace s \<longleftrightarrow> (\<exists>h. handle_of s a = Some h \<and> cleanup h = cl \<and> cleanup_grace h = grace)"

definition tracked :: "nat \<Rightarrow> int \<Rightarrow> bool \<Rightarrow> rat \<Rightarrow> 'w ps \<Rightarrow> bool" where
  "tracked a p cl grace s \<longleftrightarrow> (\<exists>h. handle_of s a = Some h \<and> cleanup h = cl \<and> cleanup_grace h = grace \<and>
     ((p, a) \<in> set (child_list s) \<or> collected h))"

lemma made_for_follows: "follows a s s' \<Longrightarrow> made_for a cl grace s \<Longrightarrow> made_for a cl grace s'"
  unfolding made_for_def by (metis followsD)

lemma tracked_follows: "follows a s s' \<Longrightarrow> tracked a p cl grace s \<Longrightarrow> tracked a p cl grace s'"
  unfolding tracked_def by (metis followsD)

lemma yields_made: "obeys (follows a) f \<Longrightarrow> yields (made_for a cl grace) f (\<lambda>_. made_for a cl grace)"
  by (rule yields_obeys [where R = "follows a"]) (auto intro: made_for_follows)

lemma yields_tracked: "obeys (follows a) f \<Longrightarrow> yields (tracked a p cl grace) f (\<lambda>_. tracked a p cl grace)"
  by (rule yields_obeys [where R = "follows a"]) (auto intro: tracked_follows)

lemma yields_no_return: "yields P (unblock_and_throw fuel po e) Q"
  by (auto simp: yields_def unblock_and_throw_def elim!: andthen_InrE)

lemma yields_child_add:
  "yields (made_for a cl grace) (processx__child_add po p a) (\<lambda>failed s. \<not> failed \<longrightarrow> tracked a p cl grace s)"
  by (auto simp: yields_def processx__child_add_def on_world_def modify_def made_for_def tracked_def
      andthen_def split: prod.splits if_splits)

definition started :: "nat \<Rightarrow> int \<Rightarrow> bool \<Rightarrow> rat \<Rightarrow> 'w ps \<Rightarrow> bool" where
  "started a p cl grace s \<longleftrightarrow> (\<exists>h. handle_of s a = Some h \<and> pid h = p \<and> cleanup h = cl \<and> cleanup_grace h = grace \<and>
     ((p, a) \<in> set (child_list s) \<or> collected h))"

lemma yields_set_pid:
  "yields (tracked a p cl grace) (set_handle a (\<lambda>h. h\<lparr>pid := p\<rparr>)) (\<lambda>_. started a p cl grace)"
  by (auto simp: yields_def set_handle_def modify_def tracked_def started_def)

lemma yields_parent:
  "yields (made_for a cl grace) (exec_parent fuel eo a sp ends pty enc p) (\<lambda>_. started a p cl grace)"
proof -
  note made = yields_made and tr = yields_tracked
  have rest: "yields (tracked a p cl grace) (andthen (processx__unblock_sigchld fuel (proc eo)) (\<lambda>_.
     andthen (close_if_open (proc eo) (snd sp)) (\<lambda>_.
     andthen (exec_errorno fuel (proc eo) p (fst sp)) (\<lambda>errorno.
     andthen (close_if_open (proc eo) (fst sp)) (\<lambda>_.
     andthen (if length ends < 3 then throw e else close_unused (proc eo) (take 3 ends)) (\<lambda>_.
     andthen (processx__create_connections (proc eo) a enc) (\<lambda>made.
     if errorno = 0 then andthen (set_handle a (\<lambda>h. h\<lparr>pid := p\<rparr>)) (\<lambda>_. ret made) else throw (f errorno)))))))) (\<lambda>_. started a p cl grace)"
    for e f
    by (rule yields_andthen [OF tr [OF follow_masks(2)]], rule yields_andthen [OF tr [OF follow_close]],
        rule yields_andthen [OF tr [OF follow_errorno]], rule yields_andthen [OF tr [OF follow_close]],
        rule yields_andthen [OF yields_if [OF yields_throw tr [OF follow_close_unused]]],
        rule yields_andthen [OF tr [OF follow_create]], rule yields_if,
        rule yields_andthen [OF yields_set_pid yields_ret], assumption, rule yields_throw)
  have fail: "yields P (andthen (close_if_open (proc eo) fd1) (\<lambda>_. andthen (close_if_open (proc eo) fd2) (\<lambda>_.
      unblock_and_throw fuel (proc eo) e))) Q" for P :: "'a ps \<Rightarrow> bool" and fd1 fd2 e Q
    by (intro yields_andthen [where Q = "\<lambda>_ _. True"] yields_no_return) (simp_all add: yields_def)
  show ?thesis
    unfolding exec_parent_def Let_def
    by (rule yields_andthen [OF made [OF follow_on_world]],
        rule yields_andthen [OF made [OF follow_set_handle]], simp,
        rule yields_andthen [OF made [OF follow_exec_pty]],
        rule yields_andthen [OF yields_child_add])
      (rule yields_if, rule fail, rule yields_weaken [OF _ rest], simp)
qed

text \<open>The whole function.\<close>

definition follows2 :: "nat \<Rightarrow> 'w exec_state \<Rightarrow> 'w exec_state \<Rightarrow> bool" where
  "follows2 a x y \<longleftrightarrow> follows a (snd x) (snd y)"

interpretation exec_follow: state_relation "follows2 a" for a
  by unfold_locales (auto simp: follows2_def follow.R_refl intro: follows_trans)

lemma follow2_system: "obeys (follows a) f \<Longrightarrow> obeys (follows2 a) (on_system f)"
  by (auto simp: obeys_def on_system_def follows2_def split: prod.split) (metis snd_conv)

lemma follow2_sockets: "obeys (follows2 a) (on_sockets f)"
  by (auto simp: obeys_def on_sockets_def follows2_def split: prod.split intro: follows_same)

lemma follow_nonblock: "obeys (follows a) (nonblock_fd fuel po fd)"
  unfolding nonblock_fd_def by (intro follow_intros)

lemma follow_exec_pipes: "obeys (follows2 a) (exec_pipes fuel eo b c i outputs)"
proof (induction outputs arbitrary: i)
  case (Cons out outputs)
  have "obeys (follows2 a) (exec_pipe fuel eo b c i out)"
    by (cases out; simp add: exec_pipe_def exec_follow.obeys_ret)
      (intro conjI impI exec_follow.obeys_intros follow2_sockets follow2_system follow_set_handle follow_nonblock, simp_all)
  then show ?case
    unfolding exec_pipes.simps by (intro exec_follow.obeys_intros Cons.IH)
qed (simp add: exec_follow.obeys_ret)

lemma yields_made2:
  "obeys (follows2 a) f \<Longrightarrow> yields (\<lambda>x. made_for a cl grace (snd x)) f (\<lambda>_ x. made_for a cl grace (snd x))"
  by (rule yields_obeys [where R = "follows2 a"]) (auto simp: follows2_def intro: made_for_follows)

lemma yields_system: "yields P f Q \<Longrightarrow> yields (\<lambda>x. P (snd x)) (on_system f) (\<lambda>r x. Q r (snd x))"
  by (auto simp: yields_def on_system_def split: prod.splits)

lemma yields_make_handle:
  "yields (\<lambda>_. True) (processx__make_handle po a cl grace) (\<lambda>_. made_for a cl grace)"
  by (auto simp: yields_def processx__make_handle_def on_world_def modify_def made_for_def andthen_def
      split: prod.splits if_splits)

lemma yields_child: "yields P (exec_child n fuel eo conns ends cmd args fd pty env options tree) Q"
  unfolding exec_child_def
  by (intro yields_andthen [where Q = "\<lambda>_ _. True"] yields_trivial yields_throw)

lemma yields_forked:
  "yields (made_for a cl grace)
     (if p = 0 then exec_child n fuel eo conns ends cmd args sp1 main env options tree
      else exec_parent fuel eo a (sp0, sp1) ends main enc p)
     (\<lambda>_ s. \<exists>p. p \<noteq> 0 \<and> started a p cl grace s)"
  by (rule yields_if, rule yields_child, rule yields_post [OF yields_parent], blast)

lemma yields_fork_failed:
  "yields P (andthen (close_if_open po x) (\<lambda>_. andthen (close_if_open po y) (\<lambda>_.
     andthen m (\<lambda>_. unblock_and_throw fuel po e)))) Q"
  by (intro yields_andthen [where Q = "\<lambda>_ _. True"] yields_no_return yields_trivial)

lemma exec_started:
  "yields (\<lambda>_. True) (processx_exec n fuel eo a cmd args pty opts conns env cl grace wd enc tree sig)
     (\<lambda>_ x. \<exists>p. p \<noteq> 0 \<and> started a p cl grace (snd x))"
proof -
  have pty: "obeys (follows2 a) (if \<not> pty then ret None
      else andthen (on_system (on_world_op f)) (\<lambda>r. case r of Inl e \<Rightarrow> throw (e' e) | Inr p \<Rightarrow> ret (Some p)))"
    for f :: "('a, errno + 'c) operation" and e'
    by (intro exec_follow.obeys_intros follow2_system follow_intros)
  note made = yields_made2 and sys = yields_made [THEN yields_system]
  show ?thesis
    unfolding processx_exec_def Let_def on_system_join
    by (rule yields_andthen [OF yields_trivial], rule yields_sum, rule yields_throw, rule yields_prod,
        rule yields_andthen [OF yields_trivial], rule yields_andthen [OF yields_trivial],
        rule yields_andthen [OF yields_trivial], rule yields_andthen [OF yields_system [OF yields_make_handle]],
        rule yields_andthen [OF made [OF pty]], rule yields_andthen [OF sys [OF follow_set_handle]], simp,
        rule yields_andthen [OF made [OF follow_exec_pipes]], rule yields_system,
        rule yields_andthen [OF yields_made [OF follow_masks(1)]],
        rule yields_andthen [OF yields_made [OF follow_on_world]], rule yields_sum, rule yields_fork_failed,
        rule yields_forked)
qed

section \<open>Properties\<close>


text \<open>A system to start processes on: no process but the one with pid 77, end of file on the error pipe.\<close>

definition idle_child :: "table_world child_os" where
  "idle_child = \<lparr>cbase = refusing_os, os_setsid = \<lambda>w. w, os_set_pdeathsig = \<lambda>s w. (Inr (), w), os_unblock_signal = \<lambda>s w. w,
     os_set_ctty = \<lambda>fd w. (Inr (), w), os_set_winsize = \<lambda>fd r c w. (Inr (), w), os_dupfd = \<lambda>a m w. (Inl EBADF, w),
     os_chdir = \<lambda>d w. (Inr (), w), os_set_environ = \<lambda>e w. w, os_putenv = \<lambda>v w. (Inr (), w),
     os_execvp = \<lambda>c args w. (None, w)\<rparr>"

definition exec_table :: "(table_world, int) syscall \<Rightarrow> table_world exec_os" where
  "exec_table fork = \<lparr>
     proc = (table_os (\<lambda>_. False))\<lparr>base := (base (table_os (\<lambda>_. False)))\<lparr>os_read := \<lambda>fd n w. (Inr [], w)\<rparr>\<rparr>,
     kid_os = idle_child, os_fork = fork, os_create_time = \<lambda>p w. (None, w),
     os_posix_openpt = \<lambda>w. (Inl EINVAL, w), os_grantpt = \<lambda>fd w. (Inr (), w), os_unlockpt = \<lambda>fd w. (Inr (), w),
     os_ptsname = \<lambda>fd w. (Inr [], w)\<rparr>"

definition no_process :: "(int \<rightharpoonup> kid) \<Rightarrow> table_world ps" where
  "no_process k = \<lparr>handle_of = Map.empty, child_list = [], child_free_list = [], sigchld_blocked = False,
     sigchld_handler = Chld_default, old_sig_handler = Chld_default, notify_old = False, on_exits = [],
     world = \<lparr>kids = k, log = []\<rparr>\<rparr>"

lemmas exec_run = run_basic processx_exec_def exec_table_def no_process_def on_system_def on_sockets_def exec_pipe_def
  exec_parent_def exec_pty_def exec_errorno_def close_if_open_def processx__create_connections_def std_connection_def
  processx__child_add_def processx__make_handle_def processx__cloexec_fcntl_def switch_flag_def Let_def zero_handle_def




text \<open>C33: a start that fails before the child runs leaves a handle with pid 0 and descriptor 0. When a fork
  fails with \<open>EAGAIN\<close>, the error carries minus its number; and when that handle is finalized while
  R has another child, SIGTERM goes to the process group of R itself.\<close>

definition failed_fork :: "(int \<rightharpoonup> kid) \<Rightarrow> (r_error + unit made) \<times> table_world exec_state" where
  "failed_fork k = processx_exec 1 1 (exec_table (\<lambda>w. (Inl EAGAIN, w))) 5 ''sleep'' [] False (False, 0, 0)
     [Spec_null, Spec_null, Spec_null] None True (1 / 10) None '''' '''' 0 (False, no_process k)"


end
