(* ===== verification/Decimal.thy ===== *)
theory Decimal
  imports Prelude
begin

text \<open>
  Numbers in decimal, as the C library reads them and as programs write them: the part shared by the
  input of the supervisor (\<open>strtol\<close>) and the reading of /proc (\<open>sscanf\<close>).
\<close>

section \<open>Reading\<close>

definition is_space :: "char \<Rightarrow> bool" where
  "is_space c \<longleftrightarrow> of_char c \<in> {9, 10, 11, 12, 13, 32 :: nat}"

definition is_digit :: "char \<Rightarrow> bool" where
  "is_digit c \<longleftrightarrow> 48 \<le> (of_char c :: nat) \<and> (of_char c :: nat) \<le> 57"

fun digits_value :: "string \<Rightarrow> int \<Rightarrow> int" where
  "digits_value [] v = v"
| "digits_value (c # cs) v = (if is_digit c then digits_value cs (10 * v + int (of_char c - 48)) else v)"

section \<open>Writing\<close>

fun decimal :: "nat \<Rightarrow> string" where
  "decimal n = (if n < 10 then [char_of (48 + n)] else decimal (n div 10) @ [char_of (48 + n mod 10)])"

declare decimal.simps [simp del]

lemma digit_char: "d < 10 \<Longrightarrow> is_digit (char_of (48 + d)) \<and> (of_char (char_of (48 + d) :: char) :: nat) = 48 + d"
  by (simp add: is_digit_def)

lemma digits_value_decimal: "digits_value (decimal n @ rest) v = digits_value rest (v * 10 ^ length (decimal n) + int n)"
proof (induction n arbitrary: rest v rule: decimal.induct)
  case (1 n)
  show ?case
  proof (cases "n < 10")
    case True
    then show ?thesis by (simp add: decimal.simps [of n] digit_char mult.commute)
  next
    case False
    have d: "n mod 10 < 10" by simp
    have "int n = 10 * int (n div 10) + int (n mod 10)" by (metis div_mult_mod_eq mult.commute of_nat_add of_nat_mult of_nat_numeral)
    with False 1 [OF False] digit_char [OF d] show ?thesis
      by (simp add: decimal.simps [of n] algebra_simps)
  qed
qed

lemma decimal_first:
  obtains d :: nat and cs where "decimal n = char_of (48 + d) # cs" and "d < 10"
proof (induction n arbitrary: thesis rule: decimal.induct)
  case (1 n)
  show ?case
  proof (cases "n < 10")
    case True
    with 1(2) show ?thesis by (auto simp: decimal.simps [of n])
  next
    case False
    obtain d :: nat and cs where "decimal (n div 10) = char_of (48 + d) # cs" "d < 10" using 1(1) [OF False] by blast
    with 1(2) False show ?thesis by (auto simp: decimal.simps [of n])
  qed
qed

text \<open>The digits are all there is.\<close>

lemma decimal_digits: "c \<in> set (decimal n) \<Longrightarrow> is_digit c"
proof (induction n rule: decimal.induct)
  case (1 n)
  then show ?case by (cases "n < 10") (auto simp: decimal.simps [of n] digit_char)
qed

lemma dropWhile_decimal: "dropWhile is_digit (decimal n @ s) = dropWhile is_digit s"
  using decimal_digits by (intro dropWhile_append2) auto

lemma is_digit_char:
  assumes "is_digit c"
  shows "\<not> is_space c" and "c \<noteq> CHR ''-''" and "c \<noteq> CHR ''+''" and "c \<noteq> CHR 0x00" and "c \<noteq> CHR '')''"
proof -
  have "48 \<le> (of_char c :: nat)" "(of_char c :: nat) \<le> 57" using assms by (simp_all add: is_digit_def)
  then show "\<not> is_space c" by (auto simp: is_space_def)
  show "c \<noteq> CHR ''-''" "c \<noteq> CHR ''+''" "c \<noteq> CHR 0x00" "c \<noteq> CHR '')''" using assms by (auto simp: is_digit_def)
qed

end
