(* ===== verification/Supervisor.thy ===== *)
theory Supervisor
  imports Unix_Process_Props Decimal
begin

text \<open>
  The supervisor program (src/src/supervisor/supervisor.c and utils.c, its Unix branches): it reads
  pids to watch from its input, forgets the ones that ended, and kills the rest when it is told to,
  gets a signal or finds the process it works for gone. What it prints is not modelled.
\<close>

section \<open>State\<close>

text \<open>
  \<open>children\<close> is the part of the array that is in use, so \<open>n_children\<close> is its length.
  \<open>last_errno\<close> is \<open>errno\<close>, which no call resets.
\<close>

definition MAX_CHILDREN :: nat where "MAX_CHILDREN = 1024"
definition POLL_MS :: nat where "POLL_MS = 200"
definition INT_MAX :: int where "INT_MAX = 2 ^ 31 - 1"
definition INT_MIN :: int where "INT_MIN = - (2 ^ 31)"
definition LONG_MAX :: int where "LONG_MAX = 2 ^ 63 - 1"
definition LONG_MIN :: int where "LONG_MIN = - (2 ^ 63)"

record 'w sup =
  children :: "int list"
  sigint_received :: bool
  sigterm_received :: bool
  last_errno :: "errno option"
  sworld :: 'w

text \<open>
  The calls: \<open>kill\<close>, \<open>time\<close> in seconds, a pause with the signals that came since the last one,
  \<open>fgets\<close> (the next line with its newline, at most 1023 bytes, or nothing and perhaps an \<open>errno\<close>),
  and those of the start.
\<close>

record 'w sup_os =
  sv_kill :: "int \<Rightarrow> int \<Rightarrow> ('w, unit) syscall"
  sv_time :: "'w \<Rightarrow> int \<times> 'w"
  sv_sleep :: "nat \<Rightarrow> 'w \<Rightarrow> int list \<times> 'w"
  sv_fgets :: "'w \<Rightarrow> (errno option + string) \<times> 'w"
  sv_getppid :: "'w \<Rightarrow> int"
  sv_fopen :: "string \<Rightarrow> ('w, unit) syscall"
  sv_nonblock :: "('w, unit) syscall"
  sv_sigaction :: "int \<Rightarrow> ('w, unit) syscall"

definition on_sworld :: "('w \<Rightarrow> 'a \<times> 'w) \<Rightarrow> ('w sup, 'a) operation" where
  "on_sworld call = (\<lambda>s. case call (sworld s) of (x, w) \<Rightarrow> (Inr x, s\<lparr>sworld := w\<rparr>))"

text \<open>A call that sets \<open>errno\<close> when it fails.\<close>

definition sv_call :: "('w, 'a) syscall \<Rightarrow> ('w sup, errno + 'a) operation" where
  "sv_call call = (\<lambda>s. case call (sworld s) of
     (Inl e, w) \<Rightarrow> (Inr (Inl e), s\<lparr>sworld := w, last_errno := Some e\<rparr>)
   | (Inr x, w) \<Rightarrow> (Inr (Inr x), s\<lparr>sworld := w\<rparr>))"

section \<open>Arrays\<close>

definition remove_element :: "int list \<Rightarrow> nat \<Rightarrow> int list" where
  "remove_element ar idx = take (length ar - 1) (ar[idx := ar ! (length ar - 1)])"

fun array_contains :: "int list \<Rightarrow> int \<Rightarrow> bool" where
  "array_contains [] value = False"
| "array_contains (a # ar) value = (a = value \<or> array_contains ar value)"

section \<open>Numbers\<close>

text \<open>
  \<open>strtol\<close> with base 10: white space, a sign, digits; the value is cut to the range of \<open>long\<close>, and the
  flag tells whether it had to be (\<open>errno\<close> is set to \<open>ERANGE\<close> then, and left alone otherwise).
\<close>

definition strtol :: "string \<Rightarrow> int \<times> bool" where
  "strtol buf =
     (let s = dropWhile is_space buf;
          v = (case s of
                 [] \<Rightarrow> 0
               | c # cs \<Rightarrow> if c = CHR ''-'' then - digits_value cs 0
                         else if c = CHR ''+'' then digits_value cs 0
                         else digits_value s 0)
      in if v > LONG_MAX then (LONG_MAX, True) else if v < LONG_MIN then (LONG_MIN, True) else (v, False))"

definition extract_pid :: "string \<Rightarrow> ('w sup, int) operation" where
  "extract_pid buf =
     (let (p, range) = strtol buf
      in andthen (modify (\<lambda>s. if range then s\<lparr>last_errno := Some ERANGE\<rparr> else s)) (\<lambda>_.
         andthen (gets last_errno) (\<lambda>errno.
         if errno = Some ERANGE \<or> p > INT_MAX \<or> p < INT_MIN then ret 0 else ret p)))"

section \<open>Children\<close>

definition pid_is_running :: "'w sup_os \<Rightarrow> int \<Rightarrow> ('w sup, bool) operation" where
  "pid_is_running so p = andthen (sv_call (sv_kill so p 0)) (\<lambda>r. ret (r \<noteq> Inl ESRCH))"

text \<open>
  One pass over the children that drops the ones that ended. The element moved into the place of a
  dropped one is not looked at. \<open>k\<close> bounds the iterations: \<open>i\<close> grows and the array does not.
\<close>

fun check_children :: "'w sup_os \<Rightarrow> nat \<Rightarrow> nat \<Rightarrow> ('w sup, unit) operation" where
  "check_children so 0 i = ret ()"
| "check_children so (Suc k) i =
     andthen (gets children) (\<lambda>cs.
     if i < length cs
     then andthen (pid_is_running so (cs ! i)) (\<lambda>running.
          andthen (modify (\<lambda>s. if running then s else s\<lparr>children := remove_element (children s) i\<rparr>)) (\<lambda>_.
          check_children so k (Suc i)))
     else ret ())"

definition check_all :: "'w sup_os \<Rightarrow> ('w sup, unit) operation" where
  "check_all so = andthen (gets children) (\<lambda>cs. check_children so (length cs) 0)"

fun signal_all :: "'w sup_os \<Rightarrow> int \<Rightarrow> int list \<Rightarrow> ('w sup, unit) operation" where
  "signal_all so sig [] = ret ()"
| "signal_all so sig (c # cs) = andthen (sv_call (sv_kill so c sig)) (\<lambda>_. signal_all so sig cs)"

fun kill_running :: "'w sup_os \<Rightarrow> int list \<Rightarrow> ('w sup, unit) operation" where
  "kill_running so [] = ret ()"
| "kill_running so (c # cs) =
     andthen (pid_is_running so c) (\<lambda>running.
     andthen (if running then andthen (sv_call (sv_kill so c SIGKILL)) (\<lambda>_. ret ()) else ret ()) (\<lambda>_.
     kill_running so cs))"

definition sig_handler :: "int \<Rightarrow> 'w sup \<Rightarrow> 'w sup" where
  "sig_handler signum s =
     (if signum = SIGTERM then s\<lparr>sigterm_received := True\<rparr>
      else if signum = SIGINT then s\<lparr>sigint_received := True\<rparr> else s)"

text \<open>The handler runs for the signals that came since the last pause; only the main loop looks at its flags.\<close>

definition sleep_ms :: "'w sup_os \<Rightarrow> nat \<Rightarrow> ('w sup, unit) operation" where
  "sleep_ms so ms = andthen (on_sworld (sv_sleep so ms)) (\<lambda>sigs. modify (fold sig_handler sigs))"

text \<open>The value of the loop tells whether no child is left.\<close>

fun kill_wait :: "nat \<Rightarrow> 'w sup_os \<Rightarrow> int \<Rightarrow> ('w sup, bool) operation" where
  "kill_wait 0 so stop_time = throw Out_of_fuel"
| "kill_wait (Suc n) so stop_time =
     andthen (sleep_ms so POLL_MS) (\<lambda>_.
     andthen (check_all so) (\<lambda>_.
     andthen (gets children) (\<lambda>cs.
     if cs = [] then ret True
     else andthen (on_sworld (sv_time so)) (\<lambda>t. if t < stop_time then kill_wait n so stop_time else ret False))))"

definition kill_children :: "nat \<Rightarrow> 'w sup_os \<Rightarrow> ('w sup, unit) operation" where
  "kill_children n so =
     andthen (gets children) (\<lambda>cs.
     if cs = [] then ret ()
     else andthen (signal_all so SIGTERM cs) (\<lambda>_.
          andthen (on_sworld (sv_time so)) (\<lambda>t.
          andthen (kill_wait n so (t + 5)) (\<lambda>none_left.
          if none_left then ret ()
          else andthen (gets children) (\<lambda>cs. kill_running so cs)))))"

section \<open>The program\<close>

text \<open>One line of input: the value tells whether it was the command to kill.\<close>

definition handle_line :: "string \<Rightarrow> ('w sup, bool) operation" where
  "handle_line readbuf =
     (if take 4 readbuf = ''kill'' then ret True
      else andthen (extract_pid readbuf) (\<lambda>p.
           andthen (gets children) (\<lambda>cs.
           if p > 0
           then (if length cs = MAX_CHILDREN \<or> array_contains cs p then ret False
                 else andthen (modify (\<lambda>s. s\<lparr>children := cs @ [p]\<rparr>)) (\<lambda>_. ret False))
           else if p = INT_MIN then throw (Undefined_behaviour ''negating INT_MIN'')
           else if p < 0
           then (case find (\<lambda>i. cs ! i = - p) [0..<length cs] of
                   None \<Rightarrow> ret False
                 | Some i \<Rightarrow> andthen (modify (\<lambda>s. s\<lparr>children := remove_element cs i\<rparr>)) (\<lambda>_. ret False))
           else ret False)))"

fun read_lines :: "nat \<Rightarrow> 'w sup_os \<Rightarrow> ('w sup, bool) operation" where
  "read_lines 0 so = throw Out_of_fuel"
| "read_lines (Suc n) so =
     andthen (\<lambda>s. case sv_fgets so (sworld s) of
         (Inl e, w) \<Rightarrow> (Inr None, s\<lparr>sworld := w, last_errno := (if e = None then last_errno s else e)\<rparr>)
       | (Inr line, w) \<Rightarrow> (Inr (Some line), s\<lparr>sworld := w\<rparr>)) (\<lambda>res.
     case res of
       None \<Rightarrow> ret False
     | Some line \<Rightarrow> andthen (handle_line line) (\<lambda>kill. if kill then ret True else read_lines n so))"

text \<open>The loop of the main program; it ends by leaving the program, with the exit status 0.\<close>

fun poll_loop :: "nat \<Rightarrow> nat \<Rightarrow> 'w sup_os \<Rightarrow> int \<Rightarrow> ('w sup, int) operation" where
  "poll_loop 0 fuel so parent_pid = throw Out_of_fuel"
| "poll_loop (Suc n) fuel so parent_pid =
     andthen (gets (\<lambda>s. sigint_received s \<or> sigterm_received s)) (\<lambda>signalled.
     if signalled then andthen (kill_children fuel so) (\<lambda>_. ret 0)
     else andthen (read_lines fuel so) (\<lambda>kill.
          if kill then andthen (kill_children fuel so) (\<lambda>_. ret 0)
          else andthen (check_all so) (\<lambda>_.
               andthen (pid_is_running so parent_pid) (\<lambda>running.
               if \<not> running then andthen (kill_children fuel so) (\<lambda>_. ret 0)
               else andthen (sleep_ms so POLL_MS) (\<lambda>_. poll_loop n fuel so parent_pid)))))"

text \<open>The arguments: the parent's pid (0: none) and the name of the input; \<open>None\<close> is \<open>exit(1)\<close>.\<close>

fun parse_args :: "string list \<Rightarrow> int \<times> string option \<Rightarrow> ('w sup, (int \<times> string option) option) operation" where
  "parse_args [] (parent, pipe_name) = ret (Some (parent, pipe_name))"
| "parse_args (a # args) (parent, pipe_name) =
     (if a = ''-v'' then parse_args args (parent, pipe_name)
      else if a = ''-p'' then (case args of
          [] \<Rightarrow> ret None
        | p # args' \<Rightarrow> andthen (extract_pid p) (\<lambda>n. if n = 0 then ret None else parse_args args' (n, pipe_name)))
      else if a = ''-i'' then (case args of [] \<Rightarrow> ret None | i # args' \<Rightarrow> parse_args args' (parent, Some i))
      else ret None)"

definition supervisor_main :: "nat \<Rightarrow> nat \<Rightarrow> 'w sup_os \<Rightarrow> string list \<Rightarrow> ('w sup, int) operation" where
  "supervisor_main n fuel so args =
     andthen (parse_args args (0, None)) (\<lambda>r. case r of
       None \<Rightarrow> ret 1
     | Some (parent_arg, pipe_name) \<Rightarrow>
         andthen (gets (\<lambda>s. sv_getppid so (sworld s))) (\<lambda>detected.
         andthen (case pipe_name of None \<Rightarrow> ret (Inr ()) | Some f \<Rightarrow> sv_call (sv_fopen so f)) (\<lambda>opened.
         if opened \<noteq> Inr () then ret 1
         else andthen (sv_call (sv_nonblock so)) (\<lambda>r.
              if r \<noteq> Inr () then ret 1
              else andthen (sv_call (sv_sigaction so SIGINT)) (\<lambda>r1.
                   if r1 \<noteq> Inr () then ret 1
                   else andthen (sv_call (sv_sigaction so SIGTERM)) (\<lambda>r2.
                        if r2 \<noteq> Inr () then ret 1
                        else poll_loop n fuel so (if parent_arg \<noteq> 0 then parent_arg else detected)))))))"

end
