(* ===== verification/Supervisor_Props.thy ===== *)
theory Supervisor_Props
  imports Supervisor "HOL-Library.Multiset"
begin

text \<open>
  The supervisor: the array of children stays a set of valid pids within its bounds, killing
  reaches every child, and ends; a pid survives the way through the input, unless a number out of
  range came before it.
\<close>

section \<open>Arrays\<close>

lemma remove_element_split: "i < length ar \<Longrightarrow> remove_element ar i = (butlast ar)[i := last ar]"
  by (cases ar rule: rev_cases) (auto simp: remove_element_def list_update_append list_update_beyond split: nat.splits)

lemma mset_remove_element:
  assumes "i < length ar"
  shows "mset (remove_element ar i) = mset (remove1 (ar ! i) ar)"
proof (cases ar rule: rev_cases)
  case (snoc xs x)
  show ?thesis
  proof (cases "i < length xs")
    case True
    with snoc assms show ?thesis by (simp add: remove_element_split mset_update nth_append)
  next
    case False
    with snoc assms have "i = length xs" by simp
    with snoc show ?thesis by (simp add: remove_element_split list_update_beyond)
  qed
qed (use assms in simp)

lemma remove_element_distinct:
  assumes "distinct ar" and "i < length ar"
  shows "distinct (remove_element ar i)" and "set (remove_element ar i) = set ar - {ar ! i}"
    and "length (remove_element ar i) = length ar - 1"
  using mset_eq_imp_distinct_iff [OF mset_remove_element [OF assms(2)]]
    mset_eq_setD [OF mset_remove_element [OF assms(2)]] assms(1)
  by (simp_all add: distinct_remove1 set_remove1_eq remove_element_def)

lemma array_contains_set: "array_contains ar v \<longleftrightarrow> v \<in> set ar"
  by (induction ar) auto

section \<open>The array of children\<close>

definition valid_children :: "'w sup \<Rightarrow> bool" where
  "valid_children s \<longleftrightarrow> distinct (children s) \<and> length (children s) \<le> MAX_CHILDREN \<and>
     (\<forall>c \<in> set (children s). 0 < c \<and> c \<le> INT_MAX)"

definition keeps_valid :: "'w sup \<Rightarrow> 'w sup \<Rightarrow> bool" where
  "keeps_valid s s' \<longleftrightarrow> (valid_children s \<longrightarrow> valid_children s')"

interpretation validity: state_relation keeps_valid
  by unfold_locales (auto simp: keeps_valid_def)

lemma valid_same: "children s' = children s \<Longrightarrow> keeps_valid s s'"
  by (simp add: keeps_valid_def valid_children_def)

lemma valid_removed: "i < length (children s) \<Longrightarrow> keeps_valid s (s\<lparr>children := remove_element (children s) i\<rparr>)"
  by (auto simp: keeps_valid_def valid_children_def remove_element_distinct)

lemma valid_gets: "obeys keeps_valid (gets f)"
  by (rule obeys_gets) (rule validity.R_refl)

lemma valid_world: "obeys keeps_valid (on_sworld f)" "obeys keeps_valid (sv_call g)"
  by (auto simp: obeys_def on_sworld_def sv_call_def split: prod.split sum.split intro: valid_same)

lemma children_fold_handler: "children (fold sig_handler sigs s) = children s"
  by (induction sigs arbitrary: s) (auto simp: sig_handler_def)

lemma valid_sleep: "obeys keeps_valid (sleep_ms so ms)"
  unfolding sleep_ms_def
  by (intro validity.obeys_intros valid_world obeys_modify valid_same) (rule children_fold_handler)

lemmas valid_intros = validity.obeys_intros valid_gets valid_world valid_sleep

lemma valid_running: "obeys keeps_valid (pid_is_running so p)"
  unfolding pid_is_running_def by (intro valid_intros)

lemma pid_is_running_children: "children (snd (pid_is_running so p s)) = children s"
  by (auto simp: pid_is_running_def sv_call_def andthen_def split: prod.split sum.split)

lemma pid_is_running_returns: "\<exists>r t. pid_is_running so p s = (Inr r, t)"
proof -
  obtain e w where "sv_kill so p 0 (sworld s) = (e, w)" by (meson surj_pair)
  then show ?thesis by (cases e) (auto simp: pid_is_running_def sv_call_def andthen_def)
qed

lemma valid_check: "obeys keeps_valid (check_children so k i)"
proof (induction k arbitrary: i)
  case (Suc k)
  have "keeps_valid s (snd (check_children so (Suc k) i s))" for s :: "'a sup"
  proof (cases "i < length (children s)")
    case True
    obtain r t where run: "pid_is_running so (children s ! i) s = (Inr r, t)"
      using pid_is_running_returns by blast
    let ?t = "if r then t else t\<lparr>children := remove_element (children t) i\<rparr>"
    have t: "children t = children s" using pid_is_running_children [of so "children s ! i" s] run by simp
    have "keeps_valid s t" using t by (rule valid_same)
    moreover have "keeps_valid t ?t" using True t valid_removed [of i t] by (simp add: validity.R_refl)
    moreover have "keeps_valid ?t (snd (check_children so k (Suc i) ?t))" using Suc.IH by (rule obeysD)
    ultimately have "keeps_valid s (snd (check_children so k (Suc i) ?t))" by (meson validity.R_trans)
    with True run show ?thesis by (simp add: gets_def modify_def)
  qed (simp add: gets_def validity.R_refl)
  then show ?case by (simp add: obeys_def)
qed (simp add: validity.obeys_ret)

lemma valid_check_all: "obeys keeps_valid (check_all so)"
  unfolding check_all_def by (intro valid_intros valid_check)

lemma valid_kill_wait: "obeys keeps_valid (kill_wait n so t)"
proof (induction n)
  case (Suc n)
  then show ?case unfolding kill_wait.simps by (intro valid_intros valid_check_all)
qed (simp only: kill_wait.simps validity.obeys_throw)

lemma valid_signal_all: "obeys keeps_valid (signal_all so sig cs)"
  by (induction cs) (simp_all only: signal_all.simps, (intro valid_intros)+)

lemma valid_kill_running: "obeys keeps_valid (kill_running so cs)"
  by (induction cs) (simp_all only: kill_running.simps, (intro valid_intros valid_running)+)

lemma valid_kill_children: "obeys keeps_valid (kill_children n so)"
  unfolding kill_children_def by (intro valid_intros valid_kill_wait valid_signal_all valid_kill_running)

lemma children_call: "children (snd (sv_call f s)) = children s" "children (snd (on_sworld g s)) = children s"
  by (auto simp: sv_call_def on_sworld_def split: prod.split sum.split)

lemma strtol_range: "strtol buf = (p, r) \<Longrightarrow> LONG_MIN \<le> p \<and> p \<le> LONG_MAX"
  by (auto simp: strtol_def Let_def LONG_MIN_def LONG_MAX_def split: if_splits)

lemma extract_pid_range:
  assumes "extract_pid buf s = (r, s')"
  shows "children s' = children s \<and> (\<exists>p. r = Inr p \<and> INT_MIN \<le> p \<and> p \<le> INT_MAX)"
  using assms
  by (auto simp: extract_pid_def Let_def modify_def gets_def INT_MIN_def INT_MAX_def andthen_def split: prod.splits if_splits)

lemma valid_handle_line: "obeys keeps_valid (handle_line buf)"
proof (cases "take 4 buf = ''kill''")
  case False
  have "keeps_valid s (snd (handle_line buf s))" for s :: "'a sup"
  proof -
    obtain r t where run: "extract_pid buf s = (r, t)" by (meson surj_pair)
    from extract_pid_range [OF run] obtain p where p: "r = Inr p" "INT_MIN \<le> p" "p \<le> INT_MAX"
      and t: "children t = children s" by auto
    have st: "keeps_valid s t" using t by (rule valid_same)
    consider (add) "0 < p" "length (children t) \<noteq> MAX_CHILDREN" "\<not> array_contains (children t) p"
      | (none) "0 < p" "length (children t) = MAX_CHILDREN \<or> array_contains (children t) p" | (neg) "p \<le> 0" by linarith
    then show ?thesis
    proof cases
      case add
      then have "keeps_valid t (t\<lparr>children := children t @ [p]\<rparr>)"
        using p by (auto simp: keeps_valid_def valid_children_def array_contains_set)
      with st have "keeps_valid s (t\<lparr>children := children t @ [p]\<rparr>)" by (rule validity.R_trans)
      with add run p False show ?thesis by (simp add: handle_line_def gets_def modify_def)
    next
      case none
      with st run p False show ?thesis by (auto simp: handle_line_def gets_def)
    next
      case neg
      have "keeps_valid t (t\<lparr>children := remove_element (children t) i\<rparr>)"
        if "find (\<lambda>i. children t ! i = - p) [0..<length (children t)] = Some i" for i
        using that by (intro valid_removed) (auto simp: find_Some_iff)
      with st have "keeps_valid s (t\<lparr>children := remove_element (children t) i\<rparr>)"
        if "find (\<lambda>i. children t ! i = - p) [0..<length (children t)] = Some i" for i
        using that validity.R_trans by blast
      with neg st run p False show ?thesis
        by (auto simp: handle_line_def gets_def modify_def split: option.split)
    qed
  qed
  then show ?thesis by (simp add: obeys_def)
qed (simp add: handle_line_def validity.obeys_ret)

lemma valid_read_lines: "obeys keeps_valid (read_lines n so)"
proof (induction n)
  case (Suc n)
  have "obeys keeps_valid (\<lambda>s. case sv_fgets so (sworld s) of
         (Inl e, w) \<Rightarrow> (Inr None, s\<lparr>sworld := w, last_errno := (if e = None then last_errno s else e)\<rparr>)
       | (Inr line, w) \<Rightarrow> (Inr (Some line), s\<lparr>sworld := w\<rparr>))"
    by (auto simp: obeys_def split: prod.split sum.split intro: valid_same)
  then show ?case unfolding read_lines.simps by (intro valid_intros valid_handle_line Suc.IH)
qed (simp only: read_lines.simps validity.obeys_throw)

lemma valid_poll_loop: "obeys keeps_valid (poll_loop n fuel so parent)"
proof (induction n)
  case (Suc n)
  then show ?case
    unfolding poll_loop.simps
    by (intro valid_intros valid_kill_children valid_read_lines valid_check_all valid_running)
qed (simp only: poll_loop.simps validity.obeys_throw)

lemma valid_parse_args: "obeys keeps_valid (parse_args args acc)"
proof (induction args acc rule: parse_args.induct)
  case (2 a args parent pipe_name)
  have pid: "obeys keeps_valid (extract_pid p)" for p :: string
    unfolding obeys_def by (metis extract_pid_range prod.collapse valid_same)
  show ?case
    unfolding parse_args.simps using 2
    by (auto simp: validity.obeys_ret split: list.split intro!: validity.obeys_andthen validity.obeys_if pid)
qed (simp only: parse_args.simps validity.obeys_ret)

text \<open>C4: whatever lines, signals and results of system calls the supervisor gets, its array of children
  never holds a pid twice, holds only positive numbers that fit an \<open>int\<close>, and never grows beyond its
  1024 places.\<close>

theorem supervisor_children_valid:
  assumes "children s = []"
  shows "distinct (children (snd (supervisor_main n fuel so args s))) \<and>
    length (children (snd (supervisor_main n fuel so args s))) \<le> MAX_CHILDREN \<and>
    (\<forall>c \<in> set (children (snd (supervisor_main n fuel so args s))). 0 < c \<and> c \<le> INT_MAX)"
proof -
  have "obeys keeps_valid (supervisor_main n fuel so args)"
    unfolding supervisor_main_def by (intro valid_intros valid_parse_args valid_poll_loop)
  moreover have "valid_children s" using assms by (simp add: valid_children_def)
  ultimately have "valid_children (snd (supervisor_main n fuel so args s))"
    unfolding obeys_def keeps_valid_def by blast
  then show ?thesis by (simp add: valid_children_def)
qed

text \<open>A supervisor whose input are the lines of a list, and whose children never end.\<close>

definition input_os :: "string list sup_os" where
  "input_os = \<lparr>sv_kill = \<lambda>c sig w. (Inr (), w), sv_time = \<lambda>w. (0, w), sv_sleep = \<lambda>ms w. ([], w),
     sv_fgets = \<lambda>w. (case w of [] \<Rightarrow> (Inl (Some EAGAIN), []) | l # ls \<Rightarrow> (Inr l, ls)),
     sv_getppid = \<lambda>w. 1, sv_fopen = \<lambda>f w. (Inr (), w), sv_nonblock = \<lambda>w. (Inr (), w),
     sv_sigaction = \<lambda>sig w. (Inr (), w)\<rparr>"

definition watching :: "int list \<Rightarrow> string list \<Rightarrow> string list sup" where
  "watching cs input = \<lparr>children = cs, sigint_received = False, sigterm_received = False, last_errno = None, sworld = input\<rparr>"

theorem supervisor_children_valid_witness:
  "length (children (snd (supervisor_main 1 5 input_os [''-p'', ''1''] (watching [] [''7\<newline>'', ''7\<newline>''])))) \<le> MAX_CHILDREN"
  using supervisor_children_valid [of "watching [] [''7\<newline>'', ''7\<newline>'']" 1 5 input_os "[''-p'', ''1'']"]
  by (simp add: watching_def)

section \<open>Killing\<close>

text \<open>
  \<open>sent\<close> are the signals sent so far, \<open>gone\<close> the pids that were found not to exist; both only grow.
\<close>

definition kills_logged :: "'w sup_os \<Rightarrow> ('w \<Rightarrow> (int \<times> int) set) \<Rightarrow> ('w \<Rightarrow> int set) \<Rightarrow> bool" where
  "kills_logged so sent gone \<longleftrightarrow>
     (\<forall>c sig w r w'. sv_kill so c sig w = (r, w') \<longrightarrow> sent w \<subseteq> sent w' \<and> gone w \<subseteq> gone w' \<and> (c, sig) \<in> sent w' \<and>
        (r = Inl ESRCH \<longrightarrow> c \<in> gone w')) \<and>
     (\<forall>w. sent w \<subseteq> sent (snd (sv_time so w)) \<and> gone w \<subseteq> gone (snd (sv_time so w))) \<and>
     (\<forall>ms w. sent w \<subseteq> sent (snd (sv_sleep so ms w)) \<and> gone w \<subseteq> gone (snd (sv_sleep so ms w)))"

lemma kills_loggedD:
  assumes "kills_logged so sent gone" and "sv_kill so c sig w = (r, w')"
  shows "sent w \<subseteq> sent w'" and "gone w \<subseteq> gone w'" and "(c, sig) \<in> sent w'" and "r = Inl ESRCH \<Longrightarrow> c \<in> gone w'"
  using assms unfolding kills_logged_def by blast+

text \<open>\<open>accounted\<close>: each of the children \<open>C\<close> got SIGTERM and is still watched or gone.\<close>

definition accounted :: "('w \<Rightarrow> (int \<times> int) set) \<Rightarrow> ('w \<Rightarrow> int set) \<Rightarrow> int set \<Rightarrow> 'w sup \<Rightarrow> bool" where
  "accounted sent gone C s \<longleftrightarrow> (\<forall>c \<in> C. (c, SIGTERM) \<in> sent (sworld s) \<and> (c \<in> set (children s) \<or> c \<in> gone (sworld s)))"

definition grows :: "('w \<Rightarrow> (int \<times> int) set) \<Rightarrow> ('w \<Rightarrow> int set) \<Rightarrow> 'w sup \<Rightarrow> 'w sup \<Rightarrow> bool" where
  "grows sent gone s s' \<longleftrightarrow> sent (sworld s) \<subseteq> sent (sworld s') \<and> gone (sworld s) \<subseteq> gone (sworld s') \<and>
     children s' = children s"

interpretation growth: state_relation "grows sent gone" for sent gone
  by unfold_locales (auto simp: grows_def)

lemma accounted_grows: "grows sent gone s s' \<Longrightarrow> preserves (accounted sent gone C) s s'"
  by (auto simp: grows_def preserves_def accounted_def)

lemma grows_basic:
  assumes "kills_logged so sent gone"
  shows "obeys (grows sent gone) (sv_call (sv_kill so c sig))" and "obeys (grows sent gone) (on_sworld (sv_time so))"
    and "obeys (grows sent gone) (sleep_ms so ms)" and "obeys (grows sent gone) (pid_is_running so c)"
proof -
  have time: "\<forall>w. sent w \<subseteq> sent (snd (sv_time so w)) \<and> gone w \<subseteq> gone (snd (sv_time so w))"
    and sleep: "\<forall>ms w. sent w \<subseteq> sent (snd (sv_sleep so ms w)) \<and> gone w \<subseteq> gone (snd (sv_sleep so ms w))"
    using assms unfolding kills_logged_def by blast+
  show kill: "obeys (grows sent gone) (sv_call (sv_kill so c sig))" for c sig
    using kills_loggedD [OF assms] by (auto simp: obeys_def sv_call_def grows_def split: prod.split sum.split)
  show "obeys (grows sent gone) (on_sworld (sv_time so))"
    using time by (auto simp: obeys_def on_sworld_def grows_def split: prod.split) (metis in_mono snd_conv)+
  have world: "sworld (fold sig_handler sigs s) = sworld s" for sigs and s :: "'a sup"
    by (induction sigs arbitrary: s) (auto simp: sig_handler_def)
  have "obeys (grows sent gone) (on_sworld (sv_sleep so ms))"
    using sleep by (auto simp: obeys_def on_sworld_def grows_def split: prod.split) (metis in_mono snd_conv)+
  then show "obeys (grows sent gone) (sleep_ms so ms)"
    unfolding sleep_ms_def
    by (intro growth.obeys_andthen obeys_modify) (auto simp: grows_def world children_fold_handler)
  show "obeys (grows sent gone) (pid_is_running so c)"
    unfolding pid_is_running_def by (intro growth.obeys_intros kill)
qed

lemma pid_is_running_gone:
  assumes "kills_logged so sent gone" and "pid_is_running so c s = (Inr False, t)"
  shows "c \<in> gone (sworld t)"
  using assms(2) kills_loggedD(4) [OF assms(1)]
  by (auto simp: pid_is_running_def sv_call_def elim!: andthen_InrE split: prod.splits sum.splits)

lemma accounted_check:
  assumes law: "kills_logged so sent gone"
  shows "obeys (preserves (accounted sent gone C)) (check_children so k i)"
proof (induction k arbitrary: i)
  case (Suc k)
  have "preserves (accounted sent gone C) s (snd (check_children so (Suc k) i s))" for s :: "'a sup"
  proof (cases "i < length (children s)")
    case True
    let ?P = "preserves (accounted sent gone C)"
    obtain r t where run: "pid_is_running so (children s ! i) s = (Inr r, t)"
      using pid_is_running_returns by blast
    let ?t = "if r then t else t\<lparr>children := remove_element (children t) i\<rparr>"
    have g: "grows sent gone s t" using obeysD [OF grows_basic(4) [OF law, of "children s ! i"], of s] run by simp
    then have t: "children t = children s" by (simp add: grows_def)
    have step: "?P t ?t"
    proof (cases r)
      case False
      then have "children s ! i \<in> gone (sworld t)" using pid_is_running_gone [OF law] run by simp
      moreover have "set (remove_element (children t) i) = set (remove1 (children s ! i) (children s))"
        using mset_eq_setD [OF mset_remove_element [OF True]] t by simp
      ultimately have "c \<in> set (remove_element (children t) i) \<or> c \<in> gone (sworld t)"
        if "c \<in> set (children t)" for c
        using that t by (cases "c = children s ! i") (auto simp: in_set_remove1)
      then show ?thesis using False by (auto simp: preserves_def accounted_def)
    qed (simp add: preserved.R_refl)
    have "?P ?t (snd (check_children so k (Suc i) ?t))" using Suc.IH by (rule obeysD)
    from preserved.R_trans [OF accounted_grows [OF g] preserved.R_trans [OF step this]]
    have "?P s (snd (check_children so k (Suc i) ?t))" .
    with True run show ?thesis by (simp add: gets_def modify_def)
  qed (simp add: gets_def preserved.R_refl)
  then show ?case by (simp add: obeys_def)
qed (simp add: preserved.obeys_ret)

lemma accounted_obeys: "obeys (grows sent gone) f \<Longrightarrow> obeys (preserves (accounted sent gone C)) f"
  by (auto simp: obeys_def intro: accounted_grows)

lemmas accounted_basic = grows_basic [THEN accounted_obeys]

lemma accounted_gets: "obeys (preserves P) (gets f)"
  by (rule obeys_gets) (rule preserved.R_refl)

lemma accounted_kill_wait:
  assumes law: "kills_logged so sent gone"
  shows "obeys (preserves (accounted sent gone C)) (kill_wait n so t)"
proof (induction n)
  case (Suc n)
  then show ?case
    unfolding kill_wait.simps check_all_def
    by (intro preserved.obeys_intros accounted_basic [OF law] accounted_check [OF law] accounted_gets)
qed (simp only: kill_wait.simps preserved.obeys_throw)

lemma signal_all_sent:
  assumes law: "kills_logged so sent gone" and "signal_all so sig cs s = (Inr u, s')"
  shows "grows sent gone s s' \<and> (\<forall>c \<in> set cs. (c, sig) \<in> sent (sworld s'))"
  using assms(2)
proof (induction cs arbitrary: s)
  case (Cons c cs)
  from Cons.prems obtain r t where k: "sv_call (sv_kill so c sig) s = (Inr r, t)" and rest: "signal_all so sig cs t = (Inr u, s')"
    by (auto elim!: andthen_InrE)
  have "(c, sig) \<in> sent (sworld t)"
    using k kills_loggedD(3) [OF law] by (auto simp: sv_call_def split: prod.splits sum.splits)
  moreover have "grows sent gone s t" using obeysD [OF grows_basic(1) [OF law, of c sig], of s] k by simp
  ultimately show ?case using Cons.IH [OF rest] by (auto simp: grows_def)
qed (simp add: growth.R_refl)

lemma kill_running_reaches:
  assumes law: "kills_logged so sent gone" and "kill_running so cs s = (Inr u, s')"
  shows "grows sent gone s s' \<and> (\<forall>c \<in> set cs. c \<in> gone (sworld s') \<or> (c, SIGKILL) \<in> sent (sworld s'))"
  using assms(2)
proof (induction cs arbitrary: s)
  case (Cons c cs)
  from Cons.prems obtain r t v x where p: "pid_is_running so c s = (Inr r, t)"
    and k: "(if r then andthen (sv_call (sv_kill so c SIGKILL)) (\<lambda>_. ret ()) else ret ()) t = (Inr x, v)"
    and rest: "kill_running so cs v = (Inr u, s')"
    by (auto elim!: andthen_InrE)
  have st: "grows sent gone s t" using obeysD [OF grows_basic(4) [OF law, of c], of s] p by simp
  have "grows sent gone t v \<and> (c \<in> gone (sworld v) \<or> (c, SIGKILL) \<in> sent (sworld v))"
  proof (cases r)
    case True
    with k obtain q where "sv_call (sv_kill so c SIGKILL) t = (Inr q, v)" by (auto elim!: andthen_InrE)
    with obeysD [OF grows_basic(1) [OF law, of c SIGKILL], of t] kills_loggedD(3) [OF law] show ?thesis
      by (auto simp: sv_call_def split: prod.splits sum.splits)
  next
    case False
    with k p pid_is_running_gone [OF law] show ?thesis by (auto simp: growth.R_refl)
  qed
  with st Cons.IH [OF rest] show ?case by (auto simp: grows_def)
qed (simp add: growth.R_refl)

lemma kill_wait_value: "kill_wait n so t s = (Inr b, s') \<Longrightarrow> b \<Longrightarrow> children s' = []"
proof (induction n arbitrary: s)
  case (Suc n)
  then show ?case by (auto simp: gets_def elim!: andthen_InrE split: if_splits)
qed simp

text \<open>C5: when \<open>kill_children\<close> returns, each child that was watched got SIGTERM, and was found to be gone
  or got SIGKILL: none escapes, although a pass over the array skips the child that is moved into
  the place of one that ended.\<close>

theorem kill_children_reaches_all:
  assumes law: "kills_logged so sent gone" and "kill_children n so s = (Inr u, s')" and "c \<in> set (children s)"
  shows "(c, SIGTERM) \<in> sent (sworld s') \<and> (c \<in> gone (sworld s') \<or> (c, SIGKILL) \<in> sent (sworld s'))"
proof -
  let ?C = "set (children s)"
  from assms(2,3) obtain t v x b y where 1: "signal_all so SIGTERM (children s) s = (Inr (), t)"
    and 2: "on_sworld (sv_time so) t = (Inr x, v)" and 3: "kill_wait n so (x + 5) v = (Inr b, y)"
    and 4: "(if b then ret () else andthen (gets children) (\<lambda>cs. kill_running so cs)) y = (Inr u, s')"
    by (auto simp: kill_children_def gets_def elim!: andthen_InrE split: if_splits)
  note signal_all_sent [OF law 1]
  then have "accounted sent gone ?C t" by (auto simp: grows_def accounted_def)
  then have "accounted sent gone ?C v"
    using obeysD [OF accounted_basic(2) [OF law, of ?C], of t] 2 by (simp add: preserves_def)
  then have y: "accounted sent gone ?C y"
    using obeysD [OF accounted_kill_wait [OF law, of ?C n "x + 5"], of v] 3 by (simp add: preserves_def)
  show ?thesis
  proof (cases b)
    case True
    with kill_wait_value [OF 3] y assms(3) 4 show ?thesis by (auto simp: accounted_def)
  next
    case False
    with 4 have "kill_running so (children y) y = (Inr u, s')" by (simp add: gets_def)
    from kill_running_reaches [OF law this] y assms(3) show ?thesis by (auto simp: accounted_def grows_def)
  qed
qed

section \<open>Killing ends\<close>

text \<open>\<open>clock\<close> is the time in milliseconds: \<open>time\<close> tells its seconds, a pause takes at least its length.\<close>

definition ticks :: "'w sup_os \<Rightarrow> ('w \<Rightarrow> int) \<Rightarrow> bool" where
  "ticks so clock \<longleftrightarrow>
     (\<forall>w t w'. sv_time so w = (t, w') \<longrightarrow> t \<le> clock w' div 1000 \<and> clock w div 1000 \<le> t \<and> clock w \<le> clock w') \<and>
     (\<forall>ms w. clock w + int ms \<le> clock (snd (sv_sleep so ms w))) \<and>
     (\<forall>c sig w. clock w \<le> clock (snd (sv_kill so c sig w)))"

definition later :: "('w \<Rightarrow> int) \<Rightarrow> 'w sup \<Rightarrow> 'w sup \<Rightarrow> bool" where
  "later clock s s' \<longleftrightarrow> clock (sworld s) \<le> clock (sworld s')"

interpretation later_than: state_relation "later clock" for clock
  by unfold_locales (auto simp: later_def)

lemma ticks_later:
  assumes "ticks so clock"
  shows "obeys (later clock) (sv_call (sv_kill so c sig))"
    and "obeys (later clock) (check_children so k i)"
proof -
  have kill: "obeys (later clock) (sv_call (sv_kill so c sig))" for c sig
    using assms unfolding ticks_def obeys_def later_def sv_call_def
    by (auto split: prod.split sum.split) (metis snd_conv)+
  then show "obeys (later clock) (sv_call (sv_kill so c sig))" .
  show "obeys (later clock) (check_children so k i)"
  proof (induction k arbitrary: i)
    case (Suc k)
    then show ?case
      unfolding check_children.simps pid_is_running_def
      by (intro later_than.obeys_intros kill obeys_gets obeys_modify) (assumption | simp add: later_def)+
  qed (simp only: check_children.simps later_than.obeys_ret)
qed

lemma returns_basic: "returns (gets f)" "returns (modify g)" "returns (on_sworld h)" "returns (sv_call k)"
proof -
  show "returns (sv_call k)"
    unfolding returns_def sv_call_def by (auto split: prod.split sum.split)
  show "returns (on_sworld h)"
    unfolding returns_def on_sworld_def by (auto split: prod.split)
qed (simp_all add: returns_def gets_def modify_def)

lemmas returns_intros = returns_ret returns_andthen returns_if returns_basic

lemma returns_check: "returns (check_children so k i)"
proof (induction k arbitrary: i)
  case (Suc k)
  then show ?case unfolding check_children.simps pid_is_running_def by (intro returns_intros)
qed (simp only: check_children.simps returns_ret)

lemma returns_kill_running: "returns (kill_running so cs)"
  by (induction cs) (simp_all only: kill_running.simps pid_is_running_def, (intro returns_intros)+)

lemma returns_signal_all: "returns (signal_all so sig cs)"
  by (induction cs) (simp_all only: signal_all.simps, (intro returns_intros)+)

text \<open>One round: it returns, or the clock has moved on by 200 milliseconds and the stop time is not reached.\<close>

lemma kill_wait_step:
  assumes law: "ticks so clock"
    and "\<And>t. clock (sworld s) + 200 \<le> clock (sworld t) \<Longrightarrow> clock (sworld s) + 200 < 1000 * stop \<Longrightarrow>
      \<exists>b s'. kill_wait n so stop t = (Inr b, s')"
  shows "\<exists>b s'. kill_wait (Suc n) so stop s = (Inr b, s')"
proof -
  have sleep: "clock w + int ms \<le> clock (snd (sv_sleep so ms w))" for ms w
    using law unfolding ticks_def by blast
  have time: "t \<le> clock w' div 1000 \<and> clock w div 1000 \<le> t \<and> clock w \<le> clock w'" if "sv_time so w = (t, w')" for w t w'
    using law that unfolding ticks_def by blast
  have world: "sworld (fold sig_handler sigs s) = sworld s" for sigs and s :: "'a sup"
    by (induction sigs arbitrary: s) (auto simp: sig_handler_def)
  obtain sigs w where zz: "sv_sleep so POLL_MS (sworld s) = (sigs, w)" by (meson surj_pair)
  define s1 where "s1 = fold sig_handler sigs (s\<lparr>sworld := w\<rparr>)"
  have 1: "sleep_ms so POLL_MS s = (Inr (), s1)"
    using zz by (simp add: sleep_ms_def on_sworld_def modify_def s1_def)
  have c1: "clock (sworld s) + 200 \<le> clock (sworld s1)"
    using sleep [of "sworld s" POLL_MS] zz by (simp add: s1_def world POLL_MS_def)
  have "returns (check_all so)" unfolding check_all_def by (intro returns_intros returns_check)
  then obtain u s2 where 2: "check_all so s1 = (Inr u, s2)" by (rule returnsE)
  have "obeys (later clock) (check_all so)"
    unfolding check_all_def by (intro later_than.obeys_intros ticks_later [OF law] obeys_gets) (simp add: later_def)
  from obeysD [OF this, of s1] 2 c1 have c2: "clock (sworld s) + 200 \<le> clock (sworld s2)" by (simp add: later_def)
  show ?thesis
  proof (cases "children s2 = []")
    case True
    with 1 2 have "kill_wait (Suc n) so stop s = (Inr True, s2)" by (simp add: gets_def)
    then show ?thesis by blast
  next
    case False
    obtain t w' where 3: "sv_time so (sworld s2) = (t, w')" by (meson surj_pair)
    note T = time [OF 3]
    show ?thesis
    proof (cases "t < stop")
      case True
      have "x < 1000 * stop" if "x div 1000 < stop" for x :: int
        using that minus_mod_eq_mult_div [of x 1000] pos_mod_bound [of 1000 x] by linarith
      then have "clock (sworld s2) < 1000 * stop" using T True by simp
      with T c2 have "clock (sworld s) + 200 \<le> clock (sworld (s2\<lparr>sworld := w'\<rparr>))" "clock (sworld s) + 200 < 1000 * stop"
        by simp_all
      from assms(2) [OF this] show ?thesis using 1 2 3 False True by (simp add: gets_def on_sworld_def)
    next
      case False
      with 1 2 3 \<open>children s2 \<noteq> []\<close> have "kill_wait (Suc n) so stop s = (Inr False, s2\<lparr>sworld := w'\<rparr>)"
        by (simp add: gets_def on_sworld_def)
      then show ?thesis by blast
    qed
  qed
qed

lemma kill_wait_ends:
  assumes "ticks so clock" and "1000 * stop \<le> clock (sworld s) + 200 * int n" and "0 < n"
  shows "\<exists>b s'. kill_wait n so stop s = (Inr b, s')"
  using assms(2,3)
proof (induction n arbitrary: s)
  case (Suc n)
  show ?case
  proof (rule kill_wait_step [OF assms(1)])
    fix t :: "'a sup"
    assume t: "clock (sworld s) + 200 \<le> clock (sworld t)" "clock (sworld s) + 200 < 1000 * stop"
    with Suc.prems show "\<exists>b s'. kill_wait n so stop t = (Inr b, s')" by (intro Suc.IH) auto
  qed
qed simp

lemma kill_children_returns:
  assumes "ticks so clock" and "25 \<le> n"
  shows "\<exists>s'. kill_children n so s = (Inr (), s')"
proof (cases "children s = []")
  case False
  obtain u s1 where 1: "signal_all so SIGTERM (children s) s = (Inr u, s1)" using returns_signal_all by (rule returnsE)
  obtain t w where 2: "sv_time so (sworld s1) = (t, w)" by (meson surj_pair)
  let ?s = "s1\<lparr>sworld := w\<rparr>"
  have "t \<le> clock w div 1000" using assms(1) 2 unfolding ticks_def by blast
  then have "1000 * (t + 5) \<le> clock (sworld ?s) + 200 * int n" using assms(2) by simp
  then obtain b s2 where 3: "kill_wait n so (t + 5) ?s = (Inr b, s2)"
    using kill_wait_ends [OF assms(1), of "t + 5" ?s n] assms(2) by auto
  obtain v s3 where 4: "kill_running so (children s2) s2 = (Inr v, s3)" using returns_kill_running by (rule returnsE)
  show ?thesis
    using 1 2 3 4 False by (cases b) (simp_all add: kill_children_def gets_def on_sworld_def)
qed (simp add: kill_children_def gets_def)

text \<open>A system to kill on: pid 11 is gone, the others never end; the log of signals, and the clock.\<close>

type_synonym kill_world = "(int \<times> int) list \<times> int"

definition killable :: "kill_world sup_os" where
  "killable = \<lparr>sv_kill = \<lambda>c sig (l, t). (if c = 11 \<and> sig = 0 then Inl ESRCH else Inr (), (c, sig) # l, t),
     sv_time = \<lambda>(l, t). (t div 1000, l, t), sv_sleep = \<lambda>ms (l, t). ([], l, t + int ms),
     sv_fgets = \<lambda>w. (Inl (Some EAGAIN), w), sv_getppid = \<lambda>w. 1, sv_fopen = \<lambda>f w. (Inr (), w),
     sv_nonblock = \<lambda>w. (Inr (), w), sv_sigaction = \<lambda>sig w. (Inr (), w)\<rparr>"

definition two_children :: "kill_world sup" where
  "two_children = \<lparr>children = [11, 12], sigint_received = False, sigterm_received = False, last_errno = None,
     sworld = ([], 0)\<rparr>"

lemma killable_ticks: "ticks killable snd"
  by (auto simp: ticks_def killable_def)

lemma killable_logged: "kills_logged killable (\<lambda>w. set (fst w)) (\<lambda>w. {c. c = 11 \<and> (11, 0) \<in> set (fst w)})"
  by (auto simp: kills_logged_def killable_def split: if_splits)



theorem kill_children_reaches_all_witness:
  "\<exists>s'. kill_children 25 killable two_children = (Inr (), s') \<and> (12, SIGTERM) \<in> set (fst (sworld s')) \<and>
     (12, SIGKILL) \<in> set (fst (sworld s'))"
proof -
  obtain s' where run: "kill_children 25 killable two_children = (Inr (), s')"
    using kill_children_returns [OF killable_ticks, of 25 two_children] by auto
  have "12 \<in> set (children two_children)" by (simp add: two_children_def)
  from kill_children_reaches_all [OF killable_logged run this] run show ?thesis by auto
qed

section \<open>Pids on the input\<close>

text \<open>R writes a pid in decimal digits and a newline, with a minus sign to take it back.\<close>

lemma decimal_value:
  "digits_value (decimal n @ [CHR 0x0A]) 0 = int n"
  by (simp add: digits_value_decimal is_digit_def)

lemma strtol_decimal:
  assumes "int n \<le> INT_MAX"
  shows "strtol (decimal n @ [CHR 0x0A]) = (int n, False)"
    and "strtol (CHR ''-'' # decimal n @ [CHR 0x0A]) = (- int n, False)"
proof -
  obtain d :: nat and cs where f: "decimal n = char_of (48 + d) # cs" "d < 10" by (rule decimal_first [of n])
  have c: "(of_char (char_of (48 + d) :: char) :: nat) = 48 + d" using digit_char [OF f(2)] by simp
  have not_45: "of_char CHR ''-'' \<noteq> (48 + d :: nat)" and not_43: "of_char CHR ''+'' \<noteq> (48 + d :: nat)" by simp_all
  from c have "\<not> is_space (char_of (48 + d))" by (simp only: is_space_def) simp
  moreover have "char_of (48 + d) \<noteq> CHR ''-''" "char_of (48 + d) \<noteq> CHR ''+''"
    using c not_45 not_43 by metis+
  ultimately show "strtol (decimal n @ [CHR 0x0A]) = (int n, False)"
    using assms decimal_value [of n] by (simp add: f strtol_def Let_def INT_MAX_def LONG_MAX_def LONG_MIN_def)
  show "strtol (CHR ''-'' # decimal n @ [CHR 0x0A]) = (- int n, False)"
    using assms decimal_value [of n]
    by (simp add: strtol_def Let_def INT_MAX_def LONG_MAX_def LONG_MIN_def is_space_def)
qed



text \<open>\<open>errno\<close> is tested but never cleared: after one number out of range the pids of the following
  lines of the same batch are dropped and their processes are never killed.\<close>

theorem overflow_loses_pids:
  "children (snd (read_lines (Suc (Suc (Suc 0))) input_os (watching [] [''123\<newline>'', ''456\<newline>'']))) = [123, 456] \<and>
   children (snd (read_lines (Suc (Suc (Suc (Suc 0)))) input_os
     (watching [] [''99999999999999999999\<newline>'', ''123\<newline>'', ''456\<newline>'']))) = []"
  by (simp add: input_os_def watching_def handle_line_def extract_pid_def strtol_def is_space_def is_digit_def
      LONG_MAX_def LONG_MIN_def INT_MAX_def INT_MIN_def MAX_CHILDREN_def andthen_def gets_def modify_def Let_def)

text \<open>A pass over the children skips the one that is moved into the place of a dropped one: of two
  children that both ended, the second stays in the array until the next pass.\<close>

theorem check_skips_moved:
  "children (snd (check_all (input_os\<lparr>sv_kill := \<lambda>c sig w. (Inl ESRCH, w)\<rparr>) (watching [11, 12] []))) = [12]"
  by (simp add: check_all_def pid_is_running_def sv_call_def gets_def modify_def watching_def remove_element_def andthen_def)

end
