(* ===== verification/Win_Args.thy ===== *)
theory Win_Args
  imports Prelude
begin

text \<open>
  The command line on Windows (\<open>processx__quote_cmd_arg\<close> and \<open>processx__make_program_args\<close> in
  src/src/win/processx.c): the arguments are quoted so that the C runtime of the child splits the
  line into the same arguments again.
\<close>

section \<open>Wide strings\<close>

text \<open>A wide string is the list of its UTF-16 units without the terminator.\<close>

type_synonym wchar = "16 word"
type_synonym wstring = "wchar list"

definition SPACE :: wchar where "SPACE = 0x20"
definition TAB :: wchar where "TAB = 0x09"
definition QUOTE :: wchar where "QUOTE = 0x22"
definition BACKSLASH :: wchar where "BACKSLASH = 0x5C"

lemmas wchar_defs = SPACE_def TAB_def QUOTE_def BACKSLASH_def

section \<open>Quoting\<close>

text \<open>
  \<open>wcspbrk\<close>. The loop goes over the argument from its end and writes the result backwards, with a
  backslash after each quote and after each backslash that is followed by backslashes and a quote or
  the end only (\<open>quote_hit\<close>).
\<close>

definition wcspbrk :: "wstring \<Rightarrow> wstring \<Rightarrow> bool" where
  "wcspbrk source accepted \<longleftrightarrow> (\<exists>c \<in> set source. c \<in> set accepted)"

fun quote_loop :: "bool \<Rightarrow> wstring \<Rightarrow> wstring" where
  "quote_loop quote_hit [] = []"
| "quote_loop quote_hit (c # source) =
     (if quote_hit \<and> c = BACKSLASH then c # BACKSLASH # quote_loop quote_hit source
      else if c = QUOTE then c # BACKSLASH # quote_loop True source
      else c # quote_loop False source)"

definition processx__quote_cmd_arg :: "wstring \<Rightarrow> wstring" where
  "processx__quote_cmd_arg source =
     (if source = [] then [QUOTE, QUOTE]
      else if \<not> wcspbrk source [SPACE, TAB, QUOTE] then source
      else if \<not> wcspbrk source [QUOTE, BACKSLASH] then QUOTE # source @ [QUOTE]
      else QUOTE # rev (quote_loop True (rev source)) @ [QUOTE])"

section \<open>The command line\<close>

text \<open>
  \<open>to_utf16\<close> is \<open>MultiByteToWideChar\<close>: the units, or an error code. The first loop adds up the sizes,
  with terminators; \<open>dst_len\<close> is the size of the buffer. The value is what is in the buffer.
\<close>

fun required_size :: "(string \<Rightarrow> nat + wstring) \<Rightarrow> string list \<Rightarrow> nat + nat" where
  "required_size to_utf16 [] = Inr 0"
| "required_size to_utf16 (arg # args) =
     (case to_utf16 arg of
        Inl e \<Rightarrow> Inl e
      | Inr s \<Rightarrow> (case required_size to_utf16 args of Inl e \<Rightarrow> Inl e | Inr n \<Rightarrow> Inr (length s + 1 + n)))"

definition dst_len :: "nat \<Rightarrow> nat \<Rightarrow> nat" where
  "dst_len n arg_count = n * 2 + arg_count * 2"

fun write_args :: "(string \<Rightarrow> nat + wstring) \<Rightarrow> bool \<Rightarrow> string list \<Rightarrow> nat + wstring" where
  "write_args to_utf16 verbatim [] = Inr []"
| "write_args to_utf16 verbatim (arg # args) =
     (case to_utf16 arg of
        Inl e \<Rightarrow> Inl e
      | Inr s \<Rightarrow>
          (case write_args to_utf16 verbatim args of
             Inl e \<Rightarrow> Inl e
           | Inr rest \<Rightarrow>
               Inr ((if verbatim then s else processx__quote_cmd_arg s) @ (if args \<noteq> [] then SPACE else 0) # rest)))"

definition processx__make_program_args :: "(string \<Rightarrow> nat + wstring) \<Rightarrow> string list \<Rightarrow> bool \<Rightarrow> nat + wstring" where
  "processx__make_program_args to_utf16 args verbatim =
     (case required_size to_utf16 args of
        Inl e \<Rightarrow> Inl e
      | Inr _ \<Rightarrow> write_args to_utf16 verbatim args)"

section \<open>Escaping, from the front\<close>

definition before_quote :: "wstring \<Rightarrow> bool" where
  "before_quote s \<longleftrightarrow> (case dropWhile (\<lambda>c. c = BACKSLASH) s of [] \<Rightarrow> True | c # _ \<Rightarrow> c = QUOTE)"

fun escape :: "wstring \<Rightarrow> wstring" where
  "escape [] = []"
| "escape (c # s) = (if c = BACKSLASH \<and> before_quote s then [BACKSLASH, BACKSLASH] else if c = QUOTE then [BACKSLASH, QUOTE] else [c]) @ escape s"

fun hit_after :: "bool \<Rightarrow> wstring \<Rightarrow> bool" where
  "hit_after hit [] = hit"
| "hit_after hit (c # s) = hit_after (if hit \<and> c = BACKSLASH then hit else c = QUOTE) s"

lemma quote_neq [simp]: "QUOTE \<noteq> BACKSLASH" "BACKSLASH \<noteq> QUOTE" "SPACE \<noteq> QUOTE" "TAB \<noteq> QUOTE" "SPACE \<noteq> BACKSLASH" "TAB \<noteq> BACKSLASH"
    "QUOTE \<noteq> SPACE" "QUOTE \<noteq> TAB" "BACKSLASH \<noteq> SPACE" "BACKSLASH \<noteq> TAB" "SPACE \<noteq> TAB"
  by (simp_all add: wchar_defs)

lemma quote_loop_append: "quote_loop hit (xs @ ys) = quote_loop hit xs @ quote_loop (hit_after hit xs) ys"
  by (induction xs arbitrary: hit) auto

lemma hit_after_append: "hit_after hit (xs @ ys) = hit_after (hit_after hit xs) ys"
  by (induction xs arbitrary: hit) auto

lemma hit_after_rev: "hit_after True (rev s) = before_quote s"
  by (induction s) (auto simp: hit_after_append before_quote_def)

lemma quote_loop_escape: "rev (quote_loop True (rev s)) = escape s"
  by (induction s) (auto simp: quote_loop_append hit_after_rev)

lemma escape_plain: "\<not> wcspbrk s [QUOTE, BACKSLASH] \<Longrightarrow> escape s = s"
  by (induction s) (auto simp: wcspbrk_def)

lemma quote_cmd_arg_cases:
  "processx__quote_cmd_arg s =
     (if s \<noteq> [] \<and> \<not> wcspbrk s [SPACE, TAB, QUOTE] then s else QUOTE # escape s @ [QUOTE])"
  by (simp add: processx__quote_cmd_arg_def quote_loop_escape escape_plain)

section \<open>How the child reads its arguments\<close>

text \<open>
  What Microsoft documents of the parsing of command lines in the C runtime. \<open>p q a s\<close> are the
  arguments read from the rest \<open>s\<close> of the line, when \<open>a\<close> was read of the current one and \<open>q\<close> tells
  whether a quoted part is open: backslashes before a quote count in pairs, an odd one makes the
  quote an ordinary character; otherwise a quote opens or closes a quoted part (a closing one is
  only specified before a delimiter or the end); all other backslashes are ordinary characters; white space outside
  quotes ends the argument.
\<close>

definition crt_rules :: "(bool \<Rightarrow> wstring \<Rightarrow> wstring \<Rightarrow> wstring list) \<Rightarrow> bool" where
  "crt_rules p \<longleftrightarrow>
     (\<forall>q a n s. p q a (replicate (2 * n + 1) BACKSLASH @ QUOTE # s) = p q (a @ replicate n BACKSLASH @ [QUOTE]) s) \<and>
     (\<forall>a n s. p False a (replicate (2 * n) BACKSLASH @ QUOTE # s) = p True (a @ replicate n BACKSLASH) s) \<and>
     (\<forall>a n s. s = [] \<or> hd s \<in> {SPACE, TAB} \<longrightarrow>
        p True a (replicate (2 * n) BACKSLASH @ QUOTE # s) = p False (a @ replicate n BACKSLASH) s) \<and>
     (\<forall>q a n c s. c \<notin> {QUOTE, BACKSLASH} \<and> (q \<or> c \<notin> {SPACE, TAB}) \<longrightarrow>
        p q a (replicate n BACKSLASH @ c # s) = p q (a @ replicate n BACKSLASH @ [c]) s) \<and>
     (\<forall>a n. p False a (replicate n BACKSLASH) = [a @ replicate n BACKSLASH]) \<and>
     (\<forall>a n c s. c \<in> {SPACE, TAB} \<and> s \<noteq> [] \<and> hd s \<notin> {SPACE, TAB} \<longrightarrow>
        p False a (replicate n BACKSLASH @ c # s) = (a @ replicate n BACKSLASH) # p False [] s)"

lemma crt_rulesD:
  assumes "crt_rules p"
  shows "p q a (replicate (2 * n + 1) BACKSLASH @ QUOTE # s) = p q (a @ replicate n BACKSLASH @ [QUOTE]) s"
    and "p False a (replicate (2 * n) BACKSLASH @ QUOTE # s) = p True (a @ replicate n BACKSLASH) s"
    and "s = [] \<or> hd s \<in> {SPACE, TAB} \<longrightarrow>
        p True a (replicate (2 * n) BACKSLASH @ QUOTE # s) = p False (a @ replicate n BACKSLASH) s"
    and "c \<notin> {QUOTE, BACKSLASH} \<and> (q \<or> c \<notin> {SPACE, TAB}) \<longrightarrow>
        p q a (replicate n BACKSLASH @ c # s) = p q (a @ replicate n BACKSLASH @ [c]) s"
    and "p False a (replicate n BACKSLASH) = [a @ replicate n BACKSLASH]"
    and "c \<in> {SPACE, TAB} \<and> s \<noteq> [] \<and> hd s \<notin> {SPACE, TAB} \<longrightarrow>
        p False a (replicate n BACKSLASH @ c # s) = (a @ replicate n BACKSLASH) # p False [] s"
  by (rule assms [unfolded crt_rules_def, THEN conjunct1, THEN spec, THEN spec, THEN spec, THEN spec]
    assms [unfolded crt_rules_def, THEN conjunct2, THEN conjunct1, THEN spec, THEN spec, THEN spec]
    assms [unfolded crt_rules_def, THEN conjunct2, THEN conjunct2, THEN conjunct1, THEN spec, THEN spec, THEN spec]
    assms [unfolded crt_rules_def, THEN conjunct2, THEN conjunct2, THEN conjunct2, THEN conjunct1, THEN spec, THEN spec, THEN spec, THEN spec, THEN spec]
    assms [unfolded crt_rules_def, THEN conjunct2, THEN conjunct2, THEN conjunct2, THEN conjunct2, THEN conjunct1, THEN spec, THEN spec]
    assms [unfolded crt_rules_def, THEN conjunct2, THEN conjunct2, THEN conjunct2, THEN conjunct2, THEN conjunct2, THEN spec, THEN spec, THEN spec, THEN spec])+

section \<open>Reading back\<close>

lemma backslash_run:
  obtains n r where "s = replicate n BACKSLASH @ r" and "r = [] \<or> hd r \<noteq> BACKSLASH"
proof
  show "s = replicate (length (takeWhile (\<lambda>c. c = BACKSLASH) s)) BACKSLASH @ dropWhile (\<lambda>c. c = BACKSLASH) s"
    by (induction s) auto
  show "dropWhile (\<lambda>c. c = BACKSLASH) s = [] \<or> hd (dropWhile (\<lambda>c. c = BACKSLASH) s) \<noteq> BACKSLASH"
    by (induction s) auto
qed

lemma escape_run:
  assumes "r = [] \<or> hd r \<noteq> BACKSLASH"
  shows "escape (replicate n BACKSLASH @ r) = replicate (if r = [] \<or> hd r = QUOTE then 2 * n else n) BACKSLASH @ escape r"
proof -
  have "before_quote (replicate k BACKSLASH @ r) \<longleftrightarrow> r = [] \<or> hd r = QUOTE" for k
  proof (induction k)
    case 0
    then show ?case using assms by (cases r) (auto simp: before_quote_def)
  qed (simp add: before_quote_def)
  then show ?thesis by (induction n) auto
qed

lemma read_escaped:
  assumes law: "crt_rules p" and t: "t = [] \<or> hd t \<in> {SPACE, TAB}"
  shows "p True a (escape s @ QUOTE # t) = p False (a @ s) t"
proof (induction "length s" arbitrary: s a rule: less_induct)
  case less
  obtain n r where s: "s = replicate n BACKSLASH @ r" "r = [] \<or> hd r \<noteq> BACKSLASH" by (rule backslash_run)
  note R = crt_rulesD [OF law]
  show ?case
  proof (cases r)
    case Nil
    with s escape_run [of "[]" n] have "escape s = replicate (2 * n) BACKSLASH" by simp
    with R(3) [of t a n, rule_format, OF t] s Nil show ?thesis by simp
  next
    case (Cons c r')
    then have IH: "p True b (escape r' @ QUOTE # t) = p False (b @ r') t" for b using less s by simp
    show ?thesis
    proof (cases "c = QUOTE")
      case True
      have "escape s @ QUOTE # t = replicate (2 * n + 1) BACKSLASH @ QUOTE # (escape r' @ QUOTE # t)"
        using s Cons True by (simp add: escape_run replicate_append_same)
      then show ?thesis using R(1) [of True a n "escape r' @ QUOTE # t"] IH s Cons True by simp
    next
      case False
      with s Cons have "escape s @ QUOTE # t = replicate n BACKSLASH @ c # (escape r' @ QUOTE # t)"
        by (simp add: escape_run)
      then show ?thesis using R(4) [of c True a n "escape r' @ QUOTE # t"] IH s Cons False by simp
    qed
  qed
qed

text \<open>What follows an argument in the line, and how the reading goes on.\<close>

definition delimited :: "wstring \<Rightarrow> bool" where
  "delimited t \<longleftrightarrow> t = [] \<or> (hd t \<in> {SPACE, TAB} \<and> tl t \<noteq> [] \<and> hd (tl t) \<notin> {SPACE, TAB})"

lemma read_end:
  assumes law: "crt_rules p" and "delimited t"
  shows "p False a (replicate n BACKSLASH @ t) = (a @ replicate n BACKSLASH) # (if t = [] then [] else p False [] (tl t))"
  using assms(2) crt_rulesD(5) [OF law, of a n] crt_rulesD(6) [OF law, of "hd t" "tl t" a n]
  by (cases t) (auto simp: delimited_def)

lemma read_plain:
  assumes law: "crt_rules p" and t: "delimited t" and "\<not> wcspbrk s [SPACE, TAB, QUOTE]"
  shows "p False a (s @ t) = (a @ s) # (if t = [] then [] else p False [] (tl t))"
  using assms(3)
proof (induction "length s" arbitrary: s a rule: less_induct)
  case less
  obtain n r where s: "s = replicate n BACKSLASH @ r" "r = [] \<or> hd r \<noteq> BACKSLASH" by (rule backslash_run)
  show ?case
  proof (cases r)
    case Nil
    with s read_end [OF law t] show ?thesis by simp
  next
    case (Cons c r')
    with less s have c: "c \<notin> {QUOTE, BACKSLASH}" "False \<or> c \<notin> {SPACE, TAB}" "\<not> wcspbrk r' [SPACE, TAB, QUOTE]"
      by (auto simp: wcspbrk_def)
    have "p False a (s @ t) = p False (a @ replicate n BACKSLASH @ [c]) (r' @ t)"
      using crt_rulesD(4) [OF law, of c False a n "r' @ t"] c(1,2) s Cons by simp
    also have "\<dots> = (a @ s) # (if t = [] then [] else p False [] (tl t))"
      using less(1) [of r' "a @ replicate n BACKSLASH @ [c]"] s Cons c(3) by simp
    finally show ?thesis .
  qed
qed

lemma read_argument:
  assumes law: "crt_rules p" and t: "delimited t"
  shows "p False [] (processx__quote_cmd_arg s @ t) = s # (if t = [] then [] else p False [] (tl t))"
proof (cases "s \<noteq> [] \<and> \<not> wcspbrk s [SPACE, TAB, QUOTE]")
  case True
  with read_plain [OF assms, of s "[]"] show ?thesis by (simp add: quote_cmd_arg_cases)
next
  case False
  then have "processx__quote_cmd_arg s @ t = QUOTE # escape s @ QUOTE # t"
    by (subst quote_cmd_arg_cases) (simp only: if_False append_Cons append_assoc append_Nil)
  moreover have "p False [] (QUOTE # escape s @ QUOTE # t) = p True [] (escape s @ QUOTE # t)"
    using crt_rulesD(2) [OF law, of "[]" 0 "escape s @ QUOTE # t"] by simp
  moreover have "t = [] \<or> hd t \<in> {SPACE, TAB}" using t by (auto simp: delimited_def)
  ultimately show ?thesis
    using read_escaped [OF law, of t "[]" s] read_end [OF assms, of s 0] by simp
qed

lemma quoted_start:
  "processx__quote_cmd_arg s \<noteq> [] \<and> hd (processx__quote_cmd_arg s) \<notin> {SPACE, TAB}"
  by (cases s) (auto simp: quote_cmd_arg_cases wcspbrk_def)

lemma write_args_read:
  assumes law: "crt_rules p" and "write_args to_utf16 False args = Inr line" and "args \<noteq> []"
  shows "line \<noteq> [] \<and> last line = 0 \<and> butlast line \<noteq> [] \<and> hd (butlast line) \<notin> {SPACE, TAB} \<and>
    map Inr (p False [] (butlast line)) = map to_utf16 args"
  using assms(2,3)
proof (induction args arbitrary: line)
  case (Cons arg args)
  from Cons.prems(1) obtain s rest where s: "to_utf16 arg = Inr s" and rest: "write_args to_utf16 False args = Inr rest"
    and line: "line = processx__quote_cmd_arg s @ (if args \<noteq> [] then SPACE else 0) # rest"
    by (auto split: sum.splits)
  note start = quoted_start [of s]
  show ?case
  proof (cases "args = []")
    case True
    with rest have "rest = []" by simp
    with True line start s read_argument [OF law, of "[]" s] show ?thesis
      by (simp add: delimited_def butlast_append)
  next
    case False
    note IH = Cons.IH [OF rest False]
    have b: "butlast line = processx__quote_cmd_arg s @ SPACE # butlast rest" using line False IH by (simp add: butlast_append)
    have "delimited (SPACE # butlast rest)" using IH by (simp add: delimited_def)
    from read_argument [OF law this, of s] b have "p False [] (butlast line) = s # p False [] (butlast rest)" by simp
    with IH start line s False b show ?thesis by simp
  qed
qed simp

text \<open>
  The first word is the name of the program, for which backslashes are ordinary characters: it ends at
  the closing quote, or at white space. \<open>split_name\<close> gives it and the rest of the line.
\<close>

definition crt_name_rules :: "(wstring \<Rightarrow> wstring \<times> wstring) \<Rightarrow> bool" where
  "crt_name_rules split_name \<longleftrightarrow>
     (\<forall>s t. QUOTE \<notin> set s \<and> (t = [] \<or> hd t \<in> {SPACE, TAB}) \<longrightarrow> split_name (QUOTE # s @ QUOTE # t) = (s, t)) \<and>
     (\<forall>s t. s \<noteq> [] \<and> set s \<inter> {QUOTE, SPACE, TAB} = {} \<and> (t = [] \<or> hd t \<in> {SPACE, TAB}) \<longrightarrow> split_name (s @ t) = (s, t))"

definition crt_argv :: "(wstring \<Rightarrow> wstring \<times> wstring) \<Rightarrow> (bool \<Rightarrow> wstring \<Rightarrow> wstring \<Rightarrow> wstring list) \<Rightarrow> wstring \<Rightarrow> wstring list" where
  "crt_argv split_name p line =
     (let (name, t) = split_name line in name # (if t = [] then [] else p False [] (tl t)))"

lemma escape_name: "QUOTE \<notin> set s \<Longrightarrow> s = [] \<or> last s \<noteq> BACKSLASH \<Longrightarrow> escape s = s"
proof (induction s)
  case (Cons c s)
  have "before_quote s \<Longrightarrow> QUOTE \<notin> set s \<Longrightarrow> s \<noteq> [] \<Longrightarrow> last s = BACKSLASH"
    unfolding before_quote_def
    by (induction s) (auto split: if_splits)
  with Cons show ?case by (auto split: if_splits simp: before_quote_def)
qed simp

lemma read_name:
  assumes law: "crt_name_rules split_name" and s: "QUOTE \<notin> set s" "s = [] \<or> last s \<noteq> BACKSLASH"
    and t: "t = [] \<or> hd t \<in> {SPACE, TAB}"
  shows "split_name (processx__quote_cmd_arg s @ t) = (s, t)"
proof (cases "s \<noteq> [] \<and> \<not> wcspbrk s [SPACE, TAB, QUOTE]")
  case True
  then have "set s \<inter> {QUOTE, SPACE, TAB} = {}" by (auto simp: wcspbrk_def)
  with True t law show ?thesis by (simp only: crt_name_rules_def quote_cmd_arg_cases if_True simp_thms)
next
  case False
  then have "processx__quote_cmd_arg s @ t = QUOTE # s @ QUOTE # t"
    using escape_name [OF s] by (subst quote_cmd_arg_cases) (simp only: if_False append_Cons append_assoc append_Nil)
  with s t law show ?thesis by (simp only: crt_name_rules_def simp_thms)
qed

lemma length_quote_loop: "length (quote_loop hit s) \<le> 2 * length s"
  by (induction s arbitrary: hit) (auto simp: le_SucI)

lemma length_quoted: "length (processx__quote_cmd_arg s) \<le> 2 * length s + 2"
  using length_quote_loop [of True "rev s"] by (auto simp: processx__quote_cmd_arg_def)

text \<open>C7: on Windows the child reads exactly the arguments R was given, whatever white space, quotes and
  backslashes they contain, empty ones included: the documented parsing of the C runtime undoes the
  quoting of the whole command line. The program's name must not have a quote or end in a backslash.\<close>

theorem program_args_roundtrip:
  assumes "crt_rules p" and "crt_name_rules split_name" and "processx__make_program_args to_utf16 (prog # args) False = Inr line"
    and "to_utf16 prog = Inr name" and "QUOTE \<notin> set name" and "name = [] \<or> last name \<noteq> BACKSLASH"
  shows "last line = 0 \<and> map Inr (crt_argv split_name p (butlast line)) = map to_utf16 (prog # args)"
proof -
  from assms(3,4) obtain rest where rest: "write_args to_utf16 False args = Inr rest"
    and line: "line = processx__quote_cmd_arg name @ (if args \<noteq> [] then SPACE else 0) # rest"
    by (auto simp: processx__make_program_args_def split: sum.splits)
  show ?thesis
  proof (cases "args = []")
    case True
    with rest line read_name [OF assms(2,5,6), of "[]"] assms(4) show ?thesis
      by (simp add: crt_argv_def butlast_append)
  next
    case False
    note args = write_args_read [OF assms(1) rest False]
    have "butlast line = processx__quote_cmd_arg name @ SPACE # butlast rest" using line False args by (simp add: butlast_append)
    with read_name [OF assms(2,5,6), of "SPACE # butlast rest"] args line False assms(4) show ?thesis by (simp add: crt_argv_def)
  qed
qed

text \<open>C31: the command line, with its terminator, fits the buffer that was allocated for it.\<close>

theorem program_args_fit:
  assumes "required_size to_utf16 args = Inr n" and "processx__make_program_args to_utf16 args verbatim = Inr line"
  shows "length line \<le> dst_len n (length args)"
proof -
  have "length line \<le> n * 2 + length args * 2" if "write_args to_utf16 verbatim args = Inr line" "required_size to_utf16 args = Inr n"
    using that
  proof (induction args arbitrary: line n)
    case (Cons arg args)
    from Cons.prems obtain s rest m where r: "write_args to_utf16 verbatim args = Inr rest" "required_size to_utf16 args = Inr m"
      "n = length s + 1 + m" "line = (if verbatim then s else processx__quote_cmd_arg s) @ (if args \<noteq> [] then SPACE else 0) # rest"
      by (auto split: sum.splits)
    from Cons.IH [OF r(1,2)] r(3,4) length_quoted [of s] show ?case by auto
  qed simp
  then show ?thesis using assms by (simp add: processx__make_program_args_def dst_len_def)
qed


section \<open>A reader of command lines\<close>

text \<open>A reader that follows the rules; \<open>k\<close> backslashes were read last.\<close>

fun crt_words :: "nat \<Rightarrow> bool \<Rightarrow> wstring \<Rightarrow> wstring \<Rightarrow> wstring list" where
  "crt_words k q a [] = [a @ replicate k BACKSLASH]"
| "crt_words k q a (c # s) =
     (if c = BACKSLASH then crt_words (Suc k) q a s
      else if c = QUOTE then
        (if odd k then crt_words 0 q (a @ replicate (k div 2) BACKSLASH @ [QUOTE]) s
         else crt_words 0 (\<not> q) (a @ replicate (k div 2) BACKSLASH) s)
      else if \<not> q \<and> c \<in> {SPACE, TAB} then
        (if s = [] then [a @ replicate k BACKSLASH]
         else if hd s \<in> {SPACE, TAB} then crt_words k q a s
         else (a @ replicate k BACKSLASH) # crt_words 0 False [] s)
      else crt_words 0 q (a @ replicate k BACKSLASH @ [c]) s)"

definition crt_name :: "wstring \<Rightarrow> wstring \<times> wstring" where
  "crt_name s =
     (if s \<noteq> [] \<and> hd s = QUOTE
      then (takeWhile (\<lambda>c. c \<noteq> QUOTE) (tl s), tl (dropWhile (\<lambda>c. c \<noteq> QUOTE) (tl s)))
      else (takeWhile (\<lambda>c. c \<notin> {SPACE, TAB}) s, dropWhile (\<lambda>c. c \<notin> {SPACE, TAB}) s))"

lemma crt_words_run: "crt_words k q a (replicate n BACKSLASH @ s) = crt_words (k + n) q a s"
  by (induction n arbitrary: k) auto

lemma crt_words_rules: "crt_rules (crt_words 0)"
  by (auto simp: crt_rules_def crt_words_run crt_words_run [where s = "[]", simplified] simp del: replicate_Suc)

lemma split_at:
  assumes "\<forall>c \<in> set s. P c" and "t = [] \<or> \<not> P (hd t)"
  shows "takeWhile P (s @ t) = s \<and> dropWhile P (s @ t) = t"
  using assms by (cases t) (auto simp: takeWhile_append dropWhile_append takeWhile_eq_all_conv)

lemma crt_name_follows: "crt_name_rules crt_name"
  unfolding crt_name_rules_def
proof (intro conjI allI impI)
  fix s t :: wstring assume "QUOTE \<notin> set s \<and> (t = [] \<or> hd t \<in> {SPACE, TAB})"
  then have "takeWhile (\<lambda>c. c \<noteq> QUOTE) (s @ QUOTE # t) = s \<and> dropWhile (\<lambda>c. c \<noteq> QUOTE) (s @ QUOTE # t) = QUOTE # t"
    by (intro split_at) auto
  then show "crt_name (QUOTE # s @ QUOTE # t) = (s, t)" by (simp add: crt_name_def)
next
  fix s t :: wstring assume a: "s \<noteq> [] \<and> set s \<inter> {QUOTE, SPACE, TAB} = {} \<and> (t = [] \<or> hd t \<in> {SPACE, TAB})"
  then have "hd (s @ t) \<noteq> QUOTE" by (cases s) auto
  moreover have "takeWhile (\<lambda>c. c \<notin> {SPACE, TAB}) (s @ t) = s \<and> dropWhile (\<lambda>c. c \<notin> {SPACE, TAB}) (s @ t) = t"
    using a by (intro split_at) auto
  ultimately show "crt_name (s @ t) = (s, t)" by (simp add: crt_name_def)
qed

text \<open>ASCII text as UTF-16; a program with a blank in its path, and an argument with a blank, a quote
  after backslashes, and backslashes at its end.\<close>

definition ascii_utf16 :: "string \<Rightarrow> nat + wstring" where
  "ascii_utf16 s = Inr (map (\<lambda>c. word_of_nat (of_char c)) s)"

definition sample_args :: "string list" where
  "sample_args = [''a b'' @ [CHR 0x5C, CHR 0x22] @ ''c'' @ [CHR 0x5C], '''']"

lemmas win_args_eval = ascii_utf16_def sample_args_def wcspbrk_def wchar_defs processx__make_program_args_def processx__quote_cmd_arg_def

theorem program_args_roundtrip_witness:
  "map Inr (crt_argv crt_name (crt_words 0) (butlast (projr (processx__make_program_args ascii_utf16 (''C d'' # sample_args) False))))
     = map ascii_utf16 (''C d'' # sample_args)"
proof -
  obtain line where line: "processx__make_program_args ascii_utf16 (''C d'' # sample_args) False = Inr line"
    by (simp add: win_args_eval)
  show ?thesis
    using program_args_roundtrip [OF crt_words_rules crt_name_follows line, of "map (\<lambda>c. word_of_nat (of_char c)) ''C d''"]
    by (simp add: line) (simp add: ascii_utf16_def wchar_defs)
qed

theorem program_args_fit_witness:
  "length (projr (processx__make_program_args ascii_utf16 sample_args False)) \<le> dst_len 9 (length sample_args)"
proof -
  obtain line where line: "processx__make_program_args ascii_utf16 sample_args False = Inr line"
    by (simp add: win_args_eval)
  have "required_size ascii_utf16 sample_args = Inr 9" by (simp add: ascii_utf16_def sample_args_def)
  from program_args_fit [OF this line] line show ?thesis by simp
qed

end
