(* ===== verification/Win_Path.thy ===== *)
theory Win_Path
  imports Win_Args
begin

text \<open>
  The search for the program to start on Windows (\<open>processx__search_path\<close> and its helpers in
  src/src/win/processx.c), with the buffer of each candidate kept at its allocated size, and the list
  of candidates it amounts to.
\<close>

section \<open>The buffer of a candidate\<close>

definition SLASH :: wchar where "SLASH = 0x2F"
definition COLON :: wchar where "COLON = 0x3A"
definition DOT :: wchar where "DOT = 0x2E"
definition SEMICOLON :: wchar where "SEMICOLON = 0x3B"
definition APOSTROPHE :: wchar where "APOSTROPHE = 0x27"

lemmas path_char_defs = wchar_defs SLASH_def COLON_def DOT_def SEMICOLON_def APOSTROPHE_def

datatype path_fault = BufferOverflow

text \<open>
  What was written so far into a buffer of \<open>cap\<close> units; a write past its end is a fault. \<open>wcsncpy\<close>
  writes exactly \<open>n\<close> units, zeros after the end of the source.
\<close>

definition wcsncpy :: "nat \<Rightarrow> wstring \<Rightarrow> nat \<Rightarrow> path_fault + wstring \<Rightarrow> path_fault + wstring" where
  "wcsncpy cap s n buf =
     (case buf of
        Inl e \<Rightarrow> Inl e
      | Inr b \<Rightarrow> if length b + n \<le> cap then Inr (b @ take n s @ replicate (n - length s) 0) else Inl BufferOverflow)"

text \<open>\<open>put_after\<close> writes \<open>c\<close> when the test holds of the unit written last (\<open>result_pos[-1]\<close>).\<close>

definition put_after :: "nat \<Rightarrow> bool \<Rightarrow> (wchar \<Rightarrow> bool) \<Rightarrow> wchar \<Rightarrow> path_fault + wstring \<Rightarrow> path_fault + wstring" where
  "put_after cap enabled test c buf =
     (case buf of
        Inl e \<Rightarrow> Inl e
      | Inr b \<Rightarrow>
          if enabled \<and> test (last b) then (if length b < cap then Inr (b @ [c]) else Inl BufferOverflow)
          else Inr b)"

text \<open>\<open>wcsrchr (L"\\/:", c) == NULL\<close>; the terminator counts as part of the string.\<close>

definition no_separator :: "wchar \<Rightarrow> bool" where
  "no_separator c \<longleftrightarrow> c \<notin> {BACKSLASH, SLASH, COLON, 0}"

section \<open>One candidate\<close>

text \<open>The unit at an index of a string, the terminator included.\<close>

definition unit_at :: "wstring \<Rightarrow> nat \<Rightarrow> wchar" where
  "unit_at s i = (if i < length s then s ! i else 0)"

text \<open>
  How much of the working directory is used, and which part of the directory. A directory is a
  pointer into a longer string with its length, a \<open>size_t\<close>. \<open>lower\<close> folds the case in \<open>_wcsnicmp\<close>.
\<close>

definition cwd_part :: "(wchar \<Rightarrow> wchar) \<Rightarrow> wstring \<Rightarrow> wstring \<Rightarrow> 64 word \<Rightarrow> nat \<times> wstring \<times> 64 word" where
  "cwd_part lower cwd dir dir_len =
     (if dir_len > 2 \<and> unit_at dir 0 = BACKSLASH \<and> unit_at dir 1 = BACKSLASH then (0, dir, dir_len)
      else if dir_len \<ge> 1 \<and> unit_at dir 0 \<in> {SLASH, BACKSLASH} then (2, dir, dir_len)
      else if dir_len \<ge> 2 \<and> unit_at dir 1 = COLON \<and> (dir_len < 3 \<or> unit_at dir 2 \<notin> {SLASH, BACKSLASH}) then
        (if length cwd < 2 \<or> map lower (take 2 cwd) \<noteq> map lower (take 2 dir) then (0, dir, dir_len)
         else (length cwd, drop 2 dir, dir_len - 2))
      else if dir_len > 2 \<and> unit_at dir 1 = COLON then (0, dir, dir_len)
      else (length cwd, dir, dir_len))"

definition INVALID_FILE_ATTRIBUTES :: "32 word" where "INVALID_FILE_ATTRIBUTES = - 1"
definition FILE_ATTRIBUTE_DIRECTORY :: "32 word" where "FILE_ATTRIBUTE_DIRECTORY = 0x10"

text \<open>
  \<open>attrs\<close> is \<open>GetFileAttributesW\<close>, which reads the buffer up to its first zero.
\<close>

definition is_program :: "(wstring \<Rightarrow> 32 word) \<Rightarrow> wstring \<Rightarrow> bool" where
  "is_program attrs s \<longleftrightarrow> attrs s \<noteq> INVALID_FILE_ATTRIBUTES \<and> attrs s AND FILE_ATTRIBUTE_DIRECTORY = 0"

definition joined_path :: "(wchar \<Rightarrow> wchar) \<Rightarrow> wstring \<Rightarrow> 64 word \<Rightarrow> wstring \<Rightarrow> wstring \<Rightarrow> wstring \<Rightarrow> path_fault + wstring" where
  "joined_path lower dir dir_len name ext cwd =
     (let (cwd_len, dir, dir_len) = cwd_part lower cwd dir dir_len;
          cap = unat (of_nat cwd_len + 1 + dir_len + 1 + of_nat (length name) + 1 + of_nat (length ext) + 1 :: 64 word);
          with_cwd = put_after cap (cwd_len > 0) no_separator BACKSLASH (wcsncpy cap cwd cwd_len (Inr []));
          with_dir = put_after cap (dir_len > 0) no_separator BACKSLASH (wcsncpy cap dir (unat dir_len) with_cwd);
          with_name = wcsncpy cap name (length name) with_dir;
          with_ext = (if ext = [] then with_name
                      else wcsncpy cap ext (length ext)
                             (put_after cap (name \<noteq> []) (\<lambda>c. c \<noteq> DOT) DOT with_name))
      in wcsncpy cap [] 1 with_ext)"

definition processx__search_path_join_test ::
  "(wchar \<Rightarrow> wchar) \<Rightarrow> (wstring \<Rightarrow> 32 word) \<Rightarrow> wstring \<Rightarrow> 64 word \<Rightarrow> wstring \<Rightarrow> wstring \<Rightarrow> wstring
    \<Rightarrow> path_fault + wstring option" where
  "processx__search_path_join_test lower attrs dir dir_len name ext cwd =
     (case joined_path lower dir dir_len name ext cwd of
        Inl e \<Rightarrow> Inl e
      | Inr buf \<Rightarrow>
          (let result = takeWhile (\<lambda>c. c \<noteq> 0) buf
           in Inr (if is_program attrs result then Some result else None)))"

section \<open>The search\<close>

definition or_try :: "path_fault + wstring option \<Rightarrow> path_fault + wstring option \<Rightarrow> path_fault + wstring option" where
  "or_try r next_try = (if r = Inr None then next_try else r)"

definition COM :: wstring where "COM = [0x63, 0x6F, 0x6D]"
definition EXE :: wstring where "EXE = [0x65, 0x78, 0x65]"

definition processx__path_search_walk_ext ::
  "(wchar \<Rightarrow> wchar) \<Rightarrow> (wstring \<Rightarrow> 32 word) \<Rightarrow> wstring \<Rightarrow> 64 word \<Rightarrow> wstring \<Rightarrow> wstring \<Rightarrow> bool
    \<Rightarrow> path_fault + wstring option" where
  "processx__path_search_walk_ext lower attrs dir dir_len name cwd name_has_ext =
     (let test = (\<lambda>ext. processx__search_path_join_test lower attrs dir dir_len name ext cwd)
      in or_try (if name_has_ext then test [] else Inr None) (or_try (test COM) (test EXE)))"

text \<open>
  An entry of the path without its quotes. \<open>s\<close> is the rest of the path from the start of an entry of
  length \<open>len\<close>; \<open>dir_path[dir_len - 1]\<close> is the quote before \<open>dir_path\<close> when \<open>dir_len\<close> is zero.
\<close>

definition adjust_quotes :: "wstring \<Rightarrow> nat \<Rightarrow> wstring \<times> 64 word" where
  "adjust_quotes s len =
     (let quoted = unit_at s 0 \<in> {QUOTE, APOSTROPHE};
          dir_path = (if quoted then tl s else s);
          dir_len = (if quoted then of_nat len - 1 else of_nat len :: 64 word);
          last_unit = (if dir_len = 0 then unit_at s 0 else unit_at dir_path (unat (dir_len - 1)))
      in (dir_path, if last_unit \<in> {QUOTE, APOSTROPHE} then dir_len - 1 else dir_len))"

lemma dir_end_shorter:
  "rest \<noteq> [] \<Longrightarrow>
    length (dropWhile (\<lambda>c. c \<noteq> SEMICOLON) (if \<not> at_start \<or> hd rest = SEMICOLON then tl rest else rest)) < length rest"
  by (cases rest) (auto simp: le_imp_less_Suc length_dropWhile_le)

text \<open>The loop over the path: \<open>rest\<close> is the path from \<open>dir_end\<close>, \<open>at_start\<close> tells that it is the whole path.\<close>

function path_loop :: "(wstring \<Rightarrow> 64 word \<Rightarrow> path_fault + wstring option) \<Rightarrow> bool \<Rightarrow> wstring \<Rightarrow> path_fault + wstring option" where
  "path_loop walk at_start rest =
     (if rest = [] then Inr None
      else
        let dir_start = (if \<not> at_start \<or> hd rest = SEMICOLON then tl rest else rest);
            dir_end = dropWhile (\<lambda>c. c \<noteq> SEMICOLON) dir_start;
            len = length dir_start - length dir_end
        in if len = 0 then path_loop walk False dir_end
           else
             let (dir_path, dir_len) = adjust_quotes dir_start len
             in or_try (walk dir_path dir_len) (path_loop walk False dir_end))"
  by pat_completeness auto

termination
  by (relation "measure (\<lambda>(walk, at_start, rest). length rest)") (auto simp only: wf_measure in_measure prod.case intro: dir_end_shorter)

declare path_loop.simps [simp del]

definition file_name :: "wstring \<Rightarrow> wstring" where
  "file_name file = rev (takeWhile (\<lambda>c. c \<notin> {BACKSLASH, SLASH, COLON}) (rev file))"

definition has_extension :: "wstring \<Rightarrow> bool" where
  "has_extension name \<longleftrightarrow> length (dropWhile (\<lambda>c. c \<noteq> DOT) name) \<ge> 2"

definition processx__search_path ::
  "(wchar \<Rightarrow> wchar) \<Rightarrow> (wstring \<Rightarrow> 32 word) \<Rightarrow> wstring \<Rightarrow> wstring \<Rightarrow> wstring \<Rightarrow> path_fault + wstring option" where
  "processx__search_path lower attrs file cwd path =
     (if file = [] \<or> file = [DOT] then Inr None
      else
        let name = file_name file;
            dir_len = length file - length name;
            walk = (\<lambda>dir len name. processx__path_search_walk_ext lower attrs dir len name cwd (has_extension (file_name file)))
        in if dir_len > 0 then walk file (of_nat dir_len) name
           else or_try (walk [] 0 file) (path_loop (\<lambda>dir len. walk dir len file) True path))"

section \<open>What a candidate is\<close>

text \<open>Joining two parts of a path, and the directory an entry stands for.\<close>

definition join :: "wstring \<Rightarrow> wstring \<Rightarrow> wstring" where
  "join a b = (if a = [] \<or> last a \<in> {BACKSLASH, SLASH, COLON} then a @ b else a @ BACKSLASH # b)"

definition resolve :: "(wchar \<Rightarrow> wchar) \<Rightarrow> wstring \<Rightarrow> wstring \<Rightarrow> wstring" where
  "resolve lower cwd d =
     (if length d > 2 \<and> take 2 d = [BACKSLASH, BACKSLASH] then d
      else if d \<noteq> [] \<and> hd d \<in> {SLASH, BACKSLASH} then join (take 2 cwd) d
      else if length d \<ge> 2 \<and> d ! 1 = COLON then
        (if length d > 2 \<and> d ! 2 \<in> {SLASH, BACKSLASH} then d
         else if map lower (take 2 cwd) = map lower (take 2 d) then join cwd (drop 2 d) else d)
      else join cwd d)"

definition add_extension :: "wstring \<Rightarrow> wstring \<Rightarrow> wstring" where
  "add_extension name ext =
     (if ext = [] then name else if name \<noteq> [] \<and> last name \<noteq> DOT then name @ DOT # ext else name @ ext)"

definition candidate :: "(wchar \<Rightarrow> wchar) \<Rightarrow> wstring \<Rightarrow> wstring \<Rightarrow> wstring \<Rightarrow> wstring \<Rightarrow> wstring" where
  "candidate lower cwd d name ext = join (resolve lower cwd d) (add_extension name ext)"

lemma path_chars [simp]: "SLASH \<noteq> 0" "BACKSLASH \<noteq> 0" "COLON \<noteq> 0" "DOT \<noteq> 0" "SEMICOLON \<noteq> 0"
    "QUOTE \<noteq> SEMICOLON" "APOSTROPHE \<noteq> SEMICOLON" "APOSTROPHE \<noteq> QUOTE" "QUOTE \<noteq> APOSTROPHE" "SEMICOLON \<noteq> QUOTE" "SEMICOLON \<noteq> APOSTROPHE"
  by (simp_all add: path_char_defs)

lemma wcsncpy_fits:
  "n \<le> length s \<Longrightarrow> length b + n \<le> cap \<Longrightarrow> wcsncpy cap s n (Inr b) = Inr (b @ take n s)"
  by (simp add: wcsncpy_def)

lemma wcsncpy_end: "length b < cap \<Longrightarrow> wcsncpy cap [] 1 (Inr b) = Inr (b @ [0])"
  by (simp add: wcsncpy_def)

lemma put_after_fits:
  "length b < cap \<Longrightarrow> put_after cap e test c (Inr b) = Inr (if e \<and> test (last b) then b @ [c] else b)"
  by (simp add: put_after_def)

lemma joined_path_fits:
  assumes part: "cwd_part lower cwd dir dir_len = (cl, dir', of_nat n)"
    and bounds: "cl \<le> length cwd" "n \<le> length dir'" "cl + n + length name + length ext + 4 < 2 ^ 64"
    and zeros: "0 \<notin> set cwd" "0 \<notin> set dir'"
  shows "joined_path lower dir dir_len name ext cwd
    = Inr (join (join (take cl cwd) (take n dir')) (add_extension name ext) @ [0])"
proof -
  define cap where "cap = cl + n + length name + length ext + 4"
  have cap: "unat (of_nat cl + 1 + of_nat n + 1 + of_nat (length name) + 1 + of_nat (length ext) + 1 :: 64 word) = cap"
  proof -
    have "(of_nat cl + 1 + of_nat n + 1 + of_nat (length name) + 1 + of_nat (length ext) + 1 :: 64 word) = of_nat cap"
      by (simp add: cap_def)
    then show ?thesis using bounds(3) by (simp only: unat_of_nat) (simp add: cap_def take_bit_nat_eq_self)
  qed
  have n: "unat (of_nat n :: 64 word) = n" using bounds(3) by (simp add: unat_of_nat take_bit_nat_eq_self)
  have n0: "(of_nat n > (0 :: 64 word)) = (n > 0)" using n by (metis unat_gt_0 word_gt_0 gr0I less_irrefl)
  define a where "a = (if take cl cwd \<noteq> [] \<and> no_separator (last (take cl cwd)) then take cl cwd @ [BACKSLASH] else take cl cwd)"
  have A: "put_after cap (cl > 0) no_separator BACKSLASH (wcsncpy cap cwd cl (Inr [])) = Inr a"
    using bounds by (auto simp: wcsncpy_fits put_after_fits cap_def a_def)
  define b where "b = (if n > 0 \<and> no_separator (last (a @ take n dir')) then a @ take n dir' @ [BACKSLASH] else a @ take n dir')"
  have la: "length a \<le> cl + 1" using bounds(1) by (simp add: a_def)
  have B: "put_after cap (of_nat n > (0 :: 64 word)) no_separator BACKSLASH (wcsncpy cap dir' (unat (of_nat n :: 64 word)) (Inr a)) = Inr b"
    using bounds la by (simp add: n n0 wcsncpy_fits put_after_fits cap_def b_def)
  have lb: "length b \<le> cl + n + 2" using bounds(2) la by (simp add: b_def)
  have last0: "s \<noteq> [] \<Longrightarrow> 0 \<notin> set s \<Longrightarrow> no_separator (last s) \<longleftrightarrow> last s \<notin> {BACKSLASH, SLASH, COLON}" for s
    unfolding no_separator_def by (metis insert_iff empty_iff last_in_set)
  have zs: "0 \<notin> set (take k cwd)" "0 \<notin> set (take k dir')" for k using zeros set_take_subset by (metis subsetD)+
  have ab: "a @ take n dir' = join (take cl cwd) (take n dir')"
    using last0 [OF _ zs(1), of cl] by (auto simp: a_def join_def)
  have b: "join (join (take cl cwd) (take n dir')) x = b @ x" for x
  proof (cases "n = 0")
    case True
    with ab have a: "a = join (take cl cwd) []" by simp
    have "a = [] \<or> last a \<in> {BACKSLASH, SLASH, COLON}" using last0 [OF _ zs(1), of cl] by (auto simp: a_def)
    then have "join a x = a @ x" by (simp only: join_def if_True)
    with True show ?thesis by (simp add: b_def flip: a)
  next
    case False
    then have ne: "take n dir' \<noteq> []" using bounds(2) by auto
    then have "no_separator (last (a @ take n dir')) \<longleftrightarrow> last (a @ take n dir') \<notin> {BACKSLASH, SLASH, COLON}"
      using last0 [OF ne zs(2)] by simp
    then show ?thesis using False ne by (simp add: b_def ab [symmetric] join_def [of "a @ take n dir'"])
  qed
  have N: "wcsncpy cap name (length name) (Inr b) = Inr (b @ name)" using lb by (simp add: wcsncpy_fits cap_def)
  have E: "(if ext = [] then Inr (b @ name)
      else wcsncpy cap ext (length ext) (put_after cap (name \<noteq> []) (\<lambda>c. c \<noteq> DOT) DOT (Inr (b @ name))))
      = Inr (b @ add_extension name ext)"
    using lb by (auto simp: wcsncpy_fits put_after_fits cap_def add_extension_def)
  have Z: "wcsncpy cap [] 1 (Inr (b @ add_extension name ext)) = Inr (b @ add_extension name ext @ [0])"
    using lb by (subst wcsncpy_end) (auto simp: cap_def add_extension_def)
  show ?thesis unfolding joined_path_def part prod.case Let_def cap A B N E Z b append_assoc ..
qed

lemma of_nat_order:
  assumes "n < 2 ^ 63"
  shows "(of_nat n > (2 :: 64 word)) = (n > 2)" "(of_nat n \<ge> (1 :: 64 word)) = (n \<ge> 1)"
    "(of_nat n \<ge> (2 :: 64 word)) = (n \<ge> 2)" "(of_nat n < (3 :: 64 word)) = (n < 3)"
  using assms by (simp_all add: word_less_nat_alt word_le_nat_alt unat_of_nat take_bit_nat_eq_self)

lemma unit_at_take: "i < n \<Longrightarrow> n \<le> length s \<Longrightarrow> unit_at s i = take n s ! i"
  by (simp add: unit_at_def)

lemma take_2: "2 \<le> length s \<Longrightarrow> take 2 s = [s ! 0, s ! 1]"
  by (cases s; cases "tl s") auto

lemma cwd_part_resolve:
  assumes n: "n \<le> length dir" "n < 2 ^ 63" and cwd: "2 \<le> length cwd"
  obtains cl dir' m where "cwd_part lower cwd dir (of_nat n) = (cl, dir', of_nat m)" and "cl \<le> length cwd"
    and "m \<le> length dir'" and "m \<le> n" and "set dir' \<subseteq> set dir"
    and "resolve lower cwd (take n dir) = join (take cl cwd) (take m dir')"
proof -
  define d where "d = take n dir"
  note order = of_nat_order [OF n(2)]
  have len: "length d = n" using n by (simp add: d_def)
  have at: "unit_at dir i = d ! i" if "i < n" for i using that n by (simp add: d_def unit_at_take)
  have t2: "take 2 d = take 2 dir" if "n \<ge> 2" using that by (simp add: d_def min_def)
  have none: "join (take 0 cwd) (take n dir) = d" by (simp add: join_def d_def)
  have all: "join (take (length cwd) cwd) x = join cwd x" for x by simp
  have hd: "hd d = d ! 0" if "n > 0" using that len by (intro hd_conv_nth) auto
  consider (unc) "n > 2" "d ! 0 = BACKSLASH" "d ! 1 = BACKSLASH"
    | (rooted) "n \<ge> 1" "d ! 0 \<in> {SLASH, BACKSLASH}" "\<not> (n > 2 \<and> d ! 0 = BACKSLASH \<and> d ! 1 = BACKSLASH)"
    | (drive) "n \<ge> 2" "d ! 1 = COLON" "n < 3 \<or> d ! 2 \<notin> {SLASH, BACKSLASH}" "d ! 0 \<notin> {SLASH, BACKSLASH}"
    | (absolute) "n > 2" "d ! 1 = COLON" "d ! 2 \<in> {SLASH, BACKSLASH}" "d ! 0 \<notin> {SLASH, BACKSLASH}"
    | (relative) "\<not> (n \<ge> 2 \<and> d ! 1 = COLON)" "\<not> (n \<ge> 1 \<and> d ! 0 \<in> {SLASH, BACKSLASH})"
    by linarith
  then show thesis
  proof cases
    case unc
    then have "cwd_part lower cwd dir (of_nat n) = (0, dir, of_nat n)" by (simp add: cwd_part_def order at)
    moreover have "resolve lower cwd d = d" using unc len by (simp add: resolve_def take_2)
    ultimately show ?thesis using that [of 0 dir n] n none by (simp add: d_def)
  next
    case rooted
    then have "cwd_part lower cwd dir (of_nat n) = (2, dir, of_nat n)" by (auto simp: cwd_part_def order at)
    moreover have "resolve lower cwd d = join (take 2 cwd) d"
      using rooted len hd by (auto simp: resolve_def take_2)
    ultimately show ?thesis using that [of 2 dir n] n cwd by (simp add: d_def)
  next
    case drive
    then have len2: "length d \<ge> 2" "d \<noteq> []" using len by auto
    then have unc: "take 2 d \<noteq> [BACKSLASH, BACKSLASH]" using drive by (simp add: take_2)
    show ?thesis
    proof (cases "map lower (take 2 cwd) = map lower (take 2 dir)")
      case True
      have "cwd_part lower cwd dir (of_nat n) = (length cwd, drop 2 dir, of_nat n - 2)"
        using drive True cwd by (auto simp: cwd_part_def order at)
      moreover have "(of_nat n - 2 :: 64 word) = of_nat (n - 2)" using drive(1) by simp
      moreover have "resolve lower cwd d = join cwd (drop 2 d)"
        using drive len len2 hd unc True [folded t2 [OF drive(1)]] by (auto simp: resolve_def)
      moreover have "drop 2 d = take (n - 2) (drop 2 dir)" by (simp add: d_def drop_take)
      ultimately show ?thesis using that [of "length cwd" "drop 2 dir" "n - 2"] n by (simp add: d_def set_drop_subset)
    next
      case False
      then have "cwd_part lower cwd dir (of_nat n) = (0, dir, of_nat n)"
        using drive cwd by (auto simp: cwd_part_def order at)
      moreover have "resolve lower cwd d = d"
        using drive len len2 hd unc False [folded t2 [OF drive(1)]] by (auto simp: resolve_def)
      ultimately show ?thesis using that [of 0 dir n] n none by (simp add: d_def)
    qed
  next
    case absolute
    then have "cwd_part lower cwd dir (of_nat n) = (0, dir, of_nat n)" by (auto simp: cwd_part_def order at)
    moreover have "resolve lower cwd d = d" using absolute len hd by (auto simp: resolve_def take_2)
    ultimately show ?thesis using that [of 0 dir n] n none by (simp add: d_def)
  next
    case relative
    then have "cwd_part lower cwd dir (of_nat n) = (length cwd, dir, of_nat n)" by (auto simp: cwd_part_def order at)
    moreover have "resolve lower cwd d = join cwd d"
    proof -
      have "\<not> (length d > 2 \<and> take 2 d = [BACKSLASH, BACKSLASH])" using relative(2) len by (auto simp: take_2)
      moreover have "\<not> (d \<noteq> [] \<and> hd d \<in> {SLASH, BACKSLASH})" using relative(2) len hd by (cases "n = 0") auto
      moreover have "\<not> (length d \<ge> 2 \<and> d ! 1 = COLON)" using relative(1) len by simp
      ultimately show ?thesis by (simp only: resolve_def if_False)
    qed
    ultimately show ?thesis using that [of "length cwd" dir n] n by (simp add: d_def)
  qed
qed

section \<open>The search as a list of candidates\<close>

definition extensions :: "bool \<Rightarrow> wstring list" where
  "extensions name_has_ext = (if name_has_ext then [[], COM, EXE] else [COM, EXE])"

definition candidates_in :: "(wchar \<Rightarrow> wchar) \<Rightarrow> wstring \<Rightarrow> wstring \<Rightarrow> wstring \<Rightarrow> wstring list" where
  "candidates_in lower cwd name d = map (candidate lower cwd d name) (extensions (has_extension name))"

text \<open>The entries of a path and what is left of one without its quotes.\<close>

fun pieces :: "wstring \<Rightarrow> wstring list" where
  "pieces [] = [[]]"
| "pieces (c # s) = (if c = SEMICOLON then [] # pieces s else (c # hd (pieces s)) # tl (pieces s))"

definition entries :: "wstring \<Rightarrow> wstring list" where
  "entries path = filter (\<lambda>e. e \<noteq> []) (pieces path)"

definition unquoted :: "wstring \<Rightarrow> wstring" where
  "unquoted e =
     (let v = (if hd e \<in> {QUOTE, APOSTROPHE} then tl e else e)
      in if v \<noteq> [] \<and> last v \<in> {QUOTE, APOSTROPHE} then butlast v else v)"

definition candidates :: "(wchar \<Rightarrow> wchar) \<Rightarrow> wstring \<Rightarrow> wstring \<Rightarrow> wstring \<Rightarrow> wstring list" where
  "candidates lower file cwd path =
     (if file = [] \<or> file = [DOT] then []
      else if file_name file \<noteq> file
      then candidates_in lower cwd (file_name file) (take (length file - length (file_name file)) file)
      else concat (map (candidates_in lower cwd file) ([] # map unquoted (entries path))))"

lemma set_candidate:
  "set (candidate lower cwd d name ext) \<subseteq> {BACKSLASH, DOT} \<union> set cwd \<union> set d \<union> set name \<union> set ext"
proof -
  have join: "set (join a b) \<subseteq> {BACKSLASH} \<union> set a \<union> set b" for a b by (auto simp: join_def)
  have "set (resolve lower cwd d) \<subseteq> {BACKSLASH} \<union> set cwd \<union> set d"
    unfolding resolve_def using join [of cwd d] join [of cwd "drop 2 d"] join [of "take 2 cwd" d]
      set_take_subset [of 2 cwd] set_drop_subset [of 2 d]
    by (simp only: split: if_split) blast
  moreover have "set (add_extension name ext) \<subseteq> {DOT} \<union> set name \<union> set ext" by (auto simp: add_extension_def)
  ultimately show ?thesis unfolding candidate_def using join [of "resolve lower cwd d" "add_extension name ext"] by blast
qed

lemma takeWhile_terminator: "0 \<notin> set s \<Longrightarrow> takeWhile (\<lambda>c. c \<noteq> (0 :: wchar)) (s @ [0]) = s"
  by (simp add: takeWhile_append takeWhile_eq_all_conv)

lemma join_test_candidate:
  assumes n: "n \<le> length dir" and cwd: "2 \<le> length cwd"
    and size: "length cwd + n + length name + length ext < 2 ^ 62"
    and zeros: "0 \<notin> set dir \<union> set cwd \<union> set name \<union> set ext"
  shows "processx__search_path_join_test lower attrs dir (of_nat n) name ext cwd
    = Inr (let c = candidate lower cwd (take n dir) name ext in if is_program attrs c then Some c else None)"
proof -
  have n63: "n < 2 ^ 63" using size by simp
  obtain cl dir' m where part: "cwd_part lower cwd dir (of_nat n) = (cl, dir', of_nat m)"
    and b: "cl \<le> length cwd" "m \<le> length dir'" "m \<le> n" "set dir' \<subseteq> set dir"
    and r: "resolve lower cwd (take n dir) = join (take cl cwd) (take m dir')"
    using cwd_part_resolve [OF n n63 cwd, of lower] by blast
  have "joined_path lower dir (of_nat n) name ext cwd = Inr (candidate lower cwd (take n dir) name ext @ [0])"
    unfolding candidate_def r by (rule joined_path_fits [OF part]) (use b size zeros in auto)
  moreover have "0 \<notin> set (candidate lower cwd (take n dir) name ext)"
    using set_candidate [of lower cwd "take n dir" name ext] zeros by (auto dest: in_set_takeD)
  ultimately show ?thesis
    unfolding processx__search_path_join_test_def by (simp add: Let_def takeWhile_terminator)
qed

lemma COM_EXE: "0 \<notin> set COM" "0 \<notin> set EXE" "length COM = 3" "length EXE = 3"
  by (simp_all add: COM_def EXE_def)

lemma walk_ext_candidates:
  assumes n: "n \<le> length dir" and cwd: "2 \<le> length cwd"
    and size: "length cwd + n + length name + 3 < 2 ^ 62"
    and zeros: "0 \<notin> set dir \<union> set cwd \<union> set name"
  shows "processx__path_search_walk_ext lower attrs dir (of_nat n) name cwd (has_extension name)
    = Inr (find (is_program attrs) (candidates_in lower cwd name (take n dir)))"
proof -
  have test: "processx__search_path_join_test lower attrs dir (of_nat n) name ext cwd
      = Inr (let c = candidate lower cwd (take n dir) name ext in if is_program attrs c then Some c else None)"
    if "ext \<in> {[], COM, EXE}" for ext
    using that size zeros COM_EXE by (intro join_test_candidate [OF n cwd]) auto
  show ?thesis
    by (simp add: processx__path_search_walk_ext_def test or_try_def candidates_in_def extensions_def Let_def)
qed

lemma find_append: "find P (xs @ ys) = (case find P xs of None \<Rightarrow> find P ys | Some x \<Rightarrow> Some x)"
  by (induction xs) auto

lemma pieces_unfold:
  "pieces s = takeWhile (\<lambda>c. c \<noteq> SEMICOLON) s # (case dropWhile (\<lambda>c. c \<noteq> SEMICOLON) s of [] \<Rightarrow> [] | _ # r \<Rightarrow> pieces r)"
  by (induction s) auto

lemma adjust_quotes_unquoted:
  assumes len: "0 < len" "len \<le> length s" "len < 2 ^ 63" and e: "take len s \<notin> {[QUOTE], [APOSTROPHE]}"
  obtains d m where "adjust_quotes s len = (d, of_nat m)" and "m \<le> length d" and "take m d = unquoted (take len s)"
    and "set d \<subseteq> set s" and "length d \<le> length s"
proof -
  define quoted where "quoted \<longleftrightarrow> unit_at s 0 \<in> {QUOTE, APOSTROPHE}"
  define d where "d = (if quoted then tl s else s)"
  define k where "k = (if quoted then len - 1 else len)"
  define v where "v = (if hd (take len s) \<in> {QUOTE, APOSTROPHE} then tl (take len s) else take len s)"
  have s: "s \<noteq> []" using len by auto
  have hd: "hd (take len s) = unit_at s 0" using len s by (simp add: unit_at_def hd_conv_nth)
  have v: "v = take k d" using s by (cases s) (auto simp: v_def hd d_def k_def quoted_def unit_at_def take_Cons' tl_take)
  have k: "k \<le> length d" "k < 2 ^ 63" "k \<le> len" using len by (auto simp: k_def d_def)
  have "k \<noteq> 0"
  proof
    assume "k = 0"
    with len have "len = 1" "quoted" by (auto simp: k_def split: if_splits)
    with s e show False by (cases s) (auto simp: quoted_def unit_at_def)
  qed
  have w: "(if quoted then of_nat len - 1 else of_nat len :: 64 word) = of_nat k" using len(1) by (simp add: k_def)
  have k0: "(of_nat k :: 64 word) \<noteq> 0" using \<open>k \<noteq> 0\<close> k(2) by (simp add: word_of_nat_eq_0_iff nat_dvd_not_less)
  have w1: "(of_nat k - 1 :: 64 word) = of_nat (k - 1)" using \<open>k \<noteq> 0\<close> by simp
  have last: "unit_at d (unat (of_nat k - 1 :: 64 word)) = last v"
  proof -
    have "k - 1 < 2 ^ 64" using k(2) by simp
    then have "unat (of_nat (k - 1) :: 64 word) = k - 1" by (simp only: unat_of_nat) (simp add: take_bit_nat_eq_self)
    moreover have "last v = v ! (k - 1)" using k(1) \<open>k \<noteq> 0\<close> v by (subst last_conv_nth) auto
    moreover have "k - 1 < length d" "k - 1 < k" using k(1) \<open>k \<noteq> 0\<close> by arith+
    ultimately show ?thesis by (simp only: w1 unit_at_def v nth_take if_True)
  qed
  have a: "adjust_quotes s len = (d, if last v \<in> {QUOTE, APOSTROPHE} then of_nat (k - 1) else of_nat k)"
    unfolding adjust_quotes_def Let_def quoted_def [symmetric] d_def [symmetric] w w1 last [unfolded w1] if_not_P [OF k0] ..
  have u: "unquoted (take len s) = (if last v \<in> {QUOTE, APOSTROPHE} then take (k - 1) d else take k d)"
  proof -
    have "butlast v = take (k - 1) d" "v \<noteq> []" using \<open>k \<noteq> 0\<close> k(1) v by (auto simp: butlast_take)
    then show ?thesis unfolding unquoted_def v_def [symmetric] Let_def by (simp add: v)
  qed
  have ds: "set d \<subseteq> set s" "length d \<le> length s" using s by (auto simp: d_def dest: list.set_sel(2))
  show thesis
  proof (cases "last v \<in> {QUOTE, APOSTROPHE}")
    case True
    then show ?thesis using that [of d "k - 1"] a u k ds by simp
  next
    case False
    then show ?thesis using that [of d k] a u k ds by simp
  qed
qed

lemma path_loop_finds:
  assumes walk: "\<And>d m. m \<le> length d \<Longrightarrow> length d \<le> N \<Longrightarrow> set d \<subseteq> Z \<Longrightarrow> walk d (of_nat m) = Inr (find P (g (take m d)))"
    and "length rest \<le> N" and N: "N < 2 ^ 63" and "set rest \<subseteq> Z"
    and "\<forall>e \<in> set (pieces (if \<not> at_start \<or> hd rest = SEMICOLON then tl rest else rest)). e \<notin> {[QUOTE], [APOSTROPHE]}"
  shows "path_loop walk at_start rest
    = Inr (find P (concat (map g (map unquoted
        (if rest = [] then [] else entries (if \<not> at_start \<or> hd rest = SEMICOLON then tl rest else rest))))))"
  using assms(2,4,5)
proof (induction "length rest" arbitrary: at_start rest rule: less_induct)
  case less
  show ?case
  proof (cases "rest = []")
    case True
    then show ?thesis by (simp add: path_loop.simps)
  next
    case False
    define s where "s = (if \<not> at_start \<or> hd rest = SEMICOLON then tl rest else rest)"
    define e where "e = takeWhile (\<lambda>c. c \<noteq> SEMICOLON) s"
    define r where "r = dropWhile (\<lambda>c. c \<noteq> SEMICOLON) s"
    have s_er: "s = e @ r" by (simp add: e_def r_def)
    have len: "length s - length r = length e" by (simp add: s_er)
    have s_rest: "length s \<le> length rest" "set s \<subseteq> set rest" using False by (auto simp: s_def dest: list.set_sel(2))
    have shorter: "length r < length rest" unfolding r_def s_def using False by (rule dir_end_shorter)
    have pieces: "pieces s = e # (if r = [] then [] else pieces (tl r))"
      using pieces_unfold [of s, folded e_def r_def] by (simp split: list.splits)
    note quotes = less.prems(3) [folded s_def, unfolded pieces]
    have IH: "path_loop walk False r = Inr (find P (concat (map g (map unquoted (if r = [] then [] else entries (tl r))))))"
    proof (cases "r = []")
      case False
      then show ?thesis
        using less.hyps [OF shorter, of False] less.prems s_rest quotes by (auto simp: s_er)
    qed (simp add: path_loop.simps)
    have entries: "entries s = (if e = [] then [] else [e]) @ (if r = [] then [] else entries (tl r))"
      by (simp add: entries_def pieces)
    have loop: "path_loop walk at_start rest =
      (if length e = 0 then path_loop walk False r
       else case adjust_quotes s (length e) of (d, n) \<Rightarrow> or_try (walk d n) (path_loop walk False r))"
      by (subst path_loop.simps) (simp only: False if_False Let_def s_def [symmetric] r_def [symmetric] len)
    have goal: "(if rest = [] then [] else entries (if \<not> at_start \<or> hd rest = SEMICOLON then tl rest else rest)) = entries s"
      by (simp add: s_def False)
    show ?thesis unfolding goal
    proof (cases "e = []")
      case True
      then show "path_loop walk at_start rest = Inr (find P (concat (map g (map unquoted (entries s)))))"
        using loop IH entries by simp
    next
      case e: False
      have "0 < length e" "length e \<le> length s" "length e < 2 ^ 63" "take (length e) s \<notin> {[QUOTE], [APOSTROPHE]}"
        using e s_rest less.prems(1) N quotes by (auto simp: s_er)
      then obtain d m where d: "adjust_quotes s (length e) = (d, of_nat m)" "m \<le> length d" "take m d = unquoted e"
        "set d \<subseteq> set s" "length d \<le> length s"
        by (rule adjust_quotes_unquoted) (simp add: s_er)
      have "walk d (of_nat m) = Inr (find P (g (unquoted e)))"
        using walk [OF d(2)] d s_rest less.prems(1,2) by auto
      then show "path_loop walk at_start rest = Inr (find P (concat (map g (map unquoted (entries s)))))"
        using loop IH entries e d(1) by (simp add: or_try_def find_append split: option.splits)
    qed
  qed
qed

lemma file_name_suffix: "\<exists>p. file = p @ file_name file"
proof
  show "file = rev (dropWhile (\<lambda>c. c \<notin> {BACKSLASH, SLASH, COLON}) (rev file)) @ file_name file"
    unfolding file_name_def rev_append [symmetric] takeWhile_dropWhile_id rev_rev_ident ..
qed


text \<open>
  A quoted entry of the path where there is no such program, and one where it is.
\<close>

definition utf16 :: "string \<Rightarrow> wstring" where
  "utf16 s = map (\<lambda>c. word_of_nat (of_char c)) s"

definition sample_cwd :: wstring where "sample_cwd = utf16 (''C:'' @ [CHR 0x5C])"
definition sample_path :: wstring where "sample_path = utf16 (CHR 0x22 # ''D:'' @ [CHR 0x5C, CHR 0x22] @ '';E:/'')"
definition sample_attrs :: "wstring \<Rightarrow> 32 word" where
  "sample_attrs s = (if s = utf16 ''E:/R.exe'' then 0x20 else if s = utf16 ''E:/R.com'' then 0x10 else - 1)"

lemmas path_eval = sample_cwd_def sample_path_def sample_attrs_def utf16_def path_char_defs


section \<open>An entry that is one quote\<close>

lemma overflow_propagates: "wcsncpy cap s n (Inl e) = Inl e" "put_after cap b test c (Inl e) = Inl e"
  by (simp_all add: wcsncpy_def put_after_def)

lemma wcsncpy_too_long: "cap < n \<Longrightarrow> wcsncpy cap s n buf = Inl BufferOverflow"
  by (cases buf) (auto simp: wcsncpy_def intro: path_fault.exhaust)

lemma underflow_overflows:
  assumes "2 \<le> length cwd" and "length cwd + length name + length ext < 2 ^ 62"
  shows "processx__search_path_join_test lower attrs dir (- 1) name ext cwd = Inl BufferOverflow"
proof -
  obtain cl dir' n where part: "cwd_part lower cwd dir (- 1) = (cl, dir', n)" by (meson prod_cases3)
  then have n: "n = - 1 \<or> n = - 3" and cl: "cl \<le> length cwd"
    using assms(1) by (auto simp: cwd_part_def split: if_splits)
  define cap where "cap = unat (of_nat cl + 1 + n + 1 + of_nat (length name) + 1 + of_nat (length ext) + 1 :: 64 word)"
  have u: "unat n = 2 ^ 64 - 1 \<or> unat n = 2 ^ 64 - 3" using n by (auto simp: unsigned_minus_1_eq_mask mask_eq_exp_minus_1)
  have "of_nat cl + 1 + n + 1 + of_nat (length name) + 1 + of_nat (length ext) + 1
      = (of_nat (cl + length name + length ext + (if n = - 1 then 3 else 1)) :: 64 word)" using n by auto
  then have "cap \<le> cl + length name + length ext + 3"
    unfolding cap_def using assms(2) cl by (simp only: unat_of_nat) (simp add: take_bit_nat_eq_self)
  then have "cap < unat n" using assms(2) cl u by auto
  then have "joined_path lower dir (- 1) name ext cwd = Inl BufferOverflow"
    unfolding joined_path_def part prod.case Let_def cap_def [symmetric] by (simp add: wcsncpy_too_long overflow_propagates)
  then show ?thesis by (simp add: processx__search_path_join_test_def)
qed

text \<open>C35: a path that starts with an entry of one quote character makes the search write past its buffer, unless the
  program is in the working directory: the length of the entry becomes zero less one.\<close>

theorem quote_entry_overflows:
  assumes "2 \<le> length cwd" and "0 \<notin> set file \<union> set cwd" and "length file + length cwd < 2 ^ 60"
    and "file_name file = file" and "file \<noteq> []" and "file \<noteq> [DOT]"
    and "find (is_program attrs) (candidates_in lower cwd file []) = None"
    and "rest = [] \<or> hd rest = SEMICOLON"
  shows "processx__search_path lower attrs file cwd (QUOTE # rest) = Inl BufferOverflow"
proof -
  have start: "processx__path_search_walk_ext lower attrs [] 0 file cwd (has_extension file) = Inr None"
    using walk_ext_candidates [of 0 "[]" cwd "file" lower attrs] assms(1-3,7) by simp
  have walk: "processx__path_search_walk_ext lower attrs dir (- 1) file cwd (has_extension file) = Inl BufferOverflow" for dir
    using assms(1,3) by (simp add: processx__path_search_walk_ext_def underflow_overflows COM_EXE or_try_def)
  have ends: "dropWhile (\<lambda>c. c \<noteq> SEMICOLON) rest = rest" using assms(8) by (cases rest) auto
  have "adjust_quotes (QUOTE # rest) 1 = (rest, - 1)" by (simp add: adjust_quotes_def unit_at_def Let_def)
  then have "path_loop (\<lambda>dir len. processx__path_search_walk_ext lower attrs dir len file cwd (has_extension file)) True (QUOTE # rest)
      = Inl BufferOverflow"
    by (subst path_loop.simps) (simp add: ends walk or_try_def Let_def)
  with start assms(4-6) show ?thesis by (simp add: processx__search_path_def or_try_def)
qed

theorem quote_entry_overflows_witness:
  "processx__search_path id (\<lambda>_. - 1) (utf16 ''R'') sample_cwd (QUOTE # utf16 '';E:'') = Inl BufferOverflow"
proof (rule quote_entry_overflows)
  show "find (is_program (\<lambda>_. - 1)) (candidates_in id sample_cwd (utf16 ''R'') []) = None"
    by (simp add: find_None_iff is_program_def INVALID_FILE_ATTRIBUTES_def)
qed (simp_all add: path_eval file_name_def)

end
