(* ===== verification/Win_Env.thy ===== *)
theory Win_Env
  imports Win_Args "HOL-Library.List_Lexorder" "HOL-Library.Multiset"
begin

text \<open>
  The environment block of a process on Windows (\<open>processx__make_program_env\<close>, \<open>env_strncmp\<close> and
  \<open>processx__add_tree_id_env\<close> in src/src/win/processx.c): the given variables with the one of the
  process tree, sorted by name, and the variables Windows needs taken over from R where they are missing.
\<close>

section \<open>Names\<close>

definition EQUALS :: wchar where "EQUALS = 0x3D"

definition wide :: "string \<Rightarrow> wstring" where
  "wide s = map (\<lambda>c. word_of_nat (of_char c)) s"

definition required_vars :: "wstring list" where
  "required_vars = map wide [''HOMEDRIVE'', ''HOMEPATH'', ''LOGONSERVER'', ''PATH'', ''SYSTEMDRIVE'', ''SYSTEMROOT'',
     ''TEMP'', ''USERDOMAIN'', ''USERNAME'', ''USERPROFILE'', ''WINDIR'']"

text \<open>An error code returned, an R error thrown, or a write past the allocated block.\<close>

datatype env_error = ErrorCode nat | Thrown | Overflow

text \<open>The last loop of \<open>env_strncmp\<close>; the two strings have their terminators.\<close>

fun wide_cmp :: "wstring \<Rightarrow> wstring \<Rightarrow> int" where
  "wide_cmp [] [] = 0"
| "wide_cmp [] (b # B) = (if 0 < b then - 1 else 0)"
| "wide_cmp (a # A) [] = (if 0 < a then 1 else 0)"
| "wide_cmp (a # A) (b # B) = (if a < b then - 1 else if b < a then 1 else if a = 0 then 0 else wide_cmp A B)"

text \<open>
  The name is what comes before the first equals sign, or has \<open>na - 1\<close> units when \<open>na\<close> is given.
  \<open>lcmap\<close> is \<open>LCMapStringW\<close>, folding to upper case; it may fail.
\<close>

definition env_strncmp :: "(wstring \<Rightarrow> wstring option) \<Rightarrow> wstring \<Rightarrow> nat option \<Rightarrow> wstring \<Rightarrow> env_error + int" where
  "env_strncmp lcmap a na b =
     (let a_name = (case na of None \<Rightarrow> takeWhile (\<lambda>c. c \<noteq> EQUALS) a | Some n \<Rightarrow> take (n - 1) a);
          b_name = takeWhile (\<lambda>c. c \<noteq> EQUALS) b
      in case lcmap a_name of
           None \<Rightarrow> Inl Thrown
         | Some A \<Rightarrow> (case lcmap b_name of None \<Rightarrow> Inl Thrown | Some B \<Rightarrow> Inr (wide_cmp A B)))"

section \<open>The given variables\<close>

text \<open>
  The first two passes: the entries with an equals sign, and the tree id at the end, as UTF-16, with the
  size they need.
\<close>

fun convert_env :: "(string \<Rightarrow> nat + wstring) \<Rightarrow> string list \<Rightarrow> env_error + wstring list" where
  "convert_env to_utf16 [] = Inr []"
| "convert_env to_utf16 (s # env_block) =
     (if CHR ''='' \<in> set s then
        (case to_utf16 s of
           Inl e \<Rightarrow> Inl (ErrorCode e)
         | Inr w \<Rightarrow> (case convert_env to_utf16 env_block of Inl e \<Rightarrow> Inl e | Inr ws \<Rightarrow> Inr (w # ws)))
      else convert_env to_utf16 env_block)"

definition env_copy :: "(string \<Rightarrow> nat + wstring) \<Rightarrow> string list \<Rightarrow> string \<Rightarrow> env_error + wstring list" where
  "env_copy to_utf16 env_block tree_id =
     (case convert_env to_utf16 env_block of
        Inl e \<Rightarrow> Inl e
      | Inr ws \<Rightarrow> (case to_utf16 tree_id of Inl e \<Rightarrow> Inl (ErrorCode e) | Inr w \<Rightarrow> Inr (ws @ [w])))"

definition copy_len :: "wstring list \<Rightarrow> nat" where
  "copy_len ws = sum_list (map (\<lambda>w. length w + 1) ws)"

text \<open>
  \<open>qsort\<close> with \<open>qsort_wcscmp\<close>. An error in a comparison leaves the function, and every entry is
  compared when there are two or more.
\<close>

definition qsort_wcscmp :: "(wstring \<Rightarrow> wstring option) \<Rightarrow> wstring \<Rightarrow> wstring \<Rightarrow> int" where
  "qsort_wcscmp lcmap a b = (case env_strncmp lcmap a None b of Inl _ \<Rightarrow> 0 | Inr r \<Rightarrow> r)"

definition sort_env ::
  "(wstring \<Rightarrow> wstring option) \<Rightarrow> ((wstring \<Rightarrow> wstring \<Rightarrow> int) \<Rightarrow> wstring list \<Rightarrow> wstring list)
    \<Rightarrow> wstring list \<Rightarrow> env_error + wstring list" where
  "sort_env lcmap qsort ws =
     (if length ws \<ge> 2 \<and> list_ex (\<lambda>w. lcmap (takeWhile (\<lambda>c. c \<noteq> EQUALS) w) = None) ws then Inl Thrown
      else Inr (qsort (qsort_wcscmp lcmap) ws))"

section \<open>The required variables\<close>

text \<open>
  Which comes next, a required variable that is missing (negative), or a given one. \<open>E_V\<close> keeps the name
  with an equals sign and the length of both.
\<close>

definition next_cmp :: "(wstring \<Rightarrow> wstring option) \<Rightarrow> wstring \<Rightarrow> wstring list \<Rightarrow> env_error + int" where
  "next_cmp lcmap required ptr_copy =
     (case ptr_copy of
        [] \<Rightarrow> Inr (- 1)
      | p # _ \<Rightarrow> env_strncmp lcmap (required @ [EQUALS]) (Some (length required + 1)) p)"

text \<open>
  The third pass: the sizes of the values of missing variables (0 where R has no such variable), and
  what they add to \<open>env_len\<close>. \<open>getenv\<close> is \<open>GetEnvironmentVariableW\<close>, and a size counts the terminator.
\<close>

definition value_len :: "(wstring \<Rightarrow> wstring option) \<Rightarrow> wstring \<Rightarrow> nat" where
  "value_len getenv r = (case getenv r of None \<Rightarrow> 0 | Some v \<Rightarrow> length v + 1)"

function required_sizes ::
  "(wstring \<Rightarrow> wstring option) \<Rightarrow> (wstring \<Rightarrow> wstring option) \<Rightarrow> wstring list \<Rightarrow> wstring list
    \<Rightarrow> env_error + (nat list \<times> nat)" where
  "required_sizes lcmap getenv [] ptr_copy = Inr ([], 0)"
| "required_sizes lcmap getenv (r # required) ptr_copy =
     (case next_cmp lcmap r ptr_copy of
        Inl e \<Rightarrow> Inl e
      | Inr cmp \<Rightarrow>
          if cmp < 0 then
            (let var_size = value_len getenv r
             in case required_sizes lcmap getenv required ptr_copy of
                  Inl e \<Rightarrow> Inl e
                | Inr (sizes, n) \<Rightarrow>
                    Inr (var_size # sizes, (if var_size \<noteq> 0 then length r + 1 + var_size else 0) + n))
          else if cmp = 0 then
            (case required_sizes lcmap getenv required (tl ptr_copy) of
               Inl e \<Rightarrow> Inl e
             | Inr (sizes, n) \<Rightarrow> Inr (0 # sizes, n))
          else required_sizes lcmap getenv (r # required) (tl ptr_copy))"
  by pat_completeness auto

termination
  by (relation "measure (\<lambda>(_, _, required, ptr_copy). length required + length ptr_copy)") (auto simp: next_cmp_def split: list.splits)

section \<open>The block\<close>

text \<open>\<open>append_units\<close> writes at the end of what is in the block of \<open>env_len + 1\<close> units.\<close>

definition append_units :: "nat \<Rightarrow> wstring \<Rightarrow> wstring \<Rightarrow> env_error + wstring" where
  "append_units env_len dst s = (if length dst + length s \<le> env_len + 1 then Inr (dst @ s) else Inl Overflow)"

text \<open>
  A missing variable: the name and the equals sign with a terminator (\<open>wcscpy\<close>), which the value
  overwrites; \<open>GetEnvironmentVariableW\<close> returns the length it wrote, or the size it needs.
\<close>

definition put_required :: "(wstring \<Rightarrow> wstring option) \<Rightarrow> nat \<Rightarrow> wstring \<Rightarrow> nat \<Rightarrow> wstring \<Rightarrow> env_error + wstring" where
  "put_required getenv env_len r len dst =
     (if len = 0 then Inr dst
      else case append_units env_len dst (r @ [EQUALS, 0]) of
        Inl e \<Rightarrow> Inl e
      | Inr d \<Rightarrow>
          (let ptr = butlast d;
               room = env_len - length ptr;
               var_size = (case getenv r of None \<Rightarrow> 0 | Some v \<Rightarrow> if length v + 1 \<le> room then length v else length v + 1)
           in if var_size \<noteq> len - 1 then Inl Thrown
              else append_units env_len ptr (case getenv r of None \<Rightarrow> [0] | Some v \<Rightarrow> v @ [0])))"

function write_env ::
  "(wstring \<Rightarrow> wstring option) \<Rightarrow> (wstring \<Rightarrow> wstring option) \<Rightarrow> nat \<Rightarrow> wstring list \<Rightarrow> nat list \<Rightarrow> wstring list
    \<Rightarrow> wstring \<Rightarrow> env_error + wstring" where
  "write_env lcmap getenv env_len required sizes ptr_copy dst =
     (if ptr_copy = [] \<and> required = [] then append_units env_len dst [0]
      else
        case (if required = [] then Inr 1 else next_cmp lcmap (hd required) ptr_copy) of
          Inl e \<Rightarrow> Inl e
        | Inr cmp \<Rightarrow>
            if cmp < 0 then
              (case put_required getenv env_len (hd required) (hd sizes) dst of
                 Inl e \<Rightarrow> Inl e
               | Inr d \<Rightarrow> write_env lcmap getenv env_len (tl required) (tl sizes) ptr_copy d)
            else
              (case append_units env_len dst (hd ptr_copy @ [0]) of
                 Inl e \<Rightarrow> Inl e
               | Inr d \<Rightarrow>
                   if cmp = 0 then write_env lcmap getenv env_len (tl required) (tl sizes) (tl ptr_copy) d
                   else write_env lcmap getenv env_len required sizes (tl ptr_copy) d))"
  by pat_completeness auto

termination
  by (relation "measure (\<lambda>(_, _, _, required, _, ptr_copy, _). length required + length ptr_copy)")
    (auto simp: next_cmp_def neq_Nil_conv split: list.splits if_splits)

declare write_env.simps [simp del]

definition processx__make_program_env ::
  "(wstring \<Rightarrow> wstring option) \<Rightarrow> (string \<Rightarrow> nat + wstring) \<Rightarrow> ((wstring \<Rightarrow> wstring \<Rightarrow> int) \<Rightarrow> wstring list \<Rightarrow> wstring list)
    \<Rightarrow> (wstring \<Rightarrow> wstring option) \<Rightarrow> string list \<Rightarrow> string \<Rightarrow> env_error + wstring" where
  "processx__make_program_env lcmap to_utf16 qsort getenv env_block tree_id =
     (case env_copy to_utf16 env_block tree_id of
        Inl e \<Rightarrow> Inl e
      | Inr ws \<Rightarrow>
          (case sort_env lcmap qsort ws of
             Inl e \<Rightarrow> Inl e
           | Inr ptr_copy \<Rightarrow>
               (case required_sizes lcmap getenv required_vars ptr_copy of
                  Inl e \<Rightarrow> Inl e
                | Inr (sizes, n) \<Rightarrow> write_env lcmap getenv (copy_len ws + n) required_vars sizes ptr_copy [])))"

section \<open>Adding the tree id\<close>

text \<open>Without a given environment, that of R is copied: \<open>env\<close> are the units of \<open>GetEnvironmentStringsW\<close>.\<close>

function env_strings_len :: "wstring \<Rightarrow> nat" where
  "env_strings_len ptr =
     (if ptr = [] \<or> hd ptr = 0 then 0
      else let n = length (takeWhile (\<lambda>c. c \<noteq> 0) ptr) + 1 in n + env_strings_len (drop n ptr))"
  by pat_completeness auto

termination by (relation "measure length") auto

declare env_strings_len.simps [simp del]

definition processx__add_tree_id_env :: "(string \<Rightarrow> nat + wstring) \<Rightarrow> nat + wstring \<Rightarrow> string \<Rightarrow> env_error + wstring" where
  "processx__add_tree_id_env to_utf16 env_strings ctree_id =
     (case env_strings of
        Inl e \<Rightarrow> Inl (ErrorCode e)
      | Inr env \<Rightarrow>
          (case to_utf16 ctree_id of
             Inl e \<Rightarrow> Inl (ErrorCode e)
           | Inr tree_id \<Rightarrow> Inr (take (env_strings_len env) env @ tree_id @ [0] @ [0])))"

section \<open>What the block is\<close>

text \<open>A block of variables, and the merge of the sorted variables with the required ones.\<close>

definition block :: "wstring list \<Rightarrow> wstring" where
  "block vars = concat (map (\<lambda>v. v @ [0]) vars)"

definition key :: "(wstring \<Rightarrow> wstring option) \<Rightarrow> wstring \<Rightarrow> wstring" where
  "key lcmap w = the (lcmap (takeWhile (\<lambda>c. c \<noteq> EQUALS) w))"

definition inherited :: "(wstring \<Rightarrow> wstring option) \<Rightarrow> wstring \<Rightarrow> wstring list" where
  "inherited getenv r = (case getenv r of None \<Rightarrow> [] | Some v \<Rightarrow> [r @ EQUALS # v])"

fun merge_env :: "(wstring \<Rightarrow> wstring option) \<Rightarrow> (wstring \<Rightarrow> wstring option) \<Rightarrow> wstring list \<Rightarrow> wstring list \<Rightarrow> wstring list" where
  "merge_env lcmap getenv [] ps = ps"
| "merge_env lcmap getenv (r # rs) [] = inherited getenv r @ merge_env lcmap getenv rs []"
| "merge_env lcmap getenv (r # rs) (p # ps) =
     (if r < key lcmap p then inherited getenv r @ merge_env lcmap getenv rs (p # ps)
      else if r = key lcmap p then p # merge_env lcmap getenv rs ps
      else p # merge_env lcmap getenv (r # rs) ps)"

lemma wide_cmp_order:
  "0 \<notin> set A \<Longrightarrow> 0 \<notin> set B \<Longrightarrow> wide_cmp A B = (if A < B then - 1 else if A = B then 0 else 1)"
proof (induction A B rule: wide_cmp.induct)
  case (2 b B)
  then have "0 < b" by (simp add: word_gt_0)
  then show ?case by simp
next
  case (3 a A)
  then have "0 < a" by (simp add: word_gt_0)
  then show ?case by simp
qed auto

definition required_ok :: "(wstring \<Rightarrow> wstring option) \<Rightarrow> wstring \<Rightarrow> bool" where
  "required_ok lcmap r \<longleftrightarrow> lcmap r = Some r \<and> 0 \<notin> set r \<and> EQUALS \<notin> set r"

definition given_ok :: "(wstring \<Rightarrow> wstring option) \<Rightarrow> wstring \<Rightarrow> bool" where
  "given_ok lcmap p \<longleftrightarrow> lcmap (takeWhile (\<lambda>c. c \<noteq> EQUALS) p) = Some (key lcmap p) \<and> 0 \<notin> set (key lcmap p)"

lemma next_cmp_key:
  assumes "required_ok lcmap r" and "given_ok lcmap p"
  shows "next_cmp lcmap r (p # ps) = Inr (if r < key lcmap p then - 1 else if r = key lcmap p then 0 else 1)"
  using assms wide_cmp_order [of r "key lcmap p"]
  by (simp add: next_cmp_def env_strncmp_def required_ok_def given_ok_def Let_def)

lemma append_units_fits: "length dst + length s \<le> env_len + 1 \<Longrightarrow> append_units env_len dst s = Inr (dst @ s)"
  by (simp add: append_units_def)

lemma put_required_inherited:
  assumes "length dst + length (block (inherited getenv r)) \<le> env_len"
  shows "put_required getenv env_len r (value_len getenv r) dst = Inr (dst @ block (inherited getenv r))"
proof (cases "getenv r")
  case None
  then show ?thesis by (simp add: put_required_def value_len_def inherited_def block_def)
next
  case (Some v)
  with assms have fits: "length dst + length r + length v + 2 \<le> env_len" by (simp add: inherited_def block_def)
  then have "length v + 1 \<le> env_len - (length dst + length r + 1)" by arith
  with Some fits show ?thesis
    by (simp add: put_required_def value_len_def inherited_def block_def append_units_fits butlast_append)
qed

lemma write_given:
  "length dst + length (block ps) \<le> env_len \<Longrightarrow>
    write_env lcmap getenv env_len [] sizes ps dst = Inr (dst @ block ps @ [0])"
proof (induction ps arbitrary: dst)
  case Nil
  then show ?case by (subst write_env.simps) (simp add: append_units_fits block_def)
next
  case (Cons p ps)
  from Cons.prems have "write_env lcmap getenv env_len [] sizes ps (dst @ p @ [0]) = Inr ((dst @ p @ [0]) @ block ps @ [0])"
    by (intro Cons.IH) (simp add: block_def)
  with Cons.prems show ?case by (subst write_env.simps) (simp add: append_units_fits block_def)
qed

lemma length_inherited:
  "length (block (inherited getenv r)) = (if value_len getenv r \<noteq> 0 then length r + 1 + value_len getenv r else 0)"
  by (simp add: inherited_def value_len_def block_def split: option.splits)

lemma block_append: "block (xs @ ys) = block xs @ block ys"
  by (simp add: block_def)

lemma write_merge:
  assumes "\<forall>r \<in> set rs. required_ok lcmap r" and "\<forall>p \<in> set ps. given_ok lcmap p"
  shows "\<exists>sizes n. required_sizes lcmap getenv rs ps = Inr (sizes, n) \<and>
    length (block (merge_env lcmap getenv rs ps)) = copy_len ps + n \<and>
    (\<forall>dst. length dst + length (block (merge_env lcmap getenv rs ps)) \<le> env_len \<longrightarrow>
      write_env lcmap getenv env_len rs sizes ps dst = Inr (dst @ block (merge_env lcmap getenv rs ps) @ [0]))"
  using assms
proof (induction lcmap getenv rs ps rule: merge_env.induct)
  case (1 lcmap getenv ps)
  have "length (block ps) = copy_len ps" by (simp add: block_def copy_len_def length_concat comp_def)
  then show ?case by (simp add: write_given)
next
  case (2 lcmap getenv r rs)
  then obtain sizes n where s: "required_sizes lcmap getenv rs [] = Inr (sizes, n)"
    "length (block (merge_env lcmap getenv rs [])) = copy_len [] + n"
    and w: "\<And>dst. length dst + length (block (merge_env lcmap getenv rs [])) \<le> env_len \<Longrightarrow>
      write_env lcmap getenv env_len rs sizes [] dst = Inr (dst @ block (merge_env lcmap getenv rs []) @ [0])"
    by auto
  have "write_env lcmap getenv env_len (r # rs) (value_len getenv r # sizes) [] dst = Inr (dst @ block (merge_env lcmap getenv (r # rs) []) @ [0])"
    if "length dst + length (block (merge_env lcmap getenv (r # rs) [])) \<le> env_len" for dst
    using that w [of "dst @ block (inherited getenv r)"]
    by (subst write_env.simps) (simp add: next_cmp_def put_required_inherited block_append)
  with s show ?case by (simp add: next_cmp_def block_append length_inherited Let_def)
next
  case (3 lcmap getenv r rs p ps)
  then have cmp: "next_cmp lcmap r (p # ps) = Inr (if r < key lcmap p then - 1 else if r = key lcmap p then 0 else 1)"
    by (intro next_cmp_key) auto
  consider "r < key lcmap p" | "r = key lcmap p" | "key lcmap p < r" by (rule linorder_cases)
  then show ?case
  proof cases
    case less: 1
    with 3 obtain sizes n where s: "required_sizes lcmap getenv rs (p # ps) = Inr (sizes, n)"
      "length (block (merge_env lcmap getenv rs (p # ps))) = copy_len (p # ps) + n"
      and w: "\<And>dst. length dst + length (block (merge_env lcmap getenv rs (p # ps))) \<le> env_len \<Longrightarrow>
        write_env lcmap getenv env_len rs sizes (p # ps) dst = Inr (dst @ block (merge_env lcmap getenv rs (p # ps)) @ [0])"
      by auto
    have "write_env lcmap getenv env_len (r # rs) (value_len getenv r # sizes) (p # ps) dst
        = Inr (dst @ block (merge_env lcmap getenv (r # rs) (p # ps)) @ [0])"
      if "length dst + length (block (merge_env lcmap getenv (r # rs) (p # ps))) \<le> env_len" for dst
      using that less w [of "dst @ block (inherited getenv r)"]
      by (subst write_env.simps) (simp add: cmp put_required_inherited block_append)
    with s less show ?thesis by (simp add: cmp block_append length_inherited Let_def)
  next
    case equal: 2
    then have cmp: "next_cmp lcmap r (p # ps) = Inr 0" using cmp by simp
    from 3 equal obtain sizes n where s: "required_sizes lcmap getenv rs ps = Inr (sizes, n)"
      "length (block (merge_env lcmap getenv rs ps)) = copy_len ps + n"
      and w: "\<And>dst. length dst + length (block (merge_env lcmap getenv rs ps)) \<le> env_len \<Longrightarrow>
        write_env lcmap getenv env_len rs sizes ps dst = Inr (dst @ block (merge_env lcmap getenv rs ps) @ [0])"
      by auto
    have "write_env lcmap getenv env_len (r # rs) (0 # sizes) (p # ps) dst
        = Inr (dst @ block (merge_env lcmap getenv (r # rs) (p # ps)) @ [0])"
      if "length dst + length (block (merge_env lcmap getenv (r # rs) (p # ps))) \<le> env_len" for dst
      using that w [of "dst @ p @ [0]"]
      by (subst write_env.simps) (simp add: cmp append_units_fits block_def flip: equal)
    with s show ?thesis by (simp add: cmp block_def copy_len_def Let_def flip: equal)
  next
    case greater: 3
    then have ne: "\<not> r < key lcmap p" "r \<noteq> key lcmap p" by auto
    with 3 ne obtain sizes n where s: "required_sizes lcmap getenv (r # rs) ps = Inr (sizes, n)"
      "length (block (merge_env lcmap getenv (r # rs) ps)) = copy_len ps + n"
      and w: "\<And>dst. length dst + length (block (merge_env lcmap getenv (r # rs) ps)) \<le> env_len \<Longrightarrow>
        write_env lcmap getenv env_len (r # rs) sizes ps dst = Inr (dst @ block (merge_env lcmap getenv (r # rs) ps) @ [0])"
      by auto
    have "write_env lcmap getenv env_len (r # rs) sizes (p # ps) dst
        = Inr (dst @ block (merge_env lcmap getenv (r # rs) (p # ps)) @ [0])"
      if "length dst + length (block (merge_env lcmap getenv (r # rs) (p # ps))) \<le> env_len" for dst
      using that w [of "dst @ p @ [0]"]
      by (subst write_env.simps) (simp add: cmp ne append_units_fits block_def)
    with s show ?thesis by (simp add: cmp ne block_def copy_len_def)
  qed
qed

lemma set_merge_env:
  "v \<in> set (merge_env lcmap getenv rs ps) \<Longrightarrow> v \<in> set ps \<or> (\<exists>r \<in> set rs. v \<in> set (inherited getenv r))"
  by (induction lcmap getenv rs ps rule: merge_env.induct) (auto split: if_splits)

lemma key_inherited:
  assumes "required_ok lcmap r" and "v \<in> set (inherited getenv r)"
  shows "key lcmap v = r"
proof -
  from assms(2) obtain w where v: "v = r @ EQUALS # w" by (auto simp: inherited_def split: option.splits)
  have "takeWhile (\<lambda>c. c \<noteq> EQUALS) v = r"
    using assms(1) by (auto simp: v required_ok_def takeWhile_append takeWhile_eq_all_conv)
  with assms(1) show ?thesis by (simp add: key_def required_ok_def)
qed

lemma sorted_inherited: "required_ok lcmap r \<Longrightarrow> map (key lcmap) (inherited getenv r) = (if getenv r = None then [] else [r])"
  using key_inherited [of lcmap r _ getenv] by (auto simp: inherited_def split: option.splits)

lemma sorted_merge_env:
  assumes "\<forall>r \<in> set rs. required_ok lcmap r" and "sorted rs" and "sorted (map (key lcmap) ps)"
  shows "sorted (map (key lcmap) (merge_env lcmap getenv rs ps))"
  using assms
proof (induction lcmap getenv rs ps rule: merge_env.induct)
  case (2 lcmap getenv r rs)
  have "key lcmap v \<ge> r" if "v \<in> set (merge_env lcmap getenv rs [])" for v
    using set_merge_env [OF that] 2(2,3) key_inherited by auto
  with 2 show ?case by (auto simp: sorted_append sorted_inherited)
next
  case (3 lcmap getenv r rs p ps)
  have above: "key lcmap v \<ge> min r (key lcmap p)" if "v \<in> set (merge_env lcmap getenv xs ys)" "set xs \<subseteq> set (r # rs)" "set ys \<subseteq> set (p # ps)" for v xs ys
  proof -
    have "v \<in> set (p # ps) \<or> (\<exists>q \<in> set (r # rs). v \<in> set (inherited getenv q))"
      using set_merge_env [OF that(1)] that(2,3) by blast
    then consider "v \<in> set (p # ps)" | q where "q \<in> set (r # rs)" "v \<in> set (inherited getenv q)"
      by blast
    then show ?thesis
    proof cases
      case 1
      with 3(6) show ?thesis by (auto simp: min.coboundedI2)
    next
      case 2
      with 3(4,5) key_inherited [of lcmap q v getenv] show ?thesis by (auto simp: min.coboundedI1)
    qed
  qed
  consider "r < key lcmap p" | "r = key lcmap p" | "key lcmap p < r" by (rule linorder_cases)
  then show ?case
  proof cases
    case 1
    with 3 above [of _ rs "p # ps"] show ?thesis by (auto simp: sorted_append sorted_inherited)
  next
    case 2
    with 3 above [of _ rs ps] show ?thesis by auto
  next
    case greater: 3
    with 3 above [of _ "r # rs" ps] show ?thesis by auto
  qed
qed simp

lemma mset_merge_env:
  assumes "sorted rs" and "distinct rs" and "sorted (map (key lcmap) ps)"
  shows "mset (merge_env lcmap getenv rs ps)
    = mset ps + mset (concat (map (inherited getenv) (filter (\<lambda>r. r \<notin> key lcmap ` set ps) rs)))"
  using assms
proof (induction lcmap getenv rs ps rule: merge_env.induct)
  case (3 lcmap getenv r rs p ps)
  consider "r < key lcmap p" | "r = key lcmap p" | "key lcmap p < r" by (rule linorder_cases)
  then show ?case
  proof cases
    case 1
    then have "r \<notin> key lcmap ` set (p # ps)" using 3(6) by auto
    with 1 3 show ?thesis by simp
  next
    case 2
    then have "filter (\<lambda>q. q \<notin> key lcmap ` set (p # ps)) (r # rs) = filter (\<lambda>q. q \<notin> key lcmap ` set ps) rs"
      using 3(5) by (auto intro: filter_cong)
    with 2 3 show ?thesis by simp
  next
    case greater: 3
    then have "filter (\<lambda>q. q \<notin> key lcmap ` set (p # ps)) (r # rs) = filter (\<lambda>q. q \<notin> key lcmap ` set ps) (r # rs)"
      using 3(4) by (intro filter_cong) auto
    moreover have ne: "\<not> r < key lcmap p" "r \<noteq> key lcmap p" using greater by auto
    ultimately show ?thesis using 3(3) 3(4-6) by (simp add: ne)
  qed
qed simp_all

section \<open>Properties\<close>

text \<open>What the C standard says of \<open>qsort\<close>, for a comparison that is an ordering of the elements.\<close>

definition orders :: "('a \<Rightarrow> 'a \<Rightarrow> int) \<Rightarrow> 'a list \<Rightarrow> bool" where
  "orders f xs \<longleftrightarrow> (\<forall>a \<in> set xs. \<forall>b \<in> set xs. f a b \<le> 0 \<or> f b a \<le> 0) \<and>
     (\<forall>a \<in> set xs. \<forall>b \<in> set xs. \<forall>c \<in> set xs. f a b \<le> 0 \<and> f b c \<le> 0 \<longrightarrow> f a c \<le> 0)"

definition sorts :: "(('a \<Rightarrow> 'a \<Rightarrow> int) \<Rightarrow> 'a list \<Rightarrow> 'a list) \<Rightarrow> bool" where
  "sorts qsort \<longleftrightarrow>
     (\<forall>f xs. orders f xs \<longrightarrow> mset (qsort f xs) = mset xs \<and> sorted_wrt (\<lambda>a b. f a b \<le> 0) (qsort f xs))"

lemma required_vars_sorted: "sorted required_vars" "distinct required_vars"
  by (simp_all add: required_vars_def wide_def)

lemma required_vars_ok:
  assumes "\<forall>r \<in> set required_vars. lcmap r = Some r"
  shows "\<forall>r \<in> set required_vars. required_ok lcmap r"
proof -
  have "\<forall>r \<in> set required_vars. 0 \<notin> set r \<and> EQUALS \<notin> set r"
    by (simp add: required_vars_def wide_def EQUALS_def)
  with assms show ?thesis by (simp add: required_ok_def)
qed

lemma qsort_wcscmp_key:
  assumes "given_ok lcmap a" and "given_ok lcmap b"
  shows "qsort_wcscmp lcmap a b \<le> 0 \<longleftrightarrow> key lcmap a \<le> key lcmap b"
  using assms wide_cmp_order [of "key lcmap a" "key lcmap b"]
  by (auto simp: qsort_wcscmp_def env_strncmp_def given_ok_def Let_def)

lemma sort_env_sorted:
  assumes "sorts qsort" and ok: "\<forall>w \<in> set ws. given_ok lcmap w"
  shows "sort_env lcmap qsort ws = Inr (qsort (qsort_wcscmp lcmap) ws)"
    and "mset (qsort (qsort_wcscmp lcmap) ws) = mset ws"
    and "sorted (map (key lcmap) (qsort (qsort_wcscmp lcmap) ws))"
proof -
  have "orders (qsort_wcscmp lcmap) ws"
    using ok by (auto simp: orders_def qsort_wcscmp_key)
  with assms(1) have m: "mset (qsort (qsort_wcscmp lcmap) ws) = mset ws"
    and s: "sorted_wrt (\<lambda>a b. qsort_wcscmp lcmap a b \<le> 0) (qsort (qsort_wcscmp lcmap) ws)"
    by (auto simp: sorts_def)
  show "mset (qsort (qsort_wcscmp lcmap) ws) = mset ws" by (rule m)
  show "sort_env lcmap qsort ws = Inr (qsort (qsort_wcscmp lcmap) ws)"
    using ok by (auto simp: sort_env_def given_ok_def list_ex_iff)
  have "sorted_wrt (\<lambda>a b. key lcmap a \<le> key lcmap b) (qsort (qsort_wcscmp lcmap) ws)"
    using s by (rule sorted_wrt_mono_rel [rotated]) (use ok mset_eq_setD [OF m] in \<open>auto simp: qsort_wcscmp_key\<close>)
  then show "sorted (map (key lcmap) (qsort (qsort_wcscmp lcmap) ws))" by (simp add: sorted_wrt_map)
qed

text \<open>C21: on Windows the block of a process with its own environment fits the memory allocated for it and holds
  each given variable, the tree id, and each of the required variables that was not given and that R has,
  nothing else, in the order of their names in upper case.\<close>

theorem program_env_complete:
  assumes "sorts qsort" and "\<forall>r \<in> set required_vars. lcmap r = Some r"
    and "env_copy to_utf16 env_block tree_id = Inr ws" and "\<forall>w \<in> set ws. given_ok lcmap w"
  shows "\<exists>vars. processx__make_program_env lcmap to_utf16 qsort getenv env_block tree_id = Inr (block vars @ [0]) \<and>
    sorted (map (key lcmap) vars) \<and>
    mset vars = mset ws + mset (concat (map (inherited getenv) (filter (\<lambda>r. r \<notin> key lcmap ` set ws) required_vars)))"
proof -
  define ps where "ps = qsort (qsort_wcscmp lcmap) ws"
  note ps = sort_env_sorted [OF assms(1,4), folded ps_def]
  have set_ps: "set ps = set ws" by (rule mset_eq_setD [OF ps(2)])
  have len: "copy_len ps = copy_len ws"
  proof -
    have "sum_mset (image_mset (\<lambda>w. length w + 1) (mset ps)) = sum_mset (image_mset (\<lambda>w. length w + 1) (mset ws))"
      unfolding ps(2) ..
    then show ?thesis unfolding copy_len_def by (simp only: mset_map [symmetric] sum_mset_sum_list)
  qed
  define vars where "vars = merge_env lcmap getenv required_vars ps"
  have "\<forall>p \<in> set ps. given_ok lcmap p" using assms(4) set_ps by simp
  note merge = write_merge [OF required_vars_ok [OF assms(2)] this, of getenv, folded vars_def]
  from merge obtain sizes n where s: "required_sizes lcmap getenv required_vars ps = Inr (sizes, n)"
    and n: "length (block vars) = copy_len ps + n" by blast
  from merge [of "copy_len ws + n"] s n len
  have w: "write_env lcmap getenv (copy_len ws + n) required_vars sizes ps [] = Inr (block vars @ [0])" by auto
  have "processx__make_program_env lcmap to_utf16 qsort getenv env_block tree_id = Inr (block vars @ [0])"
    by (simp add: processx__make_program_env_def assms(3) ps(1) s w)
  moreover have "sorted (map (key lcmap) vars)"
    unfolding vars_def by (rule sorted_merge_env [OF required_vars_ok [OF assms(2)] required_vars_sorted(1) ps(3)])
  moreover have "mset vars = mset ws + mset (concat (map (inherited getenv) (filter (\<lambda>r. r \<notin> key lcmap ` set ws) required_vars)))"
    unfolding vars_def mset_merge_env [OF required_vars_sorted ps(3)] ps(2) set_ps ..
  ultimately show ?thesis by blast
qed

text \<open>Without an environment of its own a process gets the one of R with the tree id added as the last variable.\<close>

theorem tree_id_appended:
  assumes "to_utf16 ctree_id = Inr tree_id" and "\<forall>v \<in> set vars. v \<noteq> [] \<and> 0 \<notin> set v"
  shows "processx__add_tree_id_env to_utf16 (Inr (block vars @ 0 # after)) ctree_id = Inr (block (vars @ [tree_id]) @ [0])"
proof -
  have "env_strings_len (block vars @ 0 # after) = length (block vars)"
    using assms(2)
  proof (induction vars)
    case Nil
    then show ?case by (subst env_strings_len.simps) (simp add: block_def)
  next
    case (Cons v vars)
    then have "takeWhile (\<lambda>c. c \<noteq> 0) (block (v # vars) @ 0 # after) = v"
      by (auto simp: block_def takeWhile_append takeWhile_eq_all_conv)
    with Cons show ?case
      by (subst env_strings_len.simps) (auto simp: block_def hd_append Let_def dest: hd_in_set)
  qed
  with assms(1) show ?thesis by (simp add: processx__add_tree_id_env_def block_def)
qed

text \<open>Upper case of ASCII letters, an insertion sort, and the conversion of ASCII strings.\<close>

definition ascii_upper :: "wstring \<Rightarrow> wstring option" where
  "ascii_upper s = (if s = [] then None else Some (map (\<lambda>c. if 0x61 \<le> c \<and> c \<le> 0x7A then c - 0x20 else c) s))"

fun insert_by :: "('a \<Rightarrow> 'a \<Rightarrow> int) \<Rightarrow> 'a \<Rightarrow> 'a list \<Rightarrow> 'a list" where
  "insert_by f x [] = [x]"
| "insert_by f x (y # ys) = (if f x y \<le> 0 then x # y # ys else y # insert_by f x ys)"

definition insertion_sort :: "('a \<Rightarrow> 'a \<Rightarrow> int) \<Rightarrow> 'a list \<Rightarrow> 'a list" where
  "insertion_sort f xs = foldr (insert_by f) xs []"

lemma mset_insert_by [simp]: "mset (insert_by f x ys) = add_mset x (mset ys)"
  by (induction ys) auto

lemma set_insert_by [simp]: "set (insert_by f x ys) = insert x (set ys)"
  by (induction ys) auto

lemma mset_insertion_sort: "mset (insertion_sort f xs) = mset xs"
  by (induction xs) (simp_all add: insertion_sort_def)

lemma orders_subset: "orders f xs \<Longrightarrow> set ys \<subseteq> set xs \<Longrightarrow> orders f ys"
  unfolding orders_def by blast

lemma orders_trans:
  "orders f xs \<Longrightarrow> a \<in> set xs \<Longrightarrow> b \<in> set xs \<Longrightarrow> c \<in> set xs \<Longrightarrow> f a b \<le> 0 \<Longrightarrow> f b c \<le> 0 \<Longrightarrow> f a c \<le> 0"
  unfolding orders_def by blast

lemma insert_by_sorted:
  assumes "orders f (x # ys)" and "sorted_wrt (\<lambda>a b. f a b \<le> 0) ys"
  shows "sorted_wrt (\<lambda>a b. f a b \<le> 0) (insert_by f x ys)"
  using assms
proof (induction ys)
  case (Cons y ys)
  show ?case
  proof (cases "f x y \<le> 0")
    case True
    then have "f x z \<le> 0" if "z \<in> set ys" for z
      using orders_trans [OF Cons.prems(1), of x y z] Cons.prems(2) that by simp
    with True Cons.prems(2) show ?thesis by simp
  next
    case False
    then have "f y x \<le> 0" using Cons.prems(1) by (auto simp: orders_def)
    moreover have "orders f (x # ys)" using Cons.prems(1) by (rule orders_subset) auto
    then have "sorted_wrt (\<lambda>a b. f a b \<le> 0) (insert_by f x ys)" using Cons.prems(2) by (intro Cons.IH) simp_all
    ultimately show ?thesis using False Cons.prems(2) by simp
  qed
qed simp

lemma insertion_sort_sorts: "sorts insertion_sort"
  unfolding sorts_def
proof (intro allI impI conjI)
  fix f :: "'a \<Rightarrow> 'a \<Rightarrow> int" and xs assume "orders f xs"
  then show "sorted_wrt (\<lambda>a b. f a b \<le> 0) (insertion_sort f xs)"
  proof (induction xs)
    case (Cons x xs)
    have "set (insertion_sort f xs) = set xs" by (rule mset_eq_setD [OF mset_insertion_sort])
    then have "orders f (x # insertion_sort f xs)" by (intro orders_subset [OF Cons.prems]) simp
    moreover have "orders f xs" by (rule orders_subset [OF Cons.prems]) auto
    ultimately have "sorted_wrt (\<lambda>a b. f a b \<le> 0) (insert_by f x (insertion_sort f xs))"
      by (intro insert_by_sorted Cons.IH)
    then show ?case by (simp add: insertion_sort_def)
  qed (simp add: insertion_sort_def)
qed (rule mset_insertion_sort)

definition sample_env :: "string list" where "sample_env = [''Path=x'', ''no value'', ''b=1'']"

definition sample_getenv :: "wstring \<Rightarrow> wstring option" where
  "sample_getenv r = (if r = wide ''TEMP'' then Some (wide ''t'') else if r = wide ''PATH'' then Some (wide ''y'') else None)"

theorem program_env_complete_witness:
  "\<exists>vars. processx__make_program_env ascii_upper (\<lambda>s. Inr (wide s)) insertion_sort sample_getenv sample_env ''PROCESSX=1'' = Inr (block vars @ [0]) \<and>
    sorted (map (key ascii_upper) vars) \<and>
    mset vars = {#wide ''b=1'', wide ''Path=x'', wide ''PROCESSX=1'', wide ''TEMP=t''#}"
proof -
  define ws where "ws = [wide ''Path=x'', wide ''b=1'', wide ''PROCESSX=1'']"
  have ws: "env_copy (\<lambda>s. Inr (wide s)) sample_env ''PROCESSX=1'' = Inr ws"
    by (simp add: env_copy_def sample_env_def ws_def)
  have ok: "\<forall>w \<in> set ws. given_ok ascii_upper w"
    by (simp add: ws_def given_ok_def key_def ascii_upper_def wide_def EQUALS_def)
  have upper: "\<forall>r \<in> set required_vars. ascii_upper r = Some r"
    by (simp add: required_vars_def ascii_upper_def wide_def)
  have "mset ws + mset (concat (map (inherited sample_getenv) (filter (\<lambda>r. r \<notin> key ascii_upper ` set ws) required_vars)))
      = {#wide ''b=1'', wide ''Path=x'', wide ''PROCESSX=1'', wide ''TEMP=t''#}"
    by (simp add: ws_def key_def ascii_upper_def wide_def EQUALS_def required_vars_def inherited_def sample_getenv_def)
  with program_env_complete [OF insertion_sort_sorts upper ws ok, of sample_getenv] show ?thesis by simp
qed

theorem tree_id_appended_witness:
  "processx__add_tree_id_env (\<lambda>s. Inr (wide s)) (Inr (block [wide ''a=1'', wide ''b=''] @ 0 # [])) ''P=1''
    = Inr (block ([wide ''a=1'', wide ''b=''] @ [wide ''P=1'']) @ [0])"
  by (rule tree_id_appended) (simp_all add: wide_def)

end
