(* ===== verification/Win_Stdio.thy ===== *)
theory Win_Stdio
  imports Prelude
begin

text \<open>
  What a process on Windows inherits (src/src/win/stdio.c and processx-stdio.h): the buffer that hands
  descriptors to the C runtime of the child, byte by byte, and the function that opens and collects
  the handles.
\<close>

section \<open>The buffer\<close>

text \<open>Numbers in memory, the lowest byte first.\<close>

fun to_bytes :: "nat \<Rightarrow> 'a::len word \<Rightarrow> byte list" where
  "to_bytes 0 w = []"
| "to_bytes (Suc k) w = ucast w # to_bytes k (drop_bit 8 w)"

fun of_bytes :: "byte list \<Rightarrow> 'a::len word" where
  "of_bytes [] = 0"
| "of_bytes (b # bs) = ucast b OR push_bit 8 (of_bytes bs)"

definition write_at :: "nat \<Rightarrow> byte list \<Rightarrow> byte list \<Rightarrow> byte list" where
  "write_at off bs buf = take off buf @ bs @ drop (off + length bs) buf"

type_synonym handle = "64 word"

definition INVALID_HANDLE_VALUE :: handle where "INVALID_HANDLE_VALUE = - 1"
definition FOPEN :: byte where "FOPEN = 0x01"
definition FPIPE :: byte where "FPIPE = 0x08"
definition FDEV :: byte where "FDEV = 0x40"

text \<open>The count, one byte of flags for each descriptor, and one handle for each.\<close>

definition CHILD_STDIO_SIZE :: "nat \<Rightarrow> nat" where
  "CHILD_STDIO_SIZE count = 4 + count + 8 * count"

definition CHILD_STDIO_COUNT :: "byte list \<Rightarrow> nat" where
  "CHILD_STDIO_COUNT buffer = unat (of_bytes (take 4 buffer) :: 32 word)"

definition CHILD_STDIO_CRT_FLAGS :: "byte list \<Rightarrow> nat \<Rightarrow> byte" where
  "CHILD_STDIO_CRT_FLAGS buffer fd = buffer ! (4 + fd)"

definition CHILD_STDIO_HANDLE :: "byte list \<Rightarrow> nat \<Rightarrow> handle" where
  "CHILD_STDIO_HANDLE buffer fd = of_bytes (take 8 (drop (4 + CHILD_STDIO_COUNT buffer + 8 * fd) buffer))"

definition set_flags :: "nat \<Rightarrow> byte \<Rightarrow> byte list \<Rightarrow> byte list" where
  "set_flags fd b buffer = write_at (4 + fd) [b] buffer"

definition set_handle :: "nat \<Rightarrow> handle \<Rightarrow> byte list \<Rightarrow> byte list" where
  "set_handle fd h buffer = write_at (4 + CHILD_STDIO_COUNT buffer + 8 * fd) (to_bytes 8 h) buffer"

section \<open>The calls of the system\<close>

text \<open>
  \<open>ws_create_file\<close> is \<open>CreateFileW\<close>, with the name, whether it is for input, and what to do about existing files;
  \<open>ws_pipe\<close> makes the two ends of a pipe, that of R and that of the child, and throws an R error when
  it fails; the other end becomes a connection, which is known by its handle.
\<close>

datatype disposition = OPEN_EXISTING | CREATE_ALWAYS | OPEN_ALWAYS

datatype file_type = FILE_TYPE_DISK | FILE_TYPE_PIPE | FILE_TYPE_CHAR | FILE_TYPE_REMOTE | FILE_TYPE_UNKNOWN | Other_type

record 'w ws_os =
  ws_create_file :: "string \<Rightarrow> bool \<Rightarrow> disposition \<Rightarrow> 'w \<Rightarrow> (int + handle) \<times> 'w"
  ws_seek_end :: "handle \<Rightarrow> 'w \<Rightarrow> 'w"
  ws_pipe :: "bool \<Rightarrow> 'w \<Rightarrow> (r_error + (handle \<times> handle)) \<times> 'w"
  ws_duplicate :: "handle \<Rightarrow> 'w \<Rightarrow> (int + handle) \<times> 'w"
  ws_file_type :: "handle \<Rightarrow> 'w \<Rightarrow> file_type"
  ws_std_handle :: "nat \<Rightarrow> 'w \<Rightarrow> handle"
  ws_osfhandle :: "nat \<Rightarrow> 'w \<Rightarrow> handle"
  ws_close :: "handle \<Rightarrow> 'w \<Rightarrow> 'w"
  ws_destroy_connection :: "handle \<Rightarrow> 'w \<Rightarrow> 'w"
  ws_no_inherit :: "handle \<Rightarrow> 'w \<Rightarrow> 'w"

definition known_invalid :: "handle \<Rightarrow> bool" where
  "known_invalid h \<longleftrightarrow> h = INVALID_HANDLE_VALUE \<or> h = 0 \<or> h = - 2"

definition ERROR_INVALID_HANDLE :: int where "ERROR_INVALID_HANDLE = 6"

definition processx__duplicate_handle :: "'w ws_os \<Rightarrow> handle \<Rightarrow> 'w \<Rightarrow> (int + handle) \<times> 'w" where
  "processx__duplicate_handle os h = (\<lambda>w. if known_invalid h then (Inl ERROR_INVALID_HANDLE, w) else ws_duplicate os h w)"

section \<open>Collecting the handles\<close>

text \<open>What R gives for a descriptor: nothing, a string, or a connection, with no handle if it was closed.\<close>

datatype stdio_spec = Null_output | String_output string | Connection_output "handle option"

text \<open>The buffer, the connections of R for pipes, and whether standard streams are inherited.\<close>

record stdio =
  buffer :: "byte list"
  stdio_pipes :: "handle list"
  inherit_std :: bool

text \<open>
  One descriptor. \<open>Inl (Inl e)\<close> is an R error, and \<open>Inl (Inr err)\<close> the jump to \<open>error\<close> with an error code.
\<close>

definition put_handle :: "nat \<Rightarrow> byte \<Rightarrow> handle \<Rightarrow> stdio \<Rightarrow> stdio" where
  "put_handle i flags h st = st\<lparr>buffer := set_flags i flags (set_handle i h (buffer st))\<rparr>"

definition open_file :: "'w ws_os \<Rightarrow> nat \<Rightarrow> string \<Rightarrow> 'w \<Rightarrow> (int + handle) \<times> 'w" where
  "open_file os i stroutput w =
     (let append = (i \<noteq> 0 \<and> take 2 stroutput = ''>>'');
          filepath = (if append then drop 2 stroutput else stroutput)
      in if i = 0 then ws_create_file os filepath True OPEN_EXISTING w
         else if append then
           (case ws_create_file os filepath False OPEN_ALWAYS w of
              (Inl e, w) \<Rightarrow> (Inl e, w)
            | (Inr h, w) \<Rightarrow> (Inr h, ws_seek_end os h w))
         else ws_create_file os filepath False CREATE_ALWAYS w)"

definition inherited_handle :: "'w ws_os \<Rightarrow> nat \<Rightarrow> stdio_spec \<Rightarrow> 'w \<Rightarrow> r_error + handle" where
  "inherited_handle os i output w =
     (case output of
        Connection_output None \<Rightarrow> Inl (R_error ''Invalid (closed) connection'')
      | Connection_output (Some h) \<Rightarrow> Inr h
      | _ \<Rightarrow>
          (let n = min i 2; h = ws_std_handle os n w
           in Inr (if known_invalid h then ws_osfhandle os n w else h)))"

definition inherit_connection :: "'w ws_os \<Rightarrow> nat \<Rightarrow> stdio_spec \<Rightarrow> stdio \<Rightarrow> 'w \<Rightarrow> ((r_error + int) + stdio) \<times> 'w" where
  "inherit_connection os i output st w =
     (case inherited_handle os i output w of
        Inl e \<Rightarrow> (Inl (Inl e), w)
      | Inr ihnd \<Rightarrow>
          (case processx__duplicate_handle os ihnd w of
             (Inl err, w) \<Rightarrow> (Inl (Inr err), w)
           | (Inr child_handle, w) \<Rightarrow>
               (let flags = (case ws_file_type os child_handle w of
                    FILE_TYPE_DISK \<Rightarrow> Some FOPEN
                  | Other_type \<Rightarrow> None
                  | _ \<Rightarrow> Some (FOPEN OR FDEV))
                in case flags of
                     None \<Rightarrow> (Inl (Inr (- 1)), w)
                   | Some f \<Rightarrow>
                       (Inr (put_handle i f child_handle
                          (st\<lparr>inherit_std := inherit_std st \<or> (\<exists>s. output = String_output s)\<rparr>)), w))))"

text \<open>The copy of the handle of descriptor 1; when it fails the handle stays as it is.\<close>

definition copy_stdout :: "'w ws_os \<Rightarrow> stdio \<Rightarrow> 'w \<Rightarrow> stdio \<times> 'w" where
  "copy_stdout os st w =
     (case ws_duplicate os (CHILD_STDIO_HANDLE (buffer st) 1) w of
        (r, w) \<Rightarrow>
          (let b = (case r of Inl _ \<Rightarrow> buffer st | Inr h \<Rightarrow> set_handle 2 h (buffer st))
           in (st\<lparr>buffer := set_flags 2 (FOPEN OR FDEV) (set_flags 1 (FOPEN OR FDEV) b)\<rparr>, w)))"

definition stdio_one :: "'w ws_os \<Rightarrow> nat \<Rightarrow> stdio_spec \<Rightarrow> stdio \<Rightarrow> 'w \<Rightarrow> ((r_error + int) + stdio) \<times> 'w" where
  "stdio_one os i output st w =
     (case output of
        Null_output \<Rightarrow>
          (case ws_create_file os ''NUL'' (i = 0) OPEN_EXISTING w of
             (Inl err, w) \<Rightarrow> (Inl (Inr err), w)
           | (Inr h, w) \<Rightarrow> (Inr (put_handle i (FOPEN OR FDEV) h st), w))
      | String_output s \<Rightarrow>
          if i = 2 \<and> s = ''2>&1'' then (case copy_stdout os st w of (st, w) \<Rightarrow> (Inr st, w))
          else if s = ''|'' then
            (case ws_pipe os (i = 0) w of
               (Inl e, w) \<Rightarrow> (Inl (Inl e), w)
             | (Inr (parent, child), w) \<Rightarrow>
                 if i \<ge> 3 then (Inl (Inl (Undefined_behaviour ''index of pipes'')), w)
                 else (Inr ((put_handle i (FOPEN OR FPIPE) child st)\<lparr>stdio_pipes := stdio_pipes st @ [parent]\<rparr>), w))
          else if s \<noteq> [] then
            (case open_file os i s w of
               (Inl err, w) \<Rightarrow> (Inl (Inr err), w)
             | (Inr h, w) \<Rightarrow> (Inr (put_handle i (FOPEN OR FDEV) h st), w))
          else inherit_connection os i output st w
      | Connection_output _ \<Rightarrow> inherit_connection os i output st w)"

text \<open>The handles of a buffer are closed; the memory is not modelled.\<close>

definition processx__stdio_destroy :: "'w ws_os \<Rightarrow> byte list \<Rightarrow> 'w \<Rightarrow> 'w" where
  "processx__stdio_destroy os buf w =
     fold (\<lambda>i w. let h = CHILD_STDIO_HANDLE buf i in if h \<noteq> INVALID_HANDLE_VALUE then ws_close os h w else w)
       [0..<CHILD_STDIO_COUNT buf] w"

definition processx__stdio_noinherit :: "'w ws_os \<Rightarrow> byte list \<Rightarrow> 'w \<Rightarrow> 'w" where
  "processx__stdio_noinherit os buf w =
     fold (\<lambda>i w. let h = CHILD_STDIO_HANDLE buf i in if h \<noteq> INVALID_HANDLE_VALUE then ws_no_inherit os h w else w)
       [0..<CHILD_STDIO_COUNT buf] w"

text \<open>The error path: the handles of the child and the connections made so far.\<close>

definition stdio_error :: "'w ws_os \<Rightarrow> stdio \<Rightarrow> 'w \<Rightarrow> 'w" where
  "stdio_error os st w = fold (ws_destroy_connection os) (stdio_pipes st) (processx__stdio_destroy os (buffer st) w)"

fun stdio_loop :: "'w ws_os \<Rightarrow> nat \<Rightarrow> stdio_spec list \<Rightarrow> stdio \<Rightarrow> 'w \<Rightarrow> ((r_error + int) + stdio) \<times> 'w" where
  "stdio_loop os i [] st w = (Inr st, w)"
| "stdio_loop os i (output # connections) st w =
     (case stdio_one os i output st w of
        (Inl (Inl e), w) \<Rightarrow> (Inl (Inl e), w)
      | (Inl (Inr err), w) \<Rightarrow> (Inl (Inr err), stdio_error os st w)
      | (Inr st, w) \<Rightarrow> stdio_loop os (i + 1) connections st w)"

definition empty_buffer :: "nat \<Rightarrow> byte list" where
  "empty_buffer count =
     fold (\<lambda>i b. set_handle i INVALID_HANDLE_VALUE (set_flags i 0 b)) [0..<count]
       (to_bytes 4 (of_nat count :: 32 word) @ replicate (count + 8 * count) 0)"

definition processx__stdio_create :: "'w ws_os \<Rightarrow> stdio_spec list \<Rightarrow> 'w \<Rightarrow> ((r_error + int) + stdio) \<times> 'w" where
  "processx__stdio_create os connections w =
     (let count = length connections
      in if count > 255 then (Inl (Inl (R_error ''Too many processx connections to inherit'')), w)
         else stdio_loop os 0 connections \<lparr>buffer = empty_buffer count, stdio_pipes = [], inherit_std = False\<rparr> w)"

section \<open>The receiving side\<close>

definition processx__stdio_verify :: "byte list option \<Rightarrow> 16 word \<Rightarrow> bool" where
  "processx__stdio_verify buf bufsize =
     (case buf of
        None \<Rightarrow> False
      | Some b \<Rightarrow>
          unat bufsize \<ge> CHILD_STDIO_SIZE 0 \<and> CHILD_STDIO_COUNT b \<le> 256 \<and> unat bufsize \<ge> CHILD_STDIO_SIZE (CHILD_STDIO_COUNT b))"

definition processx__stdio_size :: "byte list \<Rightarrow> 16 word" where
  "processx__stdio_size buf = of_nat (CHILD_STDIO_SIZE (CHILD_STDIO_COUNT buf))"

definition processx__stdio_handle :: "byte list \<Rightarrow> nat \<Rightarrow> handle" where
  "processx__stdio_handle buf fd = CHILD_STDIO_HANDLE buf fd"


section \<open>The layout\<close>

lemma length_to_bytes [simp]: "length (to_bytes k w) = k"
  by (induction k arbitrary: w) auto

lemma of_bytes_to_bytes: "of_bytes (to_bytes k w) = take_bit (8 * k) (w :: 'a::len word)"
proof (induction k arbitrary: w)
  case (Suc k)
  have "ucast (ucast w :: byte) = take_bit 8 w" by (rule bit_word_eqI) (simp add: bit_ucast_iff bit_take_bit_iff)
  with Suc show ?case
    by simp (rule bit_word_eqI, auto simp: bit_or_iff bit_push_bit_iff bit_take_bit_iff bit_drop_bit_eq)
qed simp

lemma nth_write_at:
  "off + length bs \<le> length buf \<Longrightarrow> i < length buf \<Longrightarrow>
    write_at off bs buf ! i = (if off \<le> i \<and> i < off + length bs then bs ! (i - off) else buf ! i)"
  by (auto simp: write_at_def nth_append min_def)

lemma length_write_at: "off + length bs \<le> length buf \<Longrightarrow> length (write_at off bs buf) = length buf"
  by (simp add: write_at_def)

lemma slice_written: "off + length bs \<le> length buf \<Longrightarrow> take (length bs) (drop off (write_at off bs buf)) = bs"
  by (simp add: write_at_def)

lemma slice_not_written:
  assumes "off + length bs \<le> length buf" and "off + length bs \<le> p \<or> p + k \<le> off" and "p + k \<le> length buf"
  shows "take k (drop p (write_at off bs buf)) = take k (drop p buf)"
proof (rule nth_equalityI)
  show "length (take k (drop p (write_at off bs buf))) = length (take k (drop p buf))"
    using assms by (simp add: length_write_at)
  show "take k (drop p (write_at off bs buf)) ! i = take k (drop p buf) ! i"
    if "i < length (take k (drop p (write_at off bs buf)))" for i
    using that assms by (auto simp: length_write_at nth_write_at)
qed

text \<open>A buffer for \<open>n\<close> descriptors, and what the setters change of it.\<close>

definition stdio_buffer :: "nat \<Rightarrow> byte list \<Rightarrow> bool" where
  "stdio_buffer n buf \<longleftrightarrow> length buf = CHILD_STDIO_SIZE n \<and> CHILD_STDIO_COUNT buf = n"

lemma set_flags_layout:
  assumes "stdio_buffer n buf" and "i < n"
  shows "stdio_buffer n (set_flags i f buf)"
    and "j < n \<Longrightarrow> CHILD_STDIO_HANDLE (set_flags i f buf) j = CHILD_STDIO_HANDLE buf j"
    and "j < n \<Longrightarrow> CHILD_STDIO_CRT_FLAGS (set_flags i f buf) j = (if j = i then f else CHILD_STDIO_CRT_FLAGS buf j)"
proof -
  have len: "length buf = 4 + n + 8 * n" and count: "CHILD_STDIO_COUNT buf = n"
    using assms(1) by (simp_all add: stdio_buffer_def CHILD_STDIO_SIZE_def)
  have fits: "4 + i + length [f] \<le> length buf" using assms(2) len by simp
  have c: "CHILD_STDIO_COUNT (set_flags i f buf) = n"
    using slice_not_written [OF fits, of 0 4] len count by (simp add: CHILD_STDIO_COUNT_def set_flags_def)
  then show "stdio_buffer n (set_flags i f buf)"
    using fits len by (simp add: stdio_buffer_def set_flags_def length_write_at CHILD_STDIO_SIZE_def)
  show "CHILD_STDIO_HANDLE (set_flags i f buf) j = CHILD_STDIO_HANDLE buf j" if "j < n"
    unfolding CHILD_STDIO_HANDLE_def c count
    using slice_not_written [OF fits, of "4 + n + 8 * j" 8] that assms(2) len by (simp add: set_flags_def)
  show "CHILD_STDIO_CRT_FLAGS (set_flags i f buf) j = (if j = i then f else CHILD_STDIO_CRT_FLAGS buf j)" if "j < n"
    using nth_write_at [OF fits, of "4 + j"] that len by (auto simp: CHILD_STDIO_CRT_FLAGS_def set_flags_def)
qed

lemma set_handle_layout:
  assumes "stdio_buffer n buf" and "i < n"
  shows "stdio_buffer n (set_handle i h buf)"
    and "j < n \<Longrightarrow> CHILD_STDIO_HANDLE (set_handle i h buf) j = (if j = i then h else CHILD_STDIO_HANDLE buf j)"
    and "j < n \<Longrightarrow> CHILD_STDIO_CRT_FLAGS (set_handle i h buf) j = CHILD_STDIO_CRT_FLAGS buf j"
proof -
  have len: "length buf = 4 + n + 8 * n" and count: "CHILD_STDIO_COUNT buf = n"
    using assms(1) by (simp_all add: stdio_buffer_def CHILD_STDIO_SIZE_def)
  have fits: "4 + n + 8 * i + length (to_bytes 8 h) \<le> length buf" using assms(2) len by simp
  have c: "CHILD_STDIO_COUNT (set_handle i h buf) = n"
    using slice_not_written [OF fits, of 0 4] len count by (simp add: CHILD_STDIO_COUNT_def set_handle_def)
  then show "stdio_buffer n (set_handle i h buf)"
    using fits len count by (simp add: stdio_buffer_def set_handle_def length_write_at CHILD_STDIO_SIZE_def)
  show "CHILD_STDIO_HANDLE (set_handle i h buf) j = (if j = i then h else CHILD_STDIO_HANDLE buf j)" if "j < n"
  proof (cases "j = i")
    case True
    have "(of_bytes (to_bytes 8 h) :: handle) = h" by (simp add: of_bytes_to_bytes take_bit_word_eq_self)
    with True slice_written [OF fits] show ?thesis
      by (simp add: CHILD_STDIO_HANDLE_def c) (simp add: set_handle_def count)
  next
    case False
    then have "4 + n + 8 * i + 8 \<le> 4 + n + 8 * j \<or> 4 + n + 8 * j + 8 \<le> 4 + n + 8 * i" by linarith
    with False slice_not_written [OF fits, of "4 + n + 8 * j" 8] that len show ?thesis
      by (simp add: CHILD_STDIO_HANDLE_def c count) (simp add: set_handle_def count)
  qed
  show "CHILD_STDIO_CRT_FLAGS (set_handle i h buf) j = CHILD_STDIO_CRT_FLAGS buf j" if "j < n"
    using nth_write_at [OF fits, of "4 + j"] that len by (simp add: CHILD_STDIO_CRT_FLAGS_def set_handle_def count)
qed

lemma both_layout:
  assumes "stdio_buffer n buf" and "i < n"
  shows "stdio_buffer n (set_handle i h (set_flags i f buf))" and "stdio_buffer n (set_flags i f (set_handle i h buf))"
    and "j < n \<Longrightarrow> CHILD_STDIO_HANDLE (set_handle i h (set_flags i f buf)) j = (if j = i then h else CHILD_STDIO_HANDLE buf j)"
    and "j < n \<Longrightarrow> CHILD_STDIO_HANDLE (set_flags i f (set_handle i h buf)) j = (if j = i then h else CHILD_STDIO_HANDLE buf j)"
proof -
  note f = set_flags_layout [OF assms] and h = set_handle_layout [OF assms]
  note fh = set_handle_layout [OF f(1) assms(2)] and hf = set_flags_layout [OF h(1) assms(2)]
  show "stdio_buffer n (set_handle i h (set_flags i f buf))" "stdio_buffer n (set_flags i f (set_handle i h buf))"
    by (rule fh(1), rule hf(1))
  assume j: "j < n"
  show "CHILD_STDIO_HANDLE (set_handle i h (set_flags i f buf)) j = (if j = i then h else CHILD_STDIO_HANDLE buf j)"
    unfolding fh(2) [OF j] f(2) [OF j] ..
  show "CHILD_STDIO_HANDLE (set_flags i f (set_handle i h buf)) j = (if j = i then h else CHILD_STDIO_HANDLE buf j)"
    unfolding hf(2) [OF j] h(2) [OF j] ..
qed

lemma empty_buffer_layout:
  assumes "count \<le> 255"
  shows "stdio_buffer count (empty_buffer count)" and "j < count \<Longrightarrow> CHILD_STDIO_HANDLE (empty_buffer count) j = INVALID_HANDLE_VALUE"
proof -
  have start: "stdio_buffer count (to_bytes 4 (of_nat count :: 32 word) @ replicate (count + 8 * count) 0)"
  proof -
    have "(of_bytes (to_bytes 4 (of_nat count :: 32 word)) :: 32 word) = of_nat count"
      by (simp only: of_bytes_to_bytes) (simp add: take_bit_word_eq_self)
    then show ?thesis using assms
      by (simp add: stdio_buffer_def CHILD_STDIO_SIZE_def CHILD_STDIO_COUNT_def unat_of_nat take_bit_nat_eq_self)
  qed
  define clear where "clear m = fold (\<lambda>i b. set_handle i INVALID_HANDLE_VALUE (set_flags i 0 b)) [0..<m]
        (to_bytes 4 (of_nat count :: 32 word) @ replicate (count + 8 * count) 0)" for m
  have "stdio_buffer count (clear m) \<and> (\<forall>j < m. CHILD_STDIO_HANDLE (clear m) j = INVALID_HANDLE_VALUE)" if "m \<le> count" for m
    using that
  proof (induction m)
    case (Suc m)
    then have b: "stdio_buffer count (clear m)" "m < count" by simp_all
    have "clear (Suc m) = set_handle m INVALID_HANDLE_VALUE (set_flags m 0 (clear m))" by (simp add: clear_def)
    then show ?case using Suc both_layout(1,3) [OF b] by (simp add: less_Suc_eq)
  qed (use start in \<open>simp add: clear_def\<close>)
  then show "stdio_buffer count (empty_buffer count)" "j < count \<Longrightarrow> CHILD_STDIO_HANDLE (empty_buffer count) j = INVALID_HANDLE_VALUE"
    unfolding empty_buffer_def clear_def [symmetric] by blast+
qed


section \<open>Who closes the handles\<close>

text \<open>
  \<open>live w\<close> are the open handles of R. A call that makes a handle gives a new one, or changes nothing; a
  duplicate has one of the known file types.
\<close>

definition acquires :: "('w \<Rightarrow> handle set) \<Rightarrow> ('w \<Rightarrow> (int + handle) \<times> 'w) \<Rightarrow> bool" where
  "acquires live call \<longleftrightarrow>
     (\<forall>w. case call w of
        (Inl e, w') \<Rightarrow> live w' = live w
      | (Inr h, w') \<Rightarrow> h \<notin> live w \<and> h \<noteq> INVALID_HANDLE_VALUE \<and> live w' = insert h (live w))"

definition handle_laws :: "'w ws_os \<Rightarrow> ('w \<Rightarrow> handle set) \<Rightarrow> bool" where
  "handle_laws os live \<longleftrightarrow>
     (\<forall>s inp d. acquires live (ws_create_file os s inp d)) \<and>
     (\<forall>h. acquires live (ws_duplicate os h)) \<and>
     (\<forall>h w. live (ws_seek_end os h w) = live w) \<and>
     (\<forall>inp w p c w'. ws_pipe os inp w = (Inr (p, c), w') \<longrightarrow>
        p \<notin> live w \<and> c \<notin> live w \<and> c \<noteq> INVALID_HANDLE_VALUE \<and> live w' = insert p (insert c (live w))) \<and>
     (\<forall>h w. live (ws_close os h w) = live w - {h}) \<and>
     (\<forall>h w. live (ws_destroy_connection os h w) = live w - {h}) \<and>
     (\<forall>h w. ws_file_type os h w \<noteq> Other_type)"

definition child_handles :: "nat \<Rightarrow> byte list \<Rightarrow> handle set" where
  "child_handles n buf = {h. h \<noteq> INVALID_HANDLE_VALUE \<and> (\<exists>j < n. h = CHILD_STDIO_HANDLE buf j)}"

definition owned :: "nat \<Rightarrow> stdio \<Rightarrow> handle set" where
  "owned n st = child_handles n (buffer st) \<union> set (stdio_pipes st)"

definition tracked :: "nat \<Rightarrow> handle set \<Rightarrow> handle set \<Rightarrow> nat \<Rightarrow> stdio \<Rightarrow> bool" where
  "tracked n before now i st \<longleftrightarrow>
     stdio_buffer n (buffer st) \<and> (\<forall>j < n. i \<le> j \<longrightarrow> CHILD_STDIO_HANDLE (buffer st) j = INVALID_HANDLE_VALUE) \<and>
     now = before \<union> owned n st \<and> owned n st \<inter> before = {}"

lemma acquiresD:
  assumes "acquires live call"
  shows "call w = (Inl e, w') \<Longrightarrow> live w' = live w"
    and "call w = (Inr h, w') \<Longrightarrow> h \<notin> live w \<and> h \<noteq> INVALID_HANDLE_VALUE \<and> live w' = insert h (live w)"
  using assms [unfolded acquires_def, rule_format, of w] by simp_all

lemma handle_lawsD:
  assumes "handle_laws os live"
  shows "acquires live (ws_create_file os s inp d)" and "acquires live (ws_duplicate os h)"
    and "live (ws_seek_end os h w) = live w"
    and "ws_pipe os inp w = (Inr (p, c), w') \<Longrightarrow>
        p \<notin> live w \<and> c \<notin> live w \<and> c \<noteq> INVALID_HANDLE_VALUE \<and> live w' = insert p (insert c (live w))"
    and "live (ws_close os h w) = live w - {h}" and "live (ws_destroy_connection os h w) = live w - {h}"
    and "ws_file_type os h w \<noteq> Other_type"
  by (rule assms [unfolded handle_laws_def, THEN conjunct1, THEN spec, THEN spec, THEN spec]
    assms [unfolded handle_laws_def, THEN conjunct2, THEN conjunct1, THEN spec]
    assms [unfolded handle_laws_def, THEN conjunct2, THEN conjunct2, THEN conjunct1, THEN spec, THEN spec]
    assms [unfolded handle_laws_def, THEN conjunct2, THEN conjunct2, THEN conjunct2, THEN conjunct1, THEN spec, THEN spec, THEN spec, THEN spec, THEN spec, THEN mp]
    assms [unfolded handle_laws_def, THEN conjunct2, THEN conjunct2, THEN conjunct2, THEN conjunct2, THEN conjunct1, THEN spec, THEN spec]
    assms [unfolded handle_laws_def, THEN conjunct2, THEN conjunct2, THEN conjunct2, THEN conjunct2, THEN conjunct2, THEN conjunct1, THEN spec, THEN spec]
    assms [unfolded handle_laws_def, THEN conjunct2, THEN conjunct2, THEN conjunct2, THEN conjunct2, THEN conjunct2, THEN conjunct2, THEN spec, THEN spec] | assumption)+

lemma child_handles_set:
  assumes "stdio_buffer n buf" and "i < n" and "CHILD_STDIO_HANDLE buf i = INVALID_HANDLE_VALUE" and "h \<noteq> INVALID_HANDLE_VALUE"
  shows "child_handles n (set_handle i h buf) = insert h (child_handles n buf)"
  using set_handle_layout(2) [OF assms(1,2)] assms unfolding child_handles_def by fastforce

lemma child_handles_flags:
  assumes "stdio_buffer n buf" and "i < n"
  shows "child_handles n (set_flags i f buf) = child_handles n buf"
  using set_flags_layout(2) [OF assms] unfolding child_handles_def by auto

lemma tracked_put:
  assumes t: "tracked n before now i st" and "i < n" and h: "h \<notin> now" "h \<noteq> INVALID_HANDLE_VALUE"
  shows "tracked n before (insert h now) (i + 1) (put_handle i f h st)"
proof -
  have buf: "stdio_buffer n (buffer st)" and inv: "CHILD_STDIO_HANDLE (buffer st) i = INVALID_HANDLE_VALUE"
    using t assms(2) by (auto simp: tracked_def)
  have "child_handles n (set_flags i f (set_handle i h (buffer st))) = insert h (child_handles n (buffer st))"
    using child_handles_flags [OF set_handle_layout(1) [OF buf assms(2)] assms(2)] child_handles_set [OF buf assms(2) inv h(2)] by simp
  then have own: "owned n (put_handle i f h st) = insert h (owned n st)" by (simp add: owned_def put_handle_def)
  have "stdio_buffer n (buffer (put_handle i f h st))" using both_layout(2) [OF buf assms(2)] by (simp add: put_handle_def)
  moreover have "CHILD_STDIO_HANDLE (buffer (put_handle i f h st)) j = INVALID_HANDLE_VALUE" if "j < n" "i + 1 \<le> j" for j
    using both_layout(4) [OF buf assms(2) that(1)] that t by (simp add: put_handle_def tracked_def)
  ultimately show ?thesis using t h(1) unfolding tracked_def own by auto
qed

lemma tracked_next: "tracked n before now i st \<Longrightarrow> tracked n before now (i + 1) st"
  by (simp add: tracked_def)

lemma open_file_acquires:
  assumes "handle_laws os live"
  shows "acquires live (open_file os i s)"
  using acquiresD [OF handle_lawsD(1) [OF assms]] handle_lawsD(3) [OF assms]
  unfolding acquires_def open_file_def Let_def
  by (auto split: prod.splits sum.splits)

lemma duplicate_acquires:
  assumes "handle_laws os live"
  shows "acquires live (processx__duplicate_handle os h)"
  using handle_lawsD(2) [OF assms] by (simp add: acquires_def processx__duplicate_handle_def)

lemma inherit_tracked:
  assumes law: "handle_laws os live" and t: "tracked n before (live w) i st" and "i < n"
    and run: "inherit_connection os i out st w = (r, w')"
  shows "case r of Inl (Inl _) \<Rightarrow> True | Inl (Inr _) \<Rightarrow> live w' = live w | Inr st' \<Rightarrow> tracked n before (live w') (i + 1) st'"
proof (cases "inherited_handle os i out w")
  case (Inl e)
  with run show ?thesis by (auto simp: inherit_connection_def)
next
  case (Inr ihnd)
  obtain d w1 where d: "processx__duplicate_handle os ihnd w = (d, w1)" by force
  show ?thesis
  proof (cases d)
    case e: (Inl e)
    with run Inr d acquiresD(1) [OF duplicate_acquires [OF law]] show ?thesis by (auto simp: inherit_connection_def)
  next
    case h: (Inr h)
    have new: "h \<notin> live w" "h \<noteq> INVALID_HANDLE_VALUE" "live w1 = insert h (live w)"
      using acquiresD(2) [OF duplicate_acquires [OF law] d [unfolded h]] by simp_all
    obtain f where r: "r = Inr (put_handle i f h (st\<lparr>inherit_std := inherit_std st \<or> (\<exists>s. out = String_output s)\<rparr>))" and "w' = w1"
      using run Inr d h handle_lawsD(7) [OF law, of h w1]
      by (auto simp: inherit_connection_def Let_def split: file_type.splits)
    have "tracked n before (live w) i (st\<lparr>inherit_std := b\<rparr>)" for b using t by (simp add: tracked_def owned_def)
    from tracked_put [OF this assms(3) new(1,2)] show ?thesis using r \<open>w' = w1\<close> new(3) by simp
  qed
qed


lemma copy_stdout_tracked:
  assumes law: "handle_laws os live" and t: "tracked n before (live w) 2 st" and "2 < n"
    and run: "copy_stdout os st w = (st', w')"
  shows "tracked n before (live w') 3 st'"
proof -
  have buf: "stdio_buffer n (buffer st)" and inv: "CHILD_STDIO_HANDLE (buffer st) 2 = INVALID_HANDLE_VALUE"
    using t assms(3) by (auto simp: tracked_def)
  obtain r w1 where r: "ws_duplicate os (CHILD_STDIO_HANDLE (buffer st) 1) w = (r, w1)" by force
  define b where "b = (case r of Inl _ \<Rightarrow> buffer st | Inr h \<Rightarrow> set_handle 2 h (buffer st))"
  have st': "st' = st\<lparr>buffer := set_flags 2 (FOPEN OR FDEV) (set_flags 1 (FOPEN OR FDEV) b)\<rparr>" and w': "w' = w1"
    using run r by (auto simp: copy_stdout_def b_def Let_def)
  have b: "stdio_buffer n b" using buf set_handle_layout(1) [OF buf assms(3)] by (cases r) (simp_all add: b_def)
  have one: "1 < n" using assms(3) by simp
  note f1 = set_flags_layout [OF b one] note f2 = set_flags_layout [OF f1(1) assms(3)]
  have handles: "child_handles n (buffer st') = child_handles n b"
    unfolding st' using child_handles_flags [OF f1(1) assms(3)] child_handles_flags [OF b one] by simp
  have live: "live w1 = before \<union> (child_handles n b \<union> set (stdio_pipes st)) \<and> (child_handles n b \<union> set (stdio_pipes st)) \<inter> before = {}"
  proof (cases r)
    case (Inl e)
    with acquiresD(1) [OF handle_lawsD(2) [OF law] r [unfolded Inl]] t show ?thesis by (simp add: b_def tracked_def owned_def)
  next
    case (Inr h)
    with acquiresD(2) [OF handle_lawsD(2) [OF law] r [unfolded Inr]]
    have h: "h \<notin> live w" "h \<noteq> INVALID_HANDLE_VALUE" "live w1 = insert h (live w)" by simp_all
    have "child_handles n b = insert h (child_handles n (buffer st))"
      using child_handles_set [OF buf assms(3) inv h(2)] Inr by (simp add: b_def)
    with h t show ?thesis by (auto simp: tracked_def owned_def)
  qed
  have rest: "CHILD_STDIO_HANDLE (buffer st') j = INVALID_HANDLE_VALUE" if "j < n" "3 \<le> j" for j
  proof -
    have "CHILD_STDIO_HANDLE b j = CHILD_STDIO_HANDLE (buffer st) j"
      using that set_handle_layout(2) [OF buf assms(3) that(1)] by (cases r) (simp_all add: b_def)
    with that t f2(2) [OF that(1)] f1(2) [OF that(1)] show ?thesis by (simp add: st' tracked_def)
  qed
  show ?thesis
    using f2(1) handles live rest unfolding tracked_def owned_def w' by (simp add: st')
qed

lemma stdio_one_tracked:
  assumes law: "handle_laws os live" and t: "tracked n before (live w) i st" and i: "i < n"
    and run: "stdio_one os i out st w = (r, w')"
  shows "case r of Inl (Inl _) \<Rightarrow> True | Inl (Inr _) \<Rightarrow> live w' = live w | Inr st' \<Rightarrow> tracked n before (live w') (i + 1) st'"
proof -
  have acquired: ?thesis if "acquires live call" "call w = (q, w')"
    and "r = (case q of Inl err \<Rightarrow> Inl (Inr err) | Inr h \<Rightarrow> Inr (put_handle i f h st))" for call q f
    using that acquiresD [OF that(1), of w] tracked_put [OF t i] by (cases q) auto
  consider (nul) "out = Null_output" | (copy) "out = String_output ''2>&1''" "i = 2"
    | (pipe) s where "out = String_output s" "s = ''|''"
    | (named) s where "out = String_output s" "\<not> (i = 2 \<and> s = ''2>&1'')" "s \<noteq> ''|''" "s \<noteq> []"
    | (inherit) "stdio_one os i out st w = inherit_connection os i out st w"
    by (cases out) (force simp: stdio_one_def)+
  then show ?thesis
  proof cases
    case nul
    obtain q w1 where q: "ws_create_file os ''NUL'' (i = 0) OPEN_EXISTING w = (q, w1)" by force
    with run nul show ?thesis
      by (intro acquired [OF handle_lawsD(1) [OF law], of "''NUL''" "i = 0" OPEN_EXISTING q "FOPEN OR FDEV"])
        (auto simp: stdio_one_def split: sum.splits)
  next
    case copy
    obtain st' where "copy_stdout os st w = (st', w')" "r = Inr st'"
      using run copy by (auto simp: stdio_one_def split: prod.splits)
    with copy_stdout_tracked [OF law _ _ this(1), of n before] t i copy(2) show ?thesis by simp
  next
    case pipe
    obtain q w1 where q: "ws_pipe os (i = 0) w = (q, w1)" by force
    show ?thesis
    proof (cases q)
      case (Inl e)
      with run pipe q show ?thesis by (auto simp: stdio_one_def)
    next
      case (Inr pc)
      obtain p c where pc: "pc = (p, c)" by force
      show ?thesis
      proof (cases "i \<ge> 3")
        case True
        with run pipe q Inr pc show ?thesis by (auto simp: stdio_one_def)
      next
        case False
        with run pipe q Inr pc have r: "r = Inr ((put_handle i (FOPEN OR FPIPE) c st)\<lparr>stdio_pipes := stdio_pipes st @ [p]\<rparr>)" "w' = w1"
          by (auto simp: stdio_one_def)
        have new: "p \<notin> live w" "c \<notin> live w" "c \<noteq> INVALID_HANDLE_VALUE" "live w1 = insert p (insert c (live w))"
          using handle_lawsD(4) [OF law q [unfolded Inr pc]] by simp_all
        from tracked_put [OF t i new(2,3)] new(1,4) t r show ?thesis
          by (auto simp: tracked_def owned_def put_handle_def)
      qed
    qed
  next
    case named
    obtain q w1 where q: "open_file os i s w = (q, w1)" by force
    with run named show ?thesis
      by (intro acquired [OF open_file_acquires [OF law], of i s q "FOPEN OR FDEV"]) (auto simp: stdio_one_def split: sum.splits)
  next
    case inherit
    with inherit_tracked [OF law t i] run show ?thesis by simp
  qed
qed

lemma destroy_closes:
  assumes "handle_laws os live" and "CHILD_STDIO_COUNT buf = n"
  shows "live (processx__stdio_destroy os buf w) = live w - child_handles n buf"
proof -
  have "live (fold (\<lambda>i w. let h = CHILD_STDIO_HANDLE buf i in if h \<noteq> INVALID_HANDLE_VALUE then ws_close os h w else w) [0..<m] w)
      = live w - child_handles m buf" for m
  proof (induction m)
    case (Suc m)
    then show ?case
      by (auto simp: Let_def child_handles_def handle_lawsD(5) [OF assms(1)] less_Suc_eq)
  qed (simp add: child_handles_def)
  then show ?thesis by (simp add: processx__stdio_destroy_def assms(2))
qed

lemma error_closes:
  assumes "handle_laws os live" and "stdio_buffer n (buffer st)"
  shows "live (stdio_error os st w) = live w - owned n st"
proof -
  have "live (fold (ws_destroy_connection os) hs v) = live v - set hs" for hs v
    by (induction hs arbitrary: v) (auto simp: handle_lawsD(6) [OF assms(1)])
  then show ?thesis using assms destroy_closes [OF assms(1)] by (auto simp: stdio_error_def owned_def stdio_buffer_def)
qed

lemma stdio_loop_tracked:
  assumes "handle_laws os live" and "tracked n before (live w) i st" and "i + length connections \<le> n"
    and "stdio_loop os i connections st w = (r, w')"
  shows "case r of Inl (Inl _) \<Rightarrow> True | Inl (Inr _) \<Rightarrow> live w' = before | Inr st' \<Rightarrow> tracked n before (live w') (i + length connections) st'"
  using assms
proof (induction os i connections st w rule: stdio_loop.induct)
  case (2 os i out connections st w)
  obtain q w1 where q: "stdio_one os i out st w = (q, w1)" by force
  have i: "i < n" using 2(4) by simp
  note one = stdio_one_tracked [OF 2(2,3) i q]
  show ?case
  proof (cases q)
    case (Inl e)
    show ?thesis
    proof (cases e)
      case e: (Inr err)
      have "live (stdio_error os st w1) = before"
        using error_closes [OF 2(2), of n st w1] one 2(3) Inl e by (auto simp: tracked_def)
      with 2(5) q Inl e show ?thesis by auto
    qed (use 2(5) q Inl in auto)
  next
    case (Inr st1)
    with 2 q one show ?thesis by (auto split: sum.splits)
  qed
qed auto


text \<open>A system that numbers its handles; the state is the list of the open ones.\<close>

definition new_handle :: "handle list \<Rightarrow> (int + handle) \<times> handle list" where
  "new_handle w =
     (let h = of_nat (4 + 4 * length w)
      in if h \<in> set w \<or> h = INVALID_HANDLE_VALUE then (Inl 8, w) else (Inr h, h # w))"

definition numbering_os :: "handle list ws_os" where
  "numbering_os = \<lparr>
     ws_create_file = \<lambda>s inp d w. if s = ''missing'' then (Inl 2, w) else new_handle w,
     ws_seek_end = \<lambda>h w. w, ws_pipe = \<lambda>inp w. (Inl (R_error ''no pipes''), w), ws_duplicate = \<lambda>h. new_handle,
     ws_file_type = \<lambda>h w. FILE_TYPE_DISK, ws_std_handle = \<lambda>n w. 0, ws_osfhandle = \<lambda>n w. 0,
     ws_close = \<lambda>h. removeAll h, ws_destroy_connection = \<lambda>h. removeAll h, ws_no_inherit = \<lambda>h w. w\<rparr>"

lemma numbering_laws: "handle_laws numbering_os set"
  by (auto simp: handle_laws_def numbering_os_def acquires_def new_handle_def Let_def)


end
