(* ===== verification/Win_Thread.thy ===== *)
theory Win_Thread
  imports Prelude
begin

text \<open>
  The I/O thread on Windows (src/src/win/thread.c): R gives it one command at a time through shared
  variables and two events, and waits for the result. A step relation interleaves the two threads, one access of
  the shared variables at a time.
\<close>

section \<open>The shared variables and the two threads\<close>

datatype thread_cmd =
    PROCESSX__THREAD_CMD_INIT | PROCESSX__THREAD_CMD_IDLE | PROCESSX__THREAD_CMD_READFILE
  | PROCESSX__THREAD_CMD_GETSTATUS | PROCESSX__THREAD_CMD_CONNECTPIPE

text \<open>
  Where R is: outside of the calls, after it has stored the command, after it has stored the arguments, waiting for
  \<open>processx__thread_done\<close> (after the first \<open>SetEvent\<close>), or about to read the result. And where the loop of the
  I/O thread is: waiting for \<open>processx__thread_start\<close>, having reset the result or about to, after a
  failed command, after a command, and having set the command to idle.
\<close>

datatype 'a caller = Ready | Cmd_stored thread_cmd 'a | Data_stored thread_cmd 'a | Waiting thread_cmd 'a | Returning thread_cmd 'a

datatype io_thread = Io_waiting | Io_woken | Io_reset | Io_failed int | Io_finished | Io_idle

text \<open>
  The events reset themselves when a wait ends. \<open>executed\<close> are the commands with their arguments and
  results in the order they were carried out, and \<open>returned\<close> what the calls gave R, with the error
  code that \<open>processx__thread_get_last_error\<close> returns after each.
\<close>

record ('a, 'w) threads =
  thread_start :: bool
  thread_done :: bool
  cmd :: thread_cmd
  data :: "'a option"
  success :: bool
  last_error :: int
  caller :: "'a caller"
  io :: io_thread
  tworld :: 'w
  executed :: "(thread_cmd \<times> 'a \<times> bool \<times> int) list"
  returned :: "(thread_cmd \<times> 'a \<times> bool \<times> int) list"

text \<open>
  The commands themselves (\<open>ReadFile\<close>, \<open>GetQueuedCompletionStatus\<close> and \<open>ConnectNamedPipe\<close> with their
  preparations) are given by \<open>exec\<close>, which has the result and the code of \<open>GetLastError\<close>.
\<close>

type_synonym ('a, 'w) command = "thread_cmd \<Rightarrow> 'a \<Rightarrow> 'w \<Rightarrow> bool \<times> int \<times> 'w"

definition carry_out :: "('a, 'w) command \<Rightarrow> thread_cmd \<Rightarrow> 'a \<Rightarrow> 'w \<Rightarrow> bool \<times> int \<times> 'w" where
  "carry_out exec c a w = (if c \<in> {PROCESSX__THREAD_CMD_INIT, PROCESSX__THREAD_CMD_IDLE} then (True, 0, w) else exec c a w)"

inductive step :: "('a, 'w) command \<Rightarrow> ('a, 'w) threads \<Rightarrow> ('a, 'w) threads \<Rightarrow> bool" for exec where
  store_cmd: "caller s = Ready \<Longrightarrow> step exec s (s\<lparr>cmd := c, caller := Cmd_stored c a\<rparr>)"
| store_data: "caller s = Cmd_stored c a \<Longrightarrow> step exec s (s\<lparr>data := Some a, caller := Data_stored c a\<rparr>)"
| signal_start: "caller s = Data_stored c a \<Longrightarrow> step exec s (s\<lparr>thread_start := True, caller := Waiting c a\<rparr>)"
| wait_done: "caller s = Waiting c a \<Longrightarrow> thread_done s \<Longrightarrow> step exec s (s\<lparr>thread_done := False, caller := Returning c a\<rparr>)"
| return_result: "caller s = Returning c a \<Longrightarrow>
    step exec s (s\<lparr>returned := returned s @ [(c, a, success s, last_error s)], caller := Ready\<rparr>)"
| wait_start: "io s = Io_waiting \<Longrightarrow> thread_start s \<Longrightarrow> step exec s (s\<lparr>thread_start := False, io := Io_woken\<rparr>)"
| reset: "io s = Io_woken \<Longrightarrow> step exec s (s\<lparr>success := True, last_error := 0, io := Io_reset\<rparr>)"
| run: "io s = Io_reset \<Longrightarrow> data s = Some a \<Longrightarrow> carry_out exec (cmd s) a (tworld s) = (ok, err, w) \<Longrightarrow>
    step exec s (s\<lparr>success := ok, tworld := w, executed := executed s @ [(cmd s, a, ok, if ok then 0 else err)],
      io := if ok then Io_finished else Io_failed err\<rparr>)"
| store_error: "io s = Io_failed err \<Longrightarrow> step exec s (s\<lparr>last_error := err, io := Io_finished\<rparr>)"
| set_idle: "io s = Io_finished \<Longrightarrow> step exec s (s\<lparr>cmd := PROCESSX__THREAD_CMD_IDLE, io := Io_idle\<rparr>)"
| signal_done: "io s = Io_idle \<Longrightarrow> step exec s (s\<lparr>thread_done := True, io := Io_waiting\<rparr>)"

inductive_cases step_cases: "step exec s t"

text \<open>After \<open>processx__start_thread\<close>, when the thread was started and has answered once.\<close>

definition thread_started :: "'w \<Rightarrow> ('a, 'w) threads" where
  "thread_started w = \<lparr>thread_start = False, thread_done = False, cmd = PROCESSX__THREAD_CMD_IDLE, data = None, success = True,
     last_error = 0, caller = Ready, io = Io_waiting, tworld = w, executed = [], returned = []\<rparr>"

inductive reachable :: "('a, 'w) command \<Rightarrow> ('a, 'w) threads \<Rightarrow> bool" for exec where
  start: "reachable exec (thread_started w)"
| next_step: "reachable exec s \<Longrightarrow> step exec s t \<Longrightarrow> reachable exec t"

section \<open>The invariant\<close>

text \<open>What each thread may touch: R the command and its arguments, or the result; the I/O thread all of them.\<close>

definition caller_accesses :: "('a, 'w) threads \<Rightarrow> bool" where
  "caller_accesses s \<longleftrightarrow> (case caller s of Waiting _ _ \<Rightarrow> False | _ \<Rightarrow> True)"

definition io_accesses :: "('a, 'w) threads \<Rightarrow> bool" where
  "io_accesses s \<longleftrightarrow> io s \<noteq> Io_waiting"

text \<open>The turn is with R, or with the I/O thread, or on the way from one to the other as one of the events.\<close>

definition in_turn :: "('a, 'w) threads \<Rightarrow> bool" where
  "in_turn s \<longleftrightarrow>
     (case caller s of
        Waiting c a \<Rightarrow>
          data s = Some a \<and>
          (case io s of
             Io_waiting \<Rightarrow>
               if thread_start s then \<not> thread_done s \<and> cmd s = c \<and> executed s = returned s
               else thread_done s \<and> executed s = returned s @ [(c, a, success s, last_error s)]
           | Io_woken \<Rightarrow> \<not> thread_start s \<and> \<not> thread_done s \<and> cmd s = c \<and> executed s = returned s
           | Io_reset \<Rightarrow> \<not> thread_start s \<and> \<not> thread_done s \<and> cmd s = c \<and> executed s = returned s \<and> last_error s = 0
           | Io_failed e \<Rightarrow> \<not> thread_start s \<and> \<not> thread_done s \<and> executed s = returned s @ [(c, a, success s, e)]
           | _ \<Rightarrow> \<not> thread_start s \<and> \<not> thread_done s \<and> executed s = returned s @ [(c, a, success s, last_error s)])
      | Returning c a \<Rightarrow>
          io s = Io_waiting \<and> \<not> thread_start s \<and> \<not> thread_done s \<and> executed s = returned s @ [(c, a, success s, last_error s)]
      | Ready \<Rightarrow> io s = Io_waiting \<and> \<not> thread_start s \<and> \<not> thread_done s \<and> executed s = returned s
      | Cmd_stored c a \<Rightarrow> io s = Io_waiting \<and> \<not> thread_start s \<and> \<not> thread_done s \<and> executed s = returned s \<and> cmd s = c
      | Data_stored c a \<Rightarrow>
          io s = Io_waiting \<and> \<not> thread_start s \<and> \<not> thread_done s \<and> executed s = returned s \<and> cmd s = c \<and> data s = Some a)"

lemma step_in_turn:
  assumes "step exec s t" and "in_turn s"
  shows "in_turn t"
  using assms by (cases rule: step.cases) (auto simp: in_turn_def split: caller.splits io_thread.splits if_splits)

lemma reachable_in_turn: "reachable exec s \<Longrightarrow> in_turn s"
proof (induction rule: reachable.induct)
  case (start w)
  show ?case by (simp add: thread_started_def in_turn_def)
next
  case (next_step s t)
  then show ?case by (blast intro: step_in_turn)
qed

section \<open>Progress\<close>

text \<open>How many steps the I/O thread and the wake-up of R need at most.\<close>

definition remaining :: "('a, 'w) threads \<Rightarrow> nat" where
  "remaining s =
     (case io s of
        Io_waiting \<Rightarrow> if thread_start s then 7 else 1
      | Io_woken \<Rightarrow> 6 | Io_reset \<Rightarrow> 5 | Io_failed _ \<Rightarrow> 4 | Io_finished \<Rightarrow> 3 | Io_idle \<Rightarrow> 2)"

lemma remaining_bound: "remaining s \<le> 7"
  by (simp add: remaining_def split: io_thread.split)

lemma waiting_step:
  assumes "step exec s t" and "in_turn s" and "caller s = Waiting c a"
  shows "caller t = Returning c a \<or> caller t = Waiting c a \<and> remaining t < remaining s"
  using assms by (cases rule: step.cases) (auto simp: in_turn_def remaining_def split: io_thread.splits if_splits)

lemma waiting_enabled:
  assumes "in_turn s" and "caller s = Waiting c a"
  shows "\<exists>t. step exec s t"
proof (cases "io s")
  case Io_waiting
  with assms show ?thesis
    by (cases "thread_start s") (auto simp: in_turn_def intro: step.wait_start step.wait_done)
next
  case Io_reset
  with assms have "data s = Some a" by (simp add: in_turn_def)
  moreover obtain ok err w where "carry_out exec (cmd s) a (tworld s) = (ok, err, w)" by (rule prod_cases3)
  ultimately show ?thesis using step.run [OF Io_reset] by blast
qed (blast intro: step.intros)+

section \<open>Properties\<close>

text \<open>C9: R and the I/O thread never access the shared variables at the same time, and every call has been carried out
  exactly once, in order, with its own arguments, when it returns with its own result and error code; at
  most the call that has not returned yet is ahead.\<close>

theorem thread_calls_in_turn:
  assumes "reachable exec s"
  shows "\<not> (caller_accesses s \<and> io_accesses s) \<and>
    (caller s = Ready \<longrightarrow> returned s = executed s) \<and> (\<exists>ahead. executed s = returned s @ ahead \<and> length ahead \<le> 1)"
  using reachable_in_turn [OF assms]
  by (auto simp: in_turn_def caller_accesses_def io_accesses_def split: caller.splits io_thread.splits if_splits)

text \<open>C26: a call cannot hang in the hand-over: while R waits some thread can go on, and however the threads are
  interleaved the call returns after at most eight steps.\<close>

theorem thread_call_returns:
  assumes "reachable exec s" and "caller s = Waiting c a"
  shows "(\<exists>t. step exec s t) \<and>
    (\<forall>f. f 0 = s \<and> (\<forall>i. i < 8 \<longrightarrow> step exec (f i) (f (Suc i))) \<longrightarrow> (\<exists>k \<le> 8. caller (f k) = Returning c a))"
proof (intro conjI allI impI)
  show "\<exists>t. step exec s t" by (rule waiting_enabled [OF reachable_in_turn [OF assms(1)] assms(2)])
next
  fix f assume f: "f 0 = s \<and> (\<forall>i. i < 8 \<longrightarrow> step exec (f i) (f (Suc i)))"
  show "\<exists>k \<le> 8. caller (f k) = Returning c a"
  proof (rule ccontr)
    assume no: "\<not> (\<exists>k \<le> 8. caller (f k) = Returning c a)"
    have "n \<le> 8 \<Longrightarrow> in_turn (f n) \<and> caller (f n) = Waiting c a \<and> remaining (f n) + n \<le> remaining s" for n
    proof (induction n)
      case 0
      with f assms reachable_in_turn [OF assms(1)] show ?case by simp
    next
      case (Suc n)
      then have n: "in_turn (f n)" "caller (f n) = Waiting c a" "remaining (f n) + n \<le> remaining s" and s: "step exec (f n) (f (Suc n))"
        using f by auto
      have "caller (f (Suc n)) \<noteq> Returning c a" using no Suc.prems by blast
      with waiting_step [OF s n(1,2)] step_in_turn [OF s n(1)] n(3) show ?case by auto
    qed
    from this [of 8] remaining_bound [of s] show False by simp
  qed
qed

text \<open>A call whose command was just handed over.\<close>

definition handed_over :: "(nat, unit) threads" where
  "handed_over = (thread_started ())\<lparr>cmd := PROCESSX__THREAD_CMD_READFILE, data := Some 5, thread_start := True,
     caller := Waiting PROCESSX__THREAD_CMD_READFILE 5\<rparr>"

lemma handed_over_reachable: "reachable exec handed_over"
proof -
  let ?s1 = "(thread_started ())\<lparr>cmd := PROCESSX__THREAD_CMD_READFILE, caller := Cmd_stored PROCESSX__THREAD_CMD_READFILE (5 :: nat)\<rparr>"
  let ?s2 = "?s1\<lparr>data := Some 5, caller := Data_stored PROCESSX__THREAD_CMD_READFILE 5\<rparr>"
  have "reachable exec ?s1" by (rule next_step [OF start store_cmd]) (simp add: thread_started_def)
  then have "reachable exec ?s2" by (rule next_step) (rule store_data, simp)
  then have "reachable exec (?s2\<lparr>thread_start := True, caller := Waiting PROCESSX__THREAD_CMD_READFILE 5\<rparr>)"
    by (rule next_step) (rule signal_start, simp)
  then show ?thesis by (simp add: handed_over_def)
qed

theorem thread_calls_in_turn_witness:
  "\<not> (caller_accesses handed_over \<and> io_accesses handed_over) \<and> (\<exists>ahead. executed handed_over = returned handed_over @ ahead \<and> length ahead \<le> 1)"
  using thread_calls_in_turn [OF handed_over_reachable] by blast

theorem thread_call_returns_witness: "\<exists>t. step (\<lambda>c a w. (True, 0, w)) handed_over t"
  using thread_call_returns [OF handed_over_reachable, of PROCESSX__THREAD_CMD_READFILE 5] by (simp add: handed_over_def)

end
