(* ===== verification/Create_Time.thy ===== *)
theory Create_Time
  imports Decimal
begin

text \<open>
  When a process was created, on Linux (src/src/create-time.c): reading a file of /proc, and finding
  the start time in the line of /proc/<pid>/stat. The sums in floating point numbers that make a date
  of it are not modelled.
\<close>

section \<open>Reading a file\<close>

record 'w ct_os =
  ct_open :: "string \<Rightarrow> ('w, int) syscall"
  ct_read :: "int \<Rightarrow> nat \<Rightarrow> ('w, string) syscall"
  ct_close :: "int \<Rightarrow> 'w \<Rightarrow> 'w"

text \<open>
  The loop has read \<open>content\<close> into a buffer of \<open>buffer_size\<close>, so \<open>rem_size\<close> is the difference; a full
  buffer is doubled. When \<open>read\<close> fails the descriptor is closed and \<open>free\<close> is called for memory that
  came from \<open>R_alloc\<close>, which has no meaning.
\<close>

fun read_file_loop :: "nat \<Rightarrow> 'w ct_os \<Rightarrow> int \<Rightarrow> nat \<Rightarrow> string \<Rightarrow> ('w, string) operation" where
  "read_file_loop 0 co fd buffer_size content = throw Out_of_fuel"
| "read_file_loop (Suc n) co fd buffer_size content =
     (let size' = (if buffer_size - length content = 0 then buffer_size * 2 else buffer_size)
      in (\<lambda>w. case ct_read co fd (size' - length content) w of
           (Inl e, w') \<Rightarrow> throw (Undefined_behaviour ''free of memory from R_alloc'') (ct_close co fd w')
         | (Inr s, w') \<Rightarrow>
             if s = [] then (Inr content, ct_close co fd w')
             else read_file_loop n co fd size' (content @ s) w'))"

text \<open>\<open>Inl\<close> stands for the result -1 with its \<open>errno\<close>.\<close>

definition processx__read_file :: "nat \<Rightarrow> 'w ct_os \<Rightarrow> string \<Rightarrow> nat \<Rightarrow> ('w, errno + string) operation" where
  "processx__read_file fuel co path buffer_size = (\<lambda>w.
     case ct_open co path w of
       (Inl e, w') \<Rightarrow> (Inr (Inl e), w')
     | (Inr fd, w') \<Rightarrow> andthen (read_file_loop fuel co fd buffer_size []) (\<lambda>content. ret (Inr content)) w')"

section \<open>Parsing\<close>

definition c_string :: "string \<Rightarrow> string" where
  "c_string mem = takeWhile (\<lambda>c. c \<noteq> CHR 0x00) mem"

definition strrchr :: "string \<Rightarrow> char \<Rightarrow> nat option" where
  "strrchr s c = (if c \<in> set s then Some (length s - 1 - length (takeWhile (\<lambda>x. x \<noteq> c) (rev s))) else None)"

text \<open>
  A number of \<open>sscanf\<close> and what follows it: white space, a sign, at least one digit. \<open>scan_numbers\<close> are
  the numbers of \<open>n\<close> conversions, as far as they succeed.
\<close>

definition scan_number :: "string \<Rightarrow> (int \<times> string) option" where
  "scan_number s =
     (let s = dropWhile is_space s;
          negative = (s \<noteq> [] \<and> hd s = CHR ''-'');
          digits = (if s \<noteq> [] \<and> hd s \<in> {CHR ''-'', CHR ''+''} then tl s else s)
      in if digits \<noteq> [] \<and> is_digit (hd digits)
         then Some ((if negative then - digits_value digits 0 else digits_value digits 0), dropWhile is_digit digits)
         else None)"

fun scan_numbers :: "nat \<Rightarrow> string \<Rightarrow> int list" where
  "scan_numbers 0 s = []"
| "scan_numbers (Suc n) s =
     (case scan_number s of None \<Rightarrow> [] | Some (v, rest) \<Rightarrow> v # scan_numbers n rest)"

text \<open>
  The conversions of the format: a character and 19 numbers. The value is the result of \<open>sscanf\<close> and
  the numbers; the last of them has the type \<open>unsigned long long\<close>.
\<close>

definition sscanf_stat :: "string \<Rightarrow> int \<times> int list" where
  "sscanf_stat s =
     (if s = [] then (-1, [])
      else let numbers = scan_numbers 19 (tl s) in (1 + int (length numbers), numbers))"

definition to_ull :: "int \<Rightarrow> int" where
  "to_ull v = (if \<bar>v\<bar> \<ge> 2 ^ 64 then 2 ^ 64 - 1 else if v < 0 then 2 ^ 64 + v else v)"

definition show_int :: "int \<Rightarrow> string" where
  "show_int i = (if i < 0 then CHR ''-'' # decimal (nat (- i)) else decimal (nat i))"

definition stat_path :: "int \<Rightarrow> string" where
  "stat_path pid = ''/proc/'' @ show_int pid @ ''/stat''"

text \<open>
  The start time in clock ticks; 0 when it is not known. The last byte that was read is replaced by the
  terminator. \<open>sscanf\<close> starts two bytes after the last closing parenthesis, which must be in what was read.
\<close>

definition processx__create_time_since_boot :: "nat \<Rightarrow> 'w ct_os \<Rightarrow> int \<Rightarrow> ('w, int) operation" where
  "processx__create_time_since_boot fuel co pid =
     andthen (processx__read_file fuel co (stat_path pid) 2048) (\<lambda>res. case res of
       Inl e \<Rightarrow> ret 0
     | Inr content \<Rightarrow>
         if content = [] then throw (Undefined_behaviour ''write before the buffer'')
         else
           let mem = butlast content @ [CHR 0x00];
               buf = c_string mem
           in if CHR ''('' \<notin> set buf then ret 0
              else case strrchr buf (CHR '')'') of
                None \<Rightarrow> ret 0
              | Some r \<Rightarrow>
                  if r + 2 \<ge> length mem then throw (Undefined_behaviour ''read past what was read from the file'')
                  else
                    let (n, numbers) = sscanf_stat (c_string (drop (r + 2) mem))
                    in if n = 20 then ret (to_ull (numbers ! 18)) else ret 0)"

section \<open>Searching memory\<close>

text \<open>\<open>memchr\<close> from \<open>p\<close> on, before the end of the places where the needle fits.\<close>

function memmem_loop :: "string \<Rightarrow> string \<Rightarrow> nat \<Rightarrow> nat \<Rightarrow> nat option" where
  "memmem_loop haystack needle p p3 =
     (case find (\<lambda>q. haystack ! q = needle ! 0) [p..<p3] of
        None \<Rightarrow> None
      | Some q \<Rightarrow>
          if take (length needle) (drop q haystack) = needle then Some q
          else memmem_loop haystack needle (q + 1) p3)"
  by pat_completeness auto

termination
  by (relation "measure (\<lambda>(_, _, p, p3). p3 - p)") (auto simp: find_Some_iff)

declare memmem_loop.simps [simp del]

definition processx__memmem :: "string \<Rightarrow> string \<Rightarrow> nat option" where
  "processx__memmem haystack needle =
     (if needle = [] then Some 0
      else if length needle > length haystack then None
      else memmem_loop haystack needle 0 (length haystack - length needle + 1))"

section \<open>Properties\<close>

lemma find_upt_skip:
  assumes "p \<le> q" and "\<And>i. p \<le> i \<Longrightarrow> i < q \<Longrightarrow> \<not> P i"
  shows "find P [p..<n] = find P [q..<n]"
proof (cases "q \<le> n")
  case True
  with assms(1) have "[p..<n] = [p..<q] @ [q..<n]" by (metis upt_add_eq_append le_add_diff_inverse)
  moreover have "find P [p..<q] = None" using assms(2) by (auto simp: find_None_iff)
  moreover have "find P (xs @ ys) = (case find P xs of None \<Rightarrow> find P ys | Some x \<Rightarrow> Some x)" for xs ys
    by (induction xs) auto
  ultimately show ?thesis by simp
next
  case False
  then have "find P [p..<n] = None" using assms(2) by (auto simp: find_None_iff)
  with False show ?thesis by simp
qed

lemma memmem_loop_find:
  assumes "needle \<noteq> []" and "p3 + length needle \<le> length haystack + 1"
  shows "memmem_loop haystack needle p p3 = find (\<lambda>i. take (length needle) (drop i haystack) = needle) [p..<p3]"
  using assms
proof (induction haystack needle p p3 rule: memmem_loop.induct)
  case (1 haystack needle p p3)
  have first: "haystack ! i = needle ! 0" if "take (length needle) (drop i haystack) = needle" "i < p3" for i
  proof -
    have "0 < length needle" using 1(2) by simp
    then have "i < length haystack" using that(2) 1(3) by linarith
    with \<open>0 < length needle\<close>
    show ?thesis using arg_cong [OF that(1), of "\<lambda>s. s ! 0"] by simp
  qed
  show ?case
  proof (cases "find (\<lambda>q. haystack ! q = needle ! 0) [p..<p3]")
    case None
    then have "find (\<lambda>i. take (length needle) (drop i haystack) = needle) [p..<p3] = None"
      using first by (auto simp: find_None_iff)
    with None show ?thesis by (simp add: memmem_loop.simps)
  next
    case (Some q)
    then have q: "p \<le> q" "q < p3" "\<And>i. p \<le> i \<Longrightarrow> i < q \<Longrightarrow> haystack ! i \<noteq> needle ! 0"
    proof -
      from Some obtain k where k: "k < length [p..<p3]" "q = [p..<p3] ! k" "\<forall>j < k. haystack ! ([p..<p3] ! j) \<noteq> needle ! 0"
        by (auto simp: find_Some_iff)
      show "p \<le> q" "q < p3" using k by auto
      show "haystack ! i \<noteq> needle ! 0" if "p \<le> i" "i < q" for i
        using k(3) [rule_format, of "i - p"] k(1,2) that by auto
    qed
    then have skip: "find (\<lambda>i. take (length needle) (drop i haystack) = needle) [p..<p3]
        = find (\<lambda>i. take (length needle) (drop i haystack) = needle) [q..<p3]"
      using first by (intro find_upt_skip) (auto dest: less_trans)
    have "[q..<p3] = q # [q + 1..<p3]" using q(2) by (simp add: upt_conv_Cons)
    with Some 1 skip show ?thesis by (subst memmem_loop.simps) simp
  qed
qed

text \<open>The search in memory finds the first place where the needle occurs, and nothing when there is none.\<close>

theorem memmem_finds_first:
  "processx__memmem haystack needle
    = find (\<lambda>i. take (length needle) (drop i haystack) = needle) [0..<length haystack + 1 - length needle]"
proof (cases "needle = []")
  case True
  then show ?thesis by (simp add: processx__memmem_def upt_rec [of 0])
next
  case False
  then show ?thesis by (auto simp: processx__memmem_def memmem_loop_find Suc_diff_le)
qed

section \<open>The stat file\<close>

text \<open>
  A descriptor from which everything can be read, in pieces of any size; \<open>rest\<close> is what is left. And the line
  the kernel writes: the command may have any characters, the fields after the state are numbers.
\<close>

definition delivers :: "'w ct_os \<Rightarrow> int \<Rightarrow> ('w \<Rightarrow> string) \<Rightarrow> bool" where
  "delivers co fd rest \<longleftrightarrow>
     (\<forall>w n. n > 0 \<longrightarrow> (\<exists>s w'. ct_read co fd n w = (Inr s, w') \<and> rest w = s @ rest w' \<and> length s \<le> n \<and> (s = [] \<longrightarrow> rest w = [])))"

definition number_fields :: "int list \<Rightarrow> string" where
  "number_fields nums = concat (map (\<lambda>f. CHR '' '' # show_int f) nums)"

definition stat_line :: "int \<Rightarrow> string \<Rightarrow> char \<Rightarrow> int list \<Rightarrow> string" where
  "stat_line pid comm state nums = show_int pid @ '' ('' @ comm @ '') '' @ [state] @ number_fields nums @ [CHR 0x0A]"

lemma read_file_loop_delivers:
  assumes "delivers co fd rest" and "buffer_size > 0" and "length content \<le> buffer_size" and "length (rest w) < fuel"
  shows "\<exists>w'. read_file_loop fuel co fd buffer_size content w = (Inr (content @ rest w), w')"
  using assms(2-4)
proof (induction fuel arbitrary: buffer_size content w)
  case (Suc fuel)
  define size' where "size' = (if buffer_size - length content = 0 then buffer_size * 2 else buffer_size)"
  have "size' - length content > 0" using Suc.prems by (auto simp: size'_def)
  then obtain s w' where r: "ct_read co fd (size' - length content) w = (Inr s, w')" "rest w = s @ rest w'"
    "length s \<le> size' - length content" "s = [] \<Longrightarrow> rest w = []"
    using assms(1) unfolding delivers_def by meson
  have step: "read_file_loop (Suc fuel) co fd buffer_size content w
      = (if s = [] then (Inr content, ct_close co fd w') else read_file_loop fuel co fd size' (content @ s) w')"
    by (simp only: read_file_loop.simps Let_def size'_def [symmetric] r(1) prod.case sum.case)
  show ?case
  proof (cases "s = []")
    case True
    with r step show ?thesis by simp
  next
    case False
    have "buffer_size \<le> size'" by (simp add: size'_def)
    then have size: "size' > 0" "length (content @ s) \<le> size'" using r(3) Suc.prems(1,2) by auto
    moreover have "length (rest w') < fuel" using r(2) False Suc.prems(3) by (cases s) auto
    ultimately obtain w'' where "read_file_loop fuel co fd size' (content @ s) w' = (Inr ((content @ s) @ rest w'), w'')"
      using Suc.IH by blast
    with r(2) False step show ?thesis by simp
  qed
qed simp

lemma show_int_no: "c \<in> set (show_int i) \<Longrightarrow> is_digit c \<or> c = CHR ''-''"
  by (auto simp: show_int_def decimal_digits split: if_splits)

lemma decimal_starts: "decimal n \<noteq> [] \<and> is_digit (hd (decimal n))"
  using decimal_first [of n] digit_char by (metis list.sel(1) list.distinct(1))

lemma scan_show_int:
  assumes "s = [] \<or> \<not> is_digit (hd s)"
  shows "scan_number (CHR '' '' # show_int i @ s) = Some (i, s)"
proof -
  have tail: "dropWhile is_digit (decimal n @ s) = s" for n using assms by (cases s) (auto simp: dropWhile_decimal dropWhile_eq_Nil_conv decimal_digits)
  have vals: "digits_value (decimal n @ s) 0 = int n" for n
    using assms digits_value_decimal [of n s 0] by (cases s) auto
  have space: "is_space (CHR '' '')" by (simp add: is_space_def)
  have minus: "\<not> is_space (CHR ''-'')" by (simp add: is_space_def)
  note first = decimal_starts
  show ?thesis
  proof (cases "i < 0")
    case True
    then show ?thesis
      using first [of "nat (- i)"] by (simp add: show_int_def scan_number_def space minus Let_def tail vals)
  next
    case False
    obtain d cs where d: "decimal (nat i) = d # cs" using first [of "nat i"] by (cases "decimal (nat i)") auto
    then have "is_digit d" using first [of "nat i"] by simp
    note is_digit_char [OF this]
    then show ?thesis
      using False \<open>is_digit d\<close> tail [of "nat i"] vals [of "nat i"]
      by (simp add: show_int_def scan_number_def space Let_def d)
  qed
qed

lemma scan_number_fields: "scan_numbers n (number_fields nums) = take n nums"
proof (induction n arbitrary: nums)
  case (Suc n)
  show ?case
  proof (cases nums)
    case Nil
    then show ?thesis by (simp add: number_fields_def scan_number_def)
  next
    case (Cons f fs)
    have "number_fields fs = [] \<or> \<not> is_digit (hd (number_fields fs))"
      by (cases fs) (auto simp: number_fields_def is_digit_def)
    with Cons Suc show ?thesis using scan_show_int [of "number_fields fs" f] by (simp add: number_fields_def)
  qed
qed simp

lemma strrchr_last: "c \<notin> set b \<Longrightarrow> strrchr (a @ c # b) c = Some (length a)"
  by (simp add: strrchr_def takeWhile_append takeWhile_eq_all_conv)

lemma c_string_terminated: "CHR 0x00 \<notin> set s \<Longrightarrow> c_string (s @ [CHR 0x00]) = s"
  by (simp add: c_string_def takeWhile_append takeWhile_eq_all_conv)

lemma number_fields_chars: "c \<in> set (number_fields nums) \<Longrightarrow> is_digit c \<or> c = CHR ''-'' \<or> c = CHR '' ''"
  unfolding number_fields_def by (auto dest: show_int_no split: if_splits)


text \<open>A system whose files are delivered in pieces of at most ten bytes; the state is the rest of the file.\<close>

definition file_os :: "string ct_os" where
  "file_os = \<lparr>ct_open = \<lambda>path w. (Inr 3, w), ct_read = \<lambda>fd n w. (Inr (take (min n 10) w), drop (min n 10) w), ct_close = \<lambda>fd w. w\<rparr>"

definition sample_nums :: "int list" where "sample_nums = [1, 7, 7, 0, -1] @ replicate 13 0 @ [4711, 5]"

definition sample_line :: string where "sample_line = stat_line 7 ''a) (b'' (CHR ''S'') sample_nums"


section \<open>A process that ends while it is looked at\<close>

text \<open>When the read fails, as it does with \<open>ESRCH\<close> when the process ended after the file was opened, the function
  releases memory that belongs to R.\<close>

lemma ended_process_frees_r_memory:
  assumes "ct_open co (stat_path pid) w = (Inr fd, w1)" and "ct_read co fd 2048 w1 = (Inl ESRCH, w2)"
  shows "fst (processx__create_time_since_boot (Suc fuel) co pid w) = Inl (Undefined_behaviour ''free of memory from R_alloc'')"
  using assms by (simp add: processx__create_time_since_boot_def processx__read_file_def andthen_def)

end
