(* ===== verification/Cleancall.thy ===== *)
theory Cleancall
  imports Prelude
begin

text \<open>
  Exit handlers (src/src/cleancall.c): C functions register handlers that run when the call from R
  ends, also when it ends by a jump, in nested contexts. What the development of the processes uses
  of it is the case of one context.
\<close>

section \<open>The stack of callbacks\<close>

text \<open>
  A callback holds a handler with its data, or nothing when it is preallocated. \<open>callbacks\<close> is \<open>NULL\<close> before the
  first context, \<open>R_NilValue\<close> outside of contexts after it, and else the list behind the protecting
  node, the preallocated callback first. Handlers are given by names; \<open>ran\<close> are those that were run.
\<close>

record 'h callback =
  handler :: "'h option"
  early_handler :: bool

datatype 'h stack = Null | NilValue | Stack "'h callback list"

record 'h cleancall =
  callbacks :: "'h stack"
  ran :: "'h list"

definition preallocated :: "'h callback" where
  "preallocated = \<lparr>handler = None, early_handler = False\<rparr>"

fun push_callback :: "'h stack \<Rightarrow> 'h stack" where
  "push_callback (Stack cbs) = Stack (preallocated # cbs)"
| "push_callback s = s"

section \<open>Registering and running handlers\<close>

text \<open>Outside of a context the handler is run at once; with \<open>R_NilValue\<close> the code writes into that object.\<close>

definition call_save_handler :: "'h \<Rightarrow> bool \<Rightarrow> ('h cleancall, unit) operation" where
  "call_save_handler fn early = (\<lambda>s.
     case callbacks s of
       Null \<Rightarrow> (Inl (R_error ''Exit handler pushed outside of an exit context''), s\<lparr>ran := ran s @ [fn]\<rparr>)
     | Stack (cb # cbs) \<Rightarrow>
         (Inr (), s\<lparr>callbacks := push_callback (Stack (cb\<lparr>handler := Some fn, early_handler := early\<rparr> # cbs))\<rparr>)
     | _ \<Rightarrow> (Inl (Undefined_behaviour ''changing R_NilValue''), s))"

definition r_call_on_exit :: "'h \<Rightarrow> ('h cleancall, unit) operation" where
  "r_call_on_exit fn = call_save_handler fn False"

definition r_call_on_early_exit :: "'h \<Rightarrow> ('h cleancall, unit) operation" where
  "r_call_on_early_exit fn = call_save_handler fn True"

fun run_callbacks :: "bool \<Rightarrow> 'h callback list \<Rightarrow> 'h cleancall \<Rightarrow> 'h cleancall" where
  "run_callbacks success [] s = s"
| "run_callbacks success (cb # cbs) s =
     run_callbacks success cbs
       (case handler cb of
          None \<Rightarrow> s
        | Some fn \<Rightarrow> if \<not> early_handler cb \<or> \<not> success then s\<lparr>ran := ran s @ [fn]\<rparr> else s)"

definition call_exits :: "'h stack \<Rightarrow> bool \<Rightarrow> 'h cleancall \<Rightarrow> 'h cleancall" where
  "call_exits old success s =
     (let top = (case callbacks s of Stack cbs \<Rightarrow> cbs | _ \<Rightarrow> [])
      in run_callbacks success top (s\<lparr>callbacks := old\<rparr>))"

text \<open>\<open>R_ExecWithCleanup\<close> runs the clean-up whether the function returned or jumped.\<close>

definition r_with_cleanup_context :: "('h cleancall, 'a) operation \<Rightarrow> ('h cleancall, 'a) operation" where
  "r_with_cleanup_context fn = (\<lambda>s.
     let old = (if callbacks s = Null then NilValue else callbacks s)
     in case fn (s\<lparr>callbacks := push_callback (Stack [])\<rparr>) of
          (result, s') \<Rightarrow> (result, call_exits old (case result of Inl _ \<Rightarrow> False | Inr _ \<Rightarrow> True) s'))"

section \<open>Which handlers run\<close>

text \<open>
  What a C function does with the interface: it registers handlers, makes calls with contexts of their
  own, and may jump. \<open>perform\<close> does this with the operations above; \<open>outcome\<close> says without any stack
  whether it ends normally, which handlers of inner contexts run, and which handlers it registered.
\<close>

datatype 'h action = On_exit 'h bool | Nested "'h action list" | Jump r_error

fun perform :: "'h action list \<Rightarrow> ('h cleancall, unit) operation" where
  "perform [] s = (Inr (), s)"
| "perform (On_exit h early # as) s = andthen (call_save_handler h early) (\<lambda>_. perform as) s"
| "perform (Jump e # as) s = (Inl e, s)"
| "perform (Nested bs # as) s = andthen (r_with_cleanup_context (perform bs)) (\<lambda>_. perform as) s"

definition due :: "bool \<Rightarrow> ('h \<times> bool) list \<Rightarrow> 'h list" where
  "due success registered = map fst (filter (\<lambda>(h, early). \<not> early \<or> \<not> success) (rev registered))"

fun outcome :: "'h action list \<Rightarrow> (r_error + unit) \<times> 'h list \<times> ('h \<times> bool) list" where
  "outcome [] = (Inr (), [], [])"
| "outcome (On_exit h early # as) = (case outcome as of (r, log, registered) \<Rightarrow> (r, log, (h, early) # registered))"
| "outcome (Jump e # as) = (Inl e, [], [])"
| "outcome (Nested bs # as) =
     (case outcome bs of (r, log, registered) \<Rightarrow>
        (case r of
           Inl e \<Rightarrow> (Inl e, log @ due False registered, [])
         | Inr _ \<Rightarrow> (case outcome as of (r2, log2, registered2) \<Rightarrow> (r2, log @ due True registered @ log2, registered2))))"

definition saved :: "('h \<times> bool) list \<Rightarrow> 'h callback list" where
  "saved registered = map (\<lambda>(h, early). \<lparr>handler = Some h, early_handler = early\<rparr>) (rev registered)"

lemma run_callbacks_saved:
  "run_callbacks success (map (\<lambda>(h, early). \<lparr>handler = Some h, early_handler = early\<rparr>) xs) s
    = s\<lparr>ran := ran s @ map fst (filter (\<lambda>(h, early). \<not> early \<or> \<not> success) xs)\<rparr>"
  by (induction xs arbitrary: s) (auto split: prod.splits)

lemma context_outcome:
  assumes "\<And>s cbs. callbacks s = Stack (preallocated # cbs) \<Longrightarrow>
    perform as s = (r, s\<lparr>callbacks := Stack (preallocated # saved registered @ cbs), ran := ran s @ log\<rparr>)"
  shows "r_with_cleanup_context (perform as) s
    = (r, s\<lparr>callbacks := if callbacks s = Null then NilValue else callbacks s,
            ran := ran s @ log @ due (case r of Inl _ \<Rightarrow> False | Inr _ \<Rightarrow> True) registered\<rparr>)"
proof -
  have "perform as (s\<lparr>callbacks := Stack [preallocated]\<rparr>)
      = (r, s\<lparr>callbacks := Stack (preallocated # saved registered), ran := ran s @ log\<rparr>)"
    using assms [of "s\<lparr>callbacks := Stack [preallocated]\<rparr>" "[]"] by simp
  then show ?thesis
    by (simp add: r_with_cleanup_context_def call_exits_def preallocated_def saved_def run_callbacks_saved due_def Let_def)
qed

lemma perform_outcome:
  assumes "outcome as = (r, log, registered)" and "callbacks s = Stack (preallocated # cbs)"
  shows "perform as s = (r, s\<lparr>callbacks := Stack (preallocated # saved registered @ cbs), ran := ran s @ log\<rparr>)"
  using assms
proof (induction as arbitrary: r log registered s cbs rule: outcome.induct)
  case 1
  then show ?case by (simp add: saved_def)
next
  case (2 h early as)
  obtain r' log' registered' where o: "outcome as = (r', log', registered')" by (rule prod_cases3)
  let ?s = "s\<lparr>callbacks := Stack (preallocated # \<lparr>handler = Some h, early_handler = early\<rparr> # cbs)\<rparr>"
  have "call_save_handler h early s = (Inr (), ?s)"
    using 2(3) by (simp add: call_save_handler_def preallocated_def)
  moreover have "perform as ?s = (r', ?s\<lparr>callbacks := Stack (preallocated # saved registered' @ \<lparr>handler = Some h, early_handler = early\<rparr> # cbs), ran := ran ?s @ log'\<rparr>)"
    by (rule 2(1) [OF o]) simp
  ultimately show ?case using 2(2) o by (auto simp: saved_def)
next
  case (3 e as)
  then show ?case by (simp add: saved_def)
next
  case (4 bs as)
  obtain r1 log1 registered1 where o1: "outcome bs = (r1, log1, registered1)" by (rule prod_cases3)
  obtain r2 log2 registered2 where o2: "outcome as = (r2, log2, registered2)" by (rule prod_cases3)
  have inner: "r_with_cleanup_context (perform bs) s
    = (r1, s\<lparr>callbacks := if callbacks s = Null then NilValue else callbacks s,
            ran := ran s @ log1 @ due (case r1 of Inl _ \<Rightarrow> False | Inr _ \<Rightarrow> True) registered1\<rparr>)"
    by (rule context_outcome) (rule 4(1) [OF o1])
  show ?case
  proof (cases r1)
    case (Inl e)
    with inner 4(3,4) o1 show ?thesis by (auto simp: saved_def)
  next
    case (Inr u)
    let ?s = "s\<lparr>callbacks := Stack (preallocated # cbs), ran := ran s @ log1 @ due True registered1\<rparr>"
    have "perform as ?s = (r2, ?s\<lparr>callbacks := Stack (preallocated # saved registered2 @ cbs), ran := ran ?s @ log2\<rparr>)"
      by (rule 4(2) [OF o1 [symmetric] refl Inr o2]) simp
    with inner Inr 4(3,4) o1 o2 show ?thesis by auto
  qed
qed

text \<open>C24: when a call from R ends, normally or by a jump, the stack of handlers is as before the call, and the handlers that
  were registered in it have run, the last one first, those for an early exit only after a jump; those of
  inner calls have run when these ended, before the code that follows.\<close>

theorem exits_run_once_in_reverse:
  assumes "outcome as = (r, log, registered)"
  shows "r_with_cleanup_context (perform as) s
    = (r, s\<lparr>callbacks := if callbacks s = Null then NilValue else callbacks s,
            ran := ran s @ log @ due (case r of Inl _ \<Rightarrow> False | Inr _ \<Rightarrow> True) registered\<rparr>)"
  by (rule context_outcome) (rule perform_outcome [OF assms])

theorem exits_run_once_in_reverse_witness:
  "ran (snd (r_with_cleanup_context
     (perform [On_exit ''a'' False, Nested [On_exit ''b'' True, On_exit ''c'' False], On_exit ''d'' True, Jump R_interrupt])
     \<lparr>callbacks = Null, ran = []\<rparr>)) = [''c'', ''d'', ''a'']"
  by (subst exits_run_once_in_reverse [where r = "Inl R_interrupt" and log = "[''c'']" and registered = "[(''a'', False), (''d'', True)]"])
    (simp_all add: due_def)

text \<open>The test for a handler that is registered outside of any context only works before the first one.\<close>

lemma late_registration_undefined:
  "fst (call_save_handler h early (snd (r_with_cleanup_context (perform []) \<lparr>callbacks = Null, ran = []\<rparr>)))
    = Inl (Undefined_behaviour ''changing R_NilValue'')"
  by (simp add: r_with_cleanup_context_def call_exits_def call_save_handler_def Let_def preallocated_def)

end
