(* ===== verification/Client.thy ===== *)
theory Client
  imports Child_Props
begin

text \<open>
  The client library that is loaded into R subprocesses (src/src/client.c, its Unix branches):
  rerouting the standard streams, writing to a descriptor, and keeping descriptors from children.
  The clean-up when the process is told to terminate is not modelled.
\<close>

section \<open>Operations\<close>

text \<open>The loop over the descriptors is the one of connections (the same code is in both files).\<close>

definition processx_disable_inheritance :: "nat \<Rightarrow> nat \<Rightarrow> 'w os \<Rightarrow> ('w, unit) operation" where
  "processx_disable_inheritance n fuel os w =
     (let firstfd = (if os_getenv os ''PROCESSX_CLOEXEC_STDIO'' w then 0 else 3)
      in disable_inheritance_from n fuel os firstfd w)"

definition processx_write :: "'w os \<Rightarrow> int \<Rightarrow> byte list \<Rightarrow> ('w, nat) operation" where
  "processx_write os cfd bytes w =
     (case os_sigaction os ''SIGPIPE'' SIG_IGN w of (old_handler, w) \<Rightarrow>
      case os_write os cfd bytes w of (r, w) \<Rightarrow>
      case os_sigaction os ''SIGPIPE'' old_handler w of (_, w) \<Rightarrow>
      case r of
        Inl err \<Rightarrow> (if err = EAGAIN \<or> err = EWOULDBLOCK then (Inr 0, w) else (Inl (R_system_error ''Cannot write to fd'' err), w))
      | Inr n \<Rightarrow> (Inr n, w))"

text \<open>The old stream is kept under a new descriptor, which is the value, unless it is dropped.\<close>

definition processx_set_std :: "'w os \<Rightarrow> int \<Rightarrow> int \<Rightarrow> bool \<Rightarrow> ('w, int option) operation" where
  "processx_set_std os which fd discard =
     andthen (if discard then ret (- 1) else sys ''Cannot reroute'' (os_dup os which)) (\<lambda>orig.
     andthen (sys ''Cannot reroute'' (os_dup2 os fd which)) (\<lambda>_.
     andthen (\<lambda>w. (Inr (), snd (os_close os fd w))) (\<lambda>_.
     ret (if discard then None else Some orig))))"

definition processx_set_stdout :: "'w os \<Rightarrow> int \<Rightarrow> bool \<Rightarrow> ('w, int option) operation" where
  "processx_set_stdout os fd discard = processx_set_std os 1 fd discard"

definition processx_set_stderr :: "'w os \<Rightarrow> int \<Rightarrow> bool \<Rightarrow> ('w, int option) operation" where
  "processx_set_stderr os fd discard = processx_set_std os 2 fd discard"

definition processx_set_stdout_to_file :: "'w os \<Rightarrow> string \<Rightarrow> ('w, int option) operation" where
  "processx_set_stdout_to_file os c_file =
     andthen (sys ''Cannot open new stdout file'' (os_open os c_file (O_WRONLY OR O_CREAT OR O_TRUNC))) (\<lambda>fd.
     processx_set_std os 1 fd False)"

definition processx_set_stderr_to_file :: "'w os \<Rightarrow> string \<Rightarrow> ('w, int option) operation" where
  "processx_set_stderr_to_file os c_file =
     andthen (sys ''Cannot open new stderr file'' (os_open os c_file (O_WRONLY OR O_CREAT OR O_TRUNC))) (\<lambda>fd.
     processx_set_std os 2 fd False)"

section \<open>Properties\<close>

text \<open>What POSIX says of the calls: \<open>dup\<close> and \<open>open\<close> choose a descriptor that is not open.\<close>

definition file_table :: "'w os \<Rightarrow> ('w \<Rightarrow> int \<rightharpoonup> opened) \<Rightarrow> bool" where
  "file_table os files \<longleftrightarrow>
     (\<forall>a w x w'. os_dup os a w = (Inr x, w') \<longrightarrow> files w x = None \<and> files w a \<noteq> None \<and> files w' = (files w)(x := files w a)) \<and>
     (\<forall>a b w x w'. os_dup2 os a b w = (Inr x, w') \<longrightarrow> files w a \<noteq> None \<and> files w' = (files w)(b := files w a)) \<and>
     (\<forall>p fl w x w'. os_open os p fl w = (Inr x, w') \<longrightarrow> files w x = None \<and> files w' = (files w)(x \<mapsto> Opened p fl)) \<and>
     (\<forall>a w. files (snd (os_close os a w)) = (files w)(a := None))"

lemma sys_InrE: "sys msg call w = (Inr x, w') \<Longrightarrow> call w = (Inr x, w')"
  by (auto simp: sys_def split: prod.splits sum.splits)

lemma set_std_files:
  assumes law: "file_table os files" and run: "processx_set_std os which fd discard w = (Inr r, w')" and "files w fd \<noteq> None"
  shows "if discard then r = None \<and> files w' = (files w)(which := files w fd, fd := None)
    else \<exists>orig. r = Some orig \<and> files w orig = None \<and> files w which \<noteq> None \<and>
      files w' = (files w)(orig := files w which, which := files w fd, fd := None)"
proof (cases discard)
  case True
  with run obtain x v where d: "os_dup2 os fd which w = (Inr x, v)" and w': "r = None" "w' = snd (os_close os fd v)"
    unfolding processx_set_std_def by (auto elim!: andthen_InrE dest!: sys_InrE)
  with law True show ?thesis unfolding file_table_def by fastforce
next
  case False
  with run obtain orig u x v where o: "os_dup os which w = (Inr orig, u)" and d: "os_dup2 os fd which u = (Inr x, v)"
    and w': "r = Some orig" "w' = snd (os_close os fd v)"
    unfolding processx_set_std_def by (auto elim!: andthen_InrE dest!: sys_InrE)
  from law o have u: "files w orig = None" "files w which \<noteq> None" "files u = (files w)(orig := files w which)"
    unfolding file_table_def by blast+
  from law d have v: "files v = (files u)(which := files u fd)" unfolding file_table_def by blast
  from law have "files w' = (files v)(fd := None)" unfolding file_table_def w' by blast
  moreover have "files u fd = files w fd" using u assms(3) by auto
  ultimately show ?thesis using False u v w' by simp
qed

text \<open>C37: rerouting a standard stream makes it refer to the given file, and rerouting it again to the descriptor
  that was returned restores it: afterwards only the given descriptor is gone.\<close>

theorem reroute_and_back:
  assumes "file_table os files" and "files w fd \<noteq> None" and "fd \<noteq> which"
    and "processx_set_std os which fd False w = (Inr (Some orig), w1)"
    and "processx_set_std os which orig True w1 = (Inr r, w2)"
  shows "files w1 which = files w fd \<and> files w2 = (files w)(fd := None)"
proof -
  from set_std_files [OF assms(1,4,2)]
  have o: "files w orig = None" "files w which \<noteq> None" "files w1 = (files w)(orig := files w which, which := files w fd, fd := None)"
    by auto
  then have "orig \<noteq> which" "orig \<noteq> fd" using assms(2) by auto
  with o assms(3) have "files w1 orig \<noteq> None" by simp
  from set_std_files [OF assms(1,5) this] have "files w2 = (files w1)(which := files w1 orig, orig := None)" by simp
  with o \<open>orig \<noteq> which\<close> \<open>orig \<noteq> fd\<close> assms(3) show ?thesis by (auto simp: fun_eq_iff)
qed

text \<open>If standard output is closed, the file that is opened for it gets its number, and is closed again.\<close>

lemma closed_stdout_stays_closed:
  assumes "file_table os files" and "os_open os c_file (O_WRONLY OR O_CREAT OR O_TRUNC) w = (Inr 1, w1)"
    and "processx_set_stdout_to_file os c_file w = (Inr r, w2)"
  shows "files w2 1 = None"
proof -
  have "files w1 1 \<noteq> None" using assms(1,2) unfolding file_table_def by fastforce
  moreover have "processx_set_std os 1 1 False w1 = (Inr r, w2)"
    using assms(2,3) by (simp add: processx_set_stdout_to_file_def sys_def andthen_def)
  ultimately show ?thesis using set_std_files [OF assms(1)] by fastforce
qed

text \<open>A table of open files; \<open>dup\<close> takes the first free descriptor.\<close>

definition table_os :: "(int \<Rightarrow> opened option) os" where
  "table_os = refusing_os\<lparr>
     os_dup := \<lambda>a w. (case (w a, free_from 0 w) of (Some f, Some x) \<Rightarrow> (Inr x, w(x \<mapsto> f)) | _ \<Rightarrow> (Inl EBADF, w)),
     os_dup2 := \<lambda>a b w. (case w a of None \<Rightarrow> (Inl EBADF, w) | Some f \<Rightarrow> (Inr b, w(b \<mapsto> f))),
     os_open := \<lambda>p fl w. (case free_from 0 w of None \<Rightarrow> (Inl (EOTHER 24), w) | Some x \<Rightarrow> (Inr x, w(x \<mapsto> Opened p fl))),
     os_close := \<lambda>a w. (Inr (), w(a := None))\<rparr>"

lemma table_os_law: "file_table table_os (\<lambda>w. w)"
  unfolding file_table_def table_os_def refusing_os_def
  by (auto split: option.splits dest!: free_from_Some)

theorem reroute_and_back_witness:
  "\<exists>orig w1 r w2. processx_set_std table_os 1 5 False [0 \<mapsto> File 0, 1 \<mapsto> File 1, 2 \<mapsto> File 2, 5 \<mapsto> File 7] = (Inr (Some orig), w1) \<and>
    processx_set_std table_os 1 orig True w1 = (Inr r, w2) \<and> w1 1 = Some (File 7) \<and> w2 1 = Some (File 1) \<and> w2 5 = None"
proof -
  let ?w = "[0 \<mapsto> File 0, 1 \<mapsto> File 1, 2 \<mapsto> File 2, 5 \<mapsto> File 7] :: int \<Rightarrow> opened option"
  have free: "free_from 0 ?w = Some 3" by (simp add: free_from_def upto.simps)
  define w1 where "w1 = ?w(3 \<mapsto> File 1, 1 \<mapsto> File 7, 5 := None)"
  define w2 where "w2 = w1(1 \<mapsto> File 1, 3 := None)"
  have 1: "processx_set_std table_os 1 5 False ?w = (Inr (Some 3), w1)"
    using free by (simp add: processx_set_std_def table_os_def sys_def andthen_def w1_def)
  have 2: "processx_set_std table_os 1 3 True w1 = (Inr None, w2)"
    by (simp add: processx_set_std_def table_os_def sys_def andthen_def w1_def w2_def)
  have "w1 1 = ?w 5 \<and> w2 = ?w(5 := None)" using reroute_and_back [OF table_os_law _ _ 1 2] by simp
  then have "w1 1 = Some (File 7)" "w2 1 = Some (File 1)" "w2 5 = None" by simp_all
  with 1 2 show ?thesis by blast
qed

end
